(* ===== verification/Prelude.thy ===== *)
theory Prelude
  imports Main "HOL-Library.Word" "HOL-Library.Multiset"
begin

text \<open>
  Shared vocabulary of the development: the machine types of the Go sources
  (\<^verbatim>\<open>uint64\<close>, \<^verbatim>\<open>uint256.Int\<close>, \<^verbatim>\<open>crypto.Address\<close>, \<^verbatim>\<open>types.Hash\<close>), lemmas
  on wrapping word arithmetic, on lists and on finite maps that the component
  theories use, and the named collections their proofs are carried by.

  A 20-byte address and a 32-byte hash are the 160-bit and 256-bit words whose
  big-endian bytes they are; theory Bytes shows that the order of words is the
  byte-wise order the Go code sorts by.
\<close>

type_synonym byte = "8 word"
type_synonym u64 = "64 word"
type_synonym u256 = "256 word"
type_synonym address = "160 word"
type_synonym hash = "256 word"

named_theorems dew_simps \<open>unfolding rules of the model's small operations\<close>
named_theorems dew_inv \<open>invariants preserved by the model's operations\<close>


section \<open>Words without overflow\<close>

lemma word_add_wraps_iff:
  fixes x y :: "'a::len word"
  shows "x + y < x \<longleftrightarrow> 2 ^ LENGTH('a) \<le> unat x + unat y"
  using no_olen_add_nat [of x y] by auto

lemma unat_plus_exact:
  fixes x y :: "'a::len word"
  assumes "unat x + unat y < 2 ^ LENGTH('a)"
  shows "unat (x + y) = unat x + unat y"
  using assms by (simp add: unat_word_ariths)

lemma unat_mult_exact:
  fixes x y :: "'a::len word"
  assumes "unat x * unat y < 2 ^ LENGTH('a)"
  shows "unat (x * y) = unat x * unat y"
  using assms by (simp add: unat_word_ariths)

lemma unat_minus_exact:
  fixes x y :: "'a::len word"
  assumes "y \<le> x"
  shows "unat (x - y) = unat x - unat y"
  using assms by (simp add: unat_sub)


section \<open>Lists\<close>

lemma sum_list_pos_distinct_nth:
  fixes f :: "'a \<Rightarrow> nat"
  assumes "distinct xs"
  shows "sum_list (map f xs) = sum f (set xs)"
  using assms by (simp add: sum_list_distinct_conv_sum_set)

lemma distinct_map_sort_key [simp]:
  "distinct (map f (sort_key g xs)) = distinct (map f xs)"
  by (metis mset_map mset_sort mset_eq_imp_distinct_iff)

lemma sort_key_Nil_iff [simp]: "sort_key f xs = [] \<longleftrightarrow> xs = []"
  by (metis mset_sort mset_zero_iff)

lemma unat_u64_bound [simp]: "unat (x :: u64) < 18446744073709551616"
  using unsigned_less [of x] by simp

lemma unat_less_pow: "unat (x :: 'a::len word) < 2 ^ LENGTH('a)"
  by (rule unsigned_less)

lemma unat_of_nat_u64: "n < 2 ^ 64 \<Longrightarrow> unat (of_nat n :: u64) = n"
  by (simp add: unat_of_nat)


section \<open>Residues\<close>

lemma bij_betw_shift_mod:
  fixes h T :: nat
  shows "bij_betw (\<lambda>r. (h + r) mod T) {..<T} {..<T}"
proof (cases "T = 0")
  case False
  have le: "x = y" if "x \<le> y" "y < T" "(h + x) mod T = (h + y) mod T" for x y
  proof (rule ccontr)
    assume "x \<noteq> y"
    from that have "T dvd y - x"
      using mod_eq_dvd_iff_nat [of "h + x" "h + y" T] by simp
    with that \<open>x \<noteq> y\<close> show False by (auto dest: dvd_imp_le)
  qed
  have inj: "inj_on (\<lambda>r. (h + r) mod T) {..<T}"
  proof (rule inj_onI)
    fix x y assume "x \<in> {..<T}" "y \<in> {..<T}" "(h + x) mod T = (h + y) mod T"
    then show "x = y" using le [of x y] le [of y x] by (cases "x \<le> y") auto
  qed
  moreover have "(\<lambda>r. (h + r) mod T) ` {..<T} \<subseteq> {..<T}" using False by auto
  ultimately show ?thesis
    by (simp add: bij_betw_def endo_inj_surj)
qed (simp add: bij_betw_def)

lemma card_preimage_bij:
  assumes "bij_betw f S S" "A \<subseteq> S"
  shows "card {x \<in> S. f x \<in> A} = card A"
proof -
  have "bij_betw f {x \<in> S. f x \<in> A} A"
    using assms by (auto simp: bij_betw_def intro: inj_on_subset)
  then show ?thesis by (rule bij_betw_same_card)
qed

lemma ucast_u64_u256 [simp]: "ucast (ucast (x :: u64) :: u256) = x"
  by transfer simp

end
