(* ===== verification/Bytes.thy ===== *)
theory Bytes
  imports Prelude
begin

text \<open>
  Big-endian byte strings: \<^verbatim>\<open>binary.BigEndian\<close> on 64-bit words, the byte form of
  addresses (\<^verbatim>\<open>src/crypto\<close>) and hashes (\<^verbatim>\<open>src/core/types/hash.go\<close>), the law of a
  fixed-width codec as a locale with its three instances, and the agreement of
  byte-wise order with the order of words.
\<close>


section \<open>Big-endian digits\<close>

primrec beBytes :: "nat \<Rightarrow> nat \<Rightarrow> byte list" where
  "beBytes 0 n = []"
| "beBytes (Suc k) n = beBytes k (n div 256) @ [of_nat n]"

definition beNat :: "byte list \<Rightarrow> nat" where
  "beNat bs = foldl (\<lambda>a b. 256 * a + unat b) 0 bs"

text \<open>\<^verbatim>\<open>binary.BigEndian.PutUint64\<close> and \<^verbatim>\<open>Uint64\<close>.\<close>

definition putU64 :: "u64 \<Rightarrow> byte list" where
  "putU64 w = beBytes 8 (unat w)"

definition getU64 :: "byte list \<Rightarrow> u64" where
  "getU64 bs = of_nat (beNat bs)"

definition addrBytes :: "address \<Rightarrow> byte list" where
  "addrBytes a = beBytes 20 (unat a)"

definition bytesAddr :: "byte list \<Rightarrow> address" where
  "bytesAddr bs = of_nat (beNat bs)"

definition hashBytes :: "hash \<Rightarrow> byte list" where
  "hashBytes h = beBytes 32 (unat h)"

text \<open>\<^verbatim>\<open>types.BytesToHash\<close>: the last 32 bytes, right-aligned.\<close>

definition BytesToHash :: "byte list \<Rightarrow> hash" where
  "BytesToHash b = of_nat (beNat (if length b > 32 then drop (length b - 32) b else b))"

text \<open>The bytes of an ASCII string, \<^verbatim>\<open>[]byte(s)\<close>.\<close>

definition strBytes :: "string \<Rightarrow> byte list" where
  "strBytes s = map (\<lambda>ch. of_char ch) s"

lemma length_beBytes [simp]: "length (beBytes k n) = k"
  by (induction k arbitrary: n) simp_all

lemma beNat_Nil [simp]: "beNat [] = 0"
  by (simp add: beNat_def)

lemma beNat_snoc [simp]: "beNat (bs @ [b]) = 256 * beNat bs + unat b"
  by (simp add: beNat_def)

lemma unat_byte_bound [simp]: "unat (b :: byte) < 256"
  using unsigned_less [of b] by simp

lemma unat_of_nat_byte: "unat (of_nat n :: byte) = n mod 256"
  by (simp add: unat_of_nat)

lemma beNat_less: "beNat bs < 256 ^ length bs"
proof (induction bs rule: rev_induct)
  case (snoc b bs)
  have "256 * beNat bs + unat b < 256 * (beNat bs + 1)"
    by simp
  also have "\<dots> \<le> 256 * 256 ^ length bs"
    using snoc.IH by (intro mult_le_mono) simp_all
  finally show ?case by simp
qed simp

lemma beNat_beBytes: "beNat (beBytes k n) = n mod 256 ^ k"
proof (induction k arbitrary: n)
  case (Suc k)
  then show ?case
    using mod_mult2_eq [of n 256 "256 ^ k"] by (simp add: unat_of_nat_byte)
qed simp

lemma beBytes_beNat: "beBytes (length bs) (beNat bs) = bs"
proof (induction bs rule: rev_induct)
  case (snoc b bs)
  have "(256 * beNat bs + unat b) div 256 = beNat bs"
    by simp
  moreover have "(of_nat (256 * beNat bs + unat b) :: byte) = b"
  proof -
    have "unat (of_nat (256 * beNat bs + unat b) :: byte) = unat b"
      by (simp only: unat_of_nat_byte mod_mult_self4) simp
    then show ?thesis by (simp only: unsigned_word_eqI word_unat_eq_iff)
  qed
  ultimately show ?case using snoc.IH by (simp del: of_nat_add of_nat_mult)
qed simp

lemma beBytes_0: "beBytes k 0 = replicate k 0"
  by (induction k) (simp_all add: replicate_append_same)

lemma beBytes_pad: "n < 256 ^ k \<Longrightarrow> beBytes (m + k) n = replicate m 0 @ beBytes k n"
proof (induction k arbitrary: n)
  case (Suc k)
  have "n div 256 < 256 ^ k" using Suc.prems by (simp add: less_mult_imp_div_less mult.commute)
  from Suc.IH [OF this] show ?case by simp
qed (simp add: beBytes_0)

lemma beNat_inj: "length xs = length ys \<Longrightarrow> beNat xs = beNat ys \<Longrightarrow> xs = ys"
  by (metis beBytes_beNat)


section \<open>Fixed-width codecs\<close>

text \<open>
  What the key layouts and wire formats rely on: an encoder of constant width
  with a decoder that inverts it on both sides.
\<close>

locale fixed_codec =
  fixes enc :: "'a \<Rightarrow> byte list"
    and dec :: "byte list \<Rightarrow> 'a"
    and width :: nat
  assumes enc_length: "length (enc x) = width"
    and dec_enc: "dec (enc x) = x"
    and enc_dec: "length bs = width \<Longrightarrow> enc (dec bs) = bs"
begin

lemma enc_inj: "enc x = enc y \<longleftrightarrow> x = y"
  by (metis dec_enc)

lemma enc_append_inj: "enc x @ xs = enc y @ ys \<longleftrightarrow> x = y \<and> xs = ys"
  using enc_length enc_inj by auto

lemma dec_take_enc: "dec (take width (enc x @ rest)) = x"
  by (simp add: enc_length dec_enc)

lemma drop_enc: "drop width (enc x @ rest) = rest"
  by (simp add: enc_length)

end

lemma word_codec_laws:
  fixes x :: "'a::len word"
  assumes "2 ^ LENGTH('a) = (256::nat) ^ k"
  shows "of_nat (beNat (beBytes k (unat x))) = x"
    and "length bs = k \<Longrightarrow> beBytes k (unat (of_nat (beNat bs) :: 'a word)) = bs"
proof -
  show "of_nat (beNat (beBytes k (unat x))) = x"
    using unat_less_pow [of x] assms by (simp add: beNat_beBytes)
next
  assume "length bs = k"
  then have "unat (of_nat (beNat bs) :: 'a word) = beNat bs"
    using beNat_less [of bs] assms by (simp add: unat_of_nat)
  with \<open>length bs = k\<close> show "beBytes k (unat (of_nat (beNat bs) :: 'a word)) = bs"
    using beBytes_beNat by auto
qed

interpretation u64c: fixed_codec putU64 getU64 8
  by unfold_locales
    (simp_all add: putU64_def getU64_def word_codec_laws)

interpretation addrc: fixed_codec addrBytes bytesAddr 20
  by unfold_locales
    (simp_all add: addrBytes_def bytesAddr_def word_codec_laws)

interpretation hashc: fixed_codec hashBytes BytesToHash 32
  by unfold_locales
    (simp_all add: hashBytes_def BytesToHash_def word_codec_laws)

lemmas codec_lengths [simp] = u64c.enc_length addrc.enc_length hashc.enc_length
lemmas codec_dec_enc [simp] = u64c.dec_enc addrc.dec_enc hashc.dec_enc
lemmas codec_inj [simp] = u64c.enc_inj addrc.enc_inj hashc.enc_inj
lemmas codec_append_inj [simp] = u64c.enc_append_inj addrc.enc_append_inj hashc.enc_append_inj


section \<open>Byte-wise order\<close>

text \<open>Go compares fixed-width byte arrays lexicographically, which is the order of the numbers.\<close>

lemma lexord_append_same_length:
  assumes "length xs = length ys"
  shows "(xs @ us, ys @ vs) \<in> lexord r \<longleftrightarrow> (xs, ys) \<in> lexord r \<or> xs = ys \<and> (us, vs) \<in> lexord r"
  using assms by (induction xs ys rule: list_induct2) auto

lemma beNat_lexord:
  assumes "length xs = length ys"
  shows "(xs, ys) \<in> lexord {(a, b). a < b} \<longleftrightarrow> beNat xs < beNat ys"
  using assms
proof (induction xs arbitrary: ys rule: rev_induct)
  case (snoc x xs)
  then obtain ys' y where ys: "ys = ys' @ [y]" and len: "length xs = length ys'"
    by (cases ys rule: rev_cases) simp_all
  have "(256 * a + unat x < 256 * b + unat y) \<longleftrightarrow> a < b \<or> a = b \<and> x < y" for a b
    using unat_byte_bound [of x] unat_byte_bound [of y] unfolding word_less_nat_alt by linarith
  then show ?case
    using snoc.IH [OF len] len beNat_inj [OF len]
    by (auto simp: ys lexord_append_same_length)
qed simp

lemma addrBytes_lexord:
  "(addrBytes a, addrBytes b) \<in> lexord {(x, y). x < y} \<longleftrightarrow> a < b"
proof -
  have "beNat (addrBytes c) = unat c" for c
    using unat_less_pow [of c] by (simp add: addrBytes_def beNat_beBytes)
  then show ?thesis by (simp add: beNat_lexord word_less_nat_alt [of a b])
qed

end
