(* ===== verification/ValidatorSet.thy ===== *)
theory ValidatorSet
  imports Prelude
begin

text \<open>
  The validator set of \<^verbatim>\<open>src/consensus/validator.go\<close>: construction with its
  rejections, lookup by address, the two-thirds quorum test on 64-bit words
  and the stake-weighted proposer rotation.
\<close>


section \<open>Data\<close>

record Validator =
  vAddress :: address
  vPower :: u64

record ValidatorSet =
  vsValidators :: "Validator list"
  vsTotalPower :: u64
  vsIndex :: "address \<rightharpoonup> nat"

datatype vsError =
    EmptyValidatorSet
  | ZeroPowerValidator address
  | DuplicateValidator address
  | VotingPowerOverflow


section \<open>Operations\<close>

text \<open>The loop of the constructor: index map and running total over the sorted copy.\<close>

fun nvsLoop :: "Validator list \<Rightarrow> nat \<Rightarrow> (address \<rightharpoonup> nat) \<Rightarrow> u64
    \<Rightarrow> vsError + (address \<rightharpoonup> nat) \<times> u64" where
  "nvsLoop [] i idx tot = Inr (idx, tot)"
| "nvsLoop (v # vs) i idx tot =
    (if vPower v = 0 then Inl (ZeroPowerValidator (vAddress v))
     else if idx (vAddress v) \<noteq> None then Inl (DuplicateValidator (vAddress v))
     else if tot + vPower v < tot then Inl VotingPowerOverflow
     else nvsLoop vs (Suc i) (idx(vAddress v \<mapsto> i)) (tot + vPower v))"

definition NewValidatorSet :: "Validator list \<Rightarrow> vsError + ValidatorSet" where
  "NewValidatorSet vals =
    (if vals = [] then Inl EmptyValidatorSet
     else let cp = sort_key vAddress vals in
       case nvsLoop cp 0 Map.empty 0 of
         Inl e \<Rightarrow> Inl e
       | Inr (idx, tot) \<Rightarrow>
           Inr \<lparr>vsValidators = cp, vsTotalPower = tot, vsIndex = idx\<rparr>)"

definition vsSize :: "ValidatorSet \<Rightarrow> nat" where
  "vsSize vs = length (vsValidators vs)"

definition vsGet :: "ValidatorSet \<Rightarrow> address \<Rightarrow> Validator option" where
  "vsGet vs addr =
    (case vsIndex vs addr of
       None \<Rightarrow> None
     | Some i \<Rightarrow> Some (vsValidators vs ! i))"

definition PowerOf :: "ValidatorSet \<Rightarrow> address \<Rightarrow> u64" where
  "PowerOf vs addr = (case vsGet vs addr of None \<Rightarrow> 0 | Some v \<Rightarrow> vPower v)"

definition HasQuorum :: "u64 \<Rightarrow> u64 \<Rightarrow> bool" where
  "HasQuorum votePower totalPower =
    (if totalPower = 0 then False else totalPower * 2 < votePower * 3)"

definition vsHasQuorum :: "ValidatorSet \<Rightarrow> u64 \<Rightarrow> bool" where
  "vsHasQuorum vs votePower = HasQuorum votePower (vsTotalPower vs)"

text \<open>The cumulative-power scan; \<^verbatim>\<open>None\<close> when it runs off the end of the list.\<close>

fun proposerScan :: "Validator list \<Rightarrow> nat \<Rightarrow> u64 \<Rightarrow> u64 \<Rightarrow> nat option" where
  "proposerScan [] i acc slot = None"
| "proposerScan (v # vs) i acc slot =
    (if slot < acc + vPower v then Some i
     else proposerScan vs (Suc i) (acc + vPower v) slot)"

definition ProposerIndex :: "ValidatorSet \<Rightarrow> u64 \<Rightarrow> u64 \<Rightarrow> nat" where
  "ProposerIndex vs height rnd =
    (if vsTotalPower vs = 0 then 0
     else case proposerScan (vsValidators vs) 0 0 ((height + rnd) mod vsTotalPower vs) of
            Some i \<Rightarrow> i
          | None \<Rightarrow> length (vsValidators vs) - 1)"

definition Proposer :: "ValidatorSet \<Rightarrow> u64 \<Rightarrow> u64 \<Rightarrow> address" where
  "Proposer vs height rnd = vAddress (vsValidators vs ! ProposerIndex vs height rnd)"


text \<open>Cumulative power, and the well-formedness invariant of a constructed set.\<close>

definition powerSum :: "Validator list \<Rightarrow> nat" where
  "powerSum vs = (\<Sum>v\<leftarrow>vs. unat (vPower v))"

definition wf_vs :: "ValidatorSet \<Rightarrow> bool" where
  "wf_vs vs \<longleftrightarrow>
     vsValidators vs \<noteq> [] \<and>
     sorted_wrt (<) (map vAddress (vsValidators vs)) \<and>
     (\<forall>v\<in>set (vsValidators vs). vPower v \<noteq> 0) \<and>
     unat (vsTotalPower vs) = powerSum (vsValidators vs) \<and>
     (\<forall>i<length (vsValidators vs). vsIndex vs (vAddress (vsValidators vs ! i)) = Some i) \<and>
     (\<forall>a. a \<notin> vAddress ` set (vsValidators vs) \<longrightarrow> vsIndex vs a = None)"


text \<open>What the constructor's checks amount to, independently of its loop.\<close>

definition acceptable :: "Validator list \<Rightarrow> bool" where
  "acceptable vals \<longleftrightarrow>
     vals \<noteq> [] \<and> (\<forall>v\<in>set vals. vPower v \<noteq> 0) \<and> distinct (map vAddress vals) \<and>
     powerSum vals < 2 ^ 64"


section \<open>Construction\<close>

lemma powerSum_simps [simp]:
  "powerSum [] = 0" "powerSum (v # vs) = unat (vPower v) + powerSum vs"
  "powerSum (xs @ ys) = powerSum xs + powerSum ys"
  by (simp_all add: powerSum_def)

lemma powerSum_mset: "mset xs = mset ys \<Longrightarrow> powerSum xs = powerSum ys"
  unfolding powerSum_def by (metis mset_map sum_mset_sum_list)

lemma powerSum_sort [simp]: "powerSum (sort_key f xs) = powerSum xs"
  by (rule powerSum_mset) simp

lemma nvsLoop_Inr:
  assumes "\<forall>v\<in>set vs. vPower v \<noteq> 0" "distinct (map vAddress vs)"
    "vAddress ` set vs \<inter> dom idx = {}" "unat t + powerSum vs < 2 ^ 64"
  shows "\<exists>idx' t'. nvsLoop vs i idx t = Inr (idx', t') \<and>
      (\<forall>j<length vs. idx' (vAddress (vs ! j)) = Some (i + j)) \<and>
      (\<forall>a. a \<notin> vAddress ` set vs \<longrightarrow> idx' a = idx a) \<and>
      unat t' = unat t + powerSum vs"
  using assms
proof (induction vs arbitrary: i idx t)
  case (Cons v vs)
  have t1: "unat (t + vPower v) = unat t + unat (vPower v)"
    using Cons.prems(4) by (intro unat_plus_exact) simp
  have nov: "\<not> t + vPower v < t"
    using Cons.prems(4) by (simp add: word_add_wraps_iff)
  have disj: "vAddress ` set vs \<inter> dom (idx(vAddress v \<mapsto> i)) = {}"
    using Cons.prems(2,3) by (simp add: Int_insert_right)
  have "\<exists>idx' t'. nvsLoop vs (Suc i) (idx(vAddress v \<mapsto> i)) (t + vPower v) = Inr (idx', t') \<and>
    (\<forall>j<length vs. idx' (vAddress (vs ! j)) = Some (Suc i + j)) \<and>
    (\<forall>a. a \<notin> vAddress ` set vs \<longrightarrow> idx' a = (idx(vAddress v \<mapsto> i)) a) \<and>
    unat t' = unat (t + vPower v) + powerSum vs"
    by (rule Cons.IH [OF _ _ disj]) (use Cons.prems t1 in simp_all)
  then obtain idx' t' where IH:
    "nvsLoop vs (Suc i) (idx(vAddress v \<mapsto> i)) (t + vPower v) = Inr (idx', t')"
    "\<forall>j<length vs. idx' (vAddress (vs ! j)) = Some (Suc i + j)"
    "\<forall>a. a \<notin> vAddress ` set vs \<longrightarrow> idx' a = (idx(vAddress v \<mapsto> i)) a"
    "unat t' = unat (t + vPower v) + powerSum vs"
    by blast
  have "idx' (vAddress ((v # vs) ! j)) = Some (i + j)" if "j < length (v # vs)" for j
    using that IH(2,3) Cons.prems(2) by (cases j) auto
  moreover have "idx (vAddress v) = None"
    using Cons.prems(3) by auto
  ultimately show ?case
    using Cons.prems(1) nov t1 IH by (intro exI [of _ idx'] exI [of _ t']) auto
qed simp

lemma nvsLoop_InrD:
  assumes "nvsLoop vs i idx t = Inr r"
  shows "(\<forall>v\<in>set vs. vPower v \<noteq> 0) \<and> distinct (map vAddress vs) \<and>
    vAddress ` set vs \<inter> dom idx = {} \<and> unat t + powerSum vs < 2 ^ 64"
  using assms
proof (induction vs arbitrary: i idx t)
  case (Cons v vs)
  then have step: "vPower v \<noteq> 0" "idx (vAddress v) = None" "\<not> t + vPower v < t"
    "nvsLoop vs (Suc i) (idx(vAddress v \<mapsto> i)) (t + vPower v) = Inr r"
    by (auto split: if_splits)
  have "unat (t + vPower v) = unat t + unat (vPower v)"
    using step(3) by (intro unat_plus_exact) (simp add: word_add_wraps_iff)
  with Cons.IH [OF step(4)] step show ?case by auto
qed simp

lemma sorted_key_strict:
  fixes xs :: "Validator list"
  assumes "distinct (map vAddress xs)"
  shows "sorted_wrt (<) (map vAddress (sort_key vAddress xs))"
  using assms by (simp add: strict_sorted_iff)

text \<open>C7: the constructor accepts exactly the non-empty lists of validators with positive power,
  pairwise distinct addresses and a total that fits 64 bits; what it returns is a permutation of the
  input, strictly sorted by address, with the exact total and an index that finds every member.\<close>

theorem NewValidatorSet_accepts_iff:
  "case NewValidatorSet vals of
     Inr vs \<Rightarrow> wf_vs vs \<and> mset (vsValidators vs) = mset vals \<and> acceptable vals
   | Inl e \<Rightarrow> \<not> acceptable vals"
proof (cases "acceptable vals")
  case True
  then obtain idx t where "nvsLoop (sort_key vAddress vals) 0 Map.empty 0 = Inr (idx, t)"
    "\<forall>j<length vals. idx (vAddress (sort_key vAddress vals ! j)) = Some j"
    "\<forall>a. a \<notin> vAddress ` set vals \<longrightarrow> idx a = None" "unat t = powerSum vals"
    using nvsLoop_Inr [of "sort_key vAddress vals" Map.empty 0 0]
    by (auto simp: acceptable_def)
  with True show ?thesis
    using sorted_key_strict [of vals]
    by (auto simp: NewValidatorSet_def wf_vs_def Let_def acceptable_def)
next
  case False
  have "\<nexists>r. vals \<noteq> [] \<and> nvsLoop (sort_key vAddress vals) 0 Map.empty 0 = Inr r"
    using False nvsLoop_InrD [of "sort_key vAddress vals" 0 Map.empty 0]
    by (auto simp: acceptable_def)
  with False show ?thesis
    by (auto simp: NewValidatorSet_def Let_def split: sum.splits)
qed


section \<open>Lookup\<close>

lemma wf_vs_distinct: "wf_vs vs \<Longrightarrow> distinct (map vAddress (vsValidators vs))"
  by (simp add: wf_vs_def strict_sorted_iff)

lemma vsGet_nth:
  "wf_vs vs \<Longrightarrow> i < length (vsValidators vs) \<Longrightarrow>
   vsGet vs (vAddress (vsValidators vs ! i)) = Some (vsValidators vs ! i)"
  by (simp add: vsGet_def wf_vs_def)

lemma vsGet_member:
  assumes "wf_vs vs" "v \<in> set (vsValidators vs)"
  shows "vsGet vs (vAddress v) = Some v"
  using assms vsGet_nth by (metis in_set_conv_nth)

lemma vsGet_None:
  assumes "wf_vs vs"
  shows "vsGet vs a = None \<longleftrightarrow> a \<notin> vAddress ` set (vsValidators vs)"
  using assms vsGet_member [OF assms]
  by (cases "a \<in> vAddress ` set (vsValidators vs)") (auto simp: vsGet_def wf_vs_def)

lemma vsGet_Some:
  assumes "wf_vs vs"
  shows "vsGet vs a = Some v \<longleftrightarrow> v \<in> set (vsValidators vs) \<and> vAddress v = a"
proof (cases "a \<in> vAddress ` set (vsValidators vs)")
  case True
  then obtain w where w: "w \<in> set (vsValidators vs)" "a = vAddress w" by blast
  then show ?thesis
    using vsGet_member [OF assms w(1)] vsGet_member [OF assms, of v] by auto
next
  case False
  then show ?thesis using vsGet_None [OF assms, of a] by auto
qed

lemma PowerOf_member:
  "wf_vs vs \<Longrightarrow> v \<in> set (vsValidators vs) \<Longrightarrow> PowerOf vs (vAddress v) = vPower v"
  by (simp add: PowerOf_def vsGet_member)

lemma PowerOf_nonmember:
  "wf_vs vs \<Longrightarrow> a \<notin> vAddress ` set (vsValidators vs) \<Longrightarrow> PowerOf vs a = 0"
  using vsGet_None [of vs a] by (simp add: PowerOf_def)

abbreviation members :: "ValidatorSet \<Rightarrow> address set" where
  "members vs \<equiv> vAddress ` set (vsValidators vs)"

lemma sum_PowerOf_members:
  assumes "wf_vs vs"
  shows "(\<Sum>a\<in>members vs. unat (PowerOf vs a)) = unat (vsTotalPower vs)"
proof -
  have d: "distinct (map vAddress (vsValidators vs))" by (rule wf_vs_distinct [OF assms])
  have "(\<Sum>a\<in>members vs. unat (PowerOf vs a)) =
      sum_list (map (\<lambda>a. unat (PowerOf vs a)) (map vAddress (vsValidators vs)))"
    using sum_list_distinct_conv_sum_set [OF d, of "\<lambda>a. unat (PowerOf vs a)"] by simp
  also have "\<dots> = powerSum (vsValidators vs)"
    unfolding powerSum_def map_map
    by (rule arg_cong [where f = sum_list], rule map_cong) (simp_all add: PowerOf_member [OF assms])
  finally show ?thesis using assms by (simp add: wf_vs_def)
qed


section \<open>Quorums\<close>

text \<open>The set is small enough for the 64-bit quorum test: three times the total fits.\<close>

definition quorum_safe :: "ValidatorSet \<Rightarrow> bool" where
  "quorum_safe vs \<longleftrightarrow> wf_vs vs \<and> 3 * unat (vsTotalPower vs) < 2 ^ 64"

lemma HasQuorum_exact:
  assumes "3 * unat tot < 2 ^ 64" "unat p \<le> unat tot"
  shows "HasQuorum p tot \<longleftrightarrow> 2 * unat tot < 3 * unat p"
proof -
  have "unat (tot * 2) = unat tot * 2" "unat (p * 3) = unat p * 3"
    using assms by (simp_all add: unat_mult_exact)
  then show ?thesis
    using assms(2) by (auto simp: HasQuorum_def word_less_nat_alt)
qed

lemma HasQuorum_mono:
  assumes "3 * unat tot < 2 ^ 64" "unat p \<le> unat q" "unat q \<le> unat tot" "HasQuorum p tot"
  shows "HasQuorum q tot"
  using assms by (simp add: HasQuorum_exact)

text \<open>
  The interface consensus relies on: weighted members, a total, and a quorum
  test that is exactly a strict two-thirds majority of the total.
\<close>

locale weighted_quorums =
  fixes ok :: "'vs \<Rightarrow> bool"
    and mems :: "'vs \<Rightarrow> 'a set"
    and weight :: "'vs \<Rightarrow> 'a \<Rightarrow> nat"
    and whole :: "'vs \<Rightarrow> nat"
    and quorum :: "'vs \<Rightarrow> nat \<Rightarrow> bool"
  assumes finite_mems: "ok vs \<Longrightarrow> finite (mems vs)"
    and whole_sum: "ok vs \<Longrightarrow> whole vs = sum (weight vs) (mems vs)"
    and quorum_iff: "ok vs \<Longrightarrow> p \<le> whole vs \<Longrightarrow> quorum vs p \<longleftrightarrow> 2 * whole vs < 3 * p"
begin

lemma quorum_overlap:
  assumes "ok vs" "A \<subseteq> mems vs" "B \<subseteq> mems vs"
    "quorum vs (sum (weight vs) A)" "quorum vs (sum (weight vs) B)"
  shows "whole vs < 3 * sum (weight vs) (A \<inter> B)"
proof -
  have fin: "finite A" "finite B"
    using assms finite_mems by (auto intro: finite_subset)
  have le: "sum (weight vs) X \<le> whole vs" if "X \<subseteq> mems vs" for X
    using that assms(1) finite_mems by (simp add: whole_sum sum_mono2)
  have "sum (weight vs) (A \<union> B) + sum (weight vs) (A \<inter> B) = sum (weight vs) A + sum (weight vs) B"
    using sum.union_inter [OF fin] by simp
  moreover have "2 * whole vs < 3 * sum (weight vs) A" "2 * whole vs < 3 * sum (weight vs) B"
    using assms le by (auto simp: quorum_iff)
  moreover have "sum (weight vs) (A \<union> B) \<le> whole vs"
    using assms(2,3) by (intro le) simp
  ultimately show ?thesis by linarith
qed

lemma quorum_common_outside:
  assumes "ok vs" "A \<subseteq> mems vs" "B \<subseteq> mems vs"
    "quorum vs (sum (weight vs) A)" "quorum vs (sum (weight vs) B)"
    "F \<subseteq> mems vs" "3 * sum (weight vs) F \<le> whole vs"
  shows "\<exists>a\<in>A \<inter> B. a \<notin> F"
proof (rule ccontr)
  assume "\<not> ?thesis"
  then have "A \<inter> B \<subseteq> F" by blast
  then have "sum (weight vs) (A \<inter> B) \<le> sum (weight vs) F"
    using assms(1,6) finite_mems by (intro sum_mono2) (auto intro: finite_subset)
  with quorum_overlap [OF assms(1-5)] assms(7) show False by linarith
qed

end

definition memberPower :: "ValidatorSet \<Rightarrow> address \<Rightarrow> nat" where
  "memberPower vs a = unat (PowerOf vs a)"

interpretation vq: weighted_quorums quorum_safe members memberPower
  "\<lambda>vs. unat (vsTotalPower vs)" "\<lambda>vs p. vsHasQuorum vs (of_nat p)"
proof unfold_locales
  fix vs p assume "quorum_safe vs" "p \<le> unat (vsTotalPower vs)"
  moreover from this have "unat (of_nat p :: u64) = p"
    using order.strict_trans1 [OF _ unat_u64_bound [of "vsTotalPower vs"]]
    by (intro unat_of_nat_u64) simp
  ultimately show "vsHasQuorum vs (of_nat p) \<longleftrightarrow> 2 * unat (vsTotalPower vs) < 3 * p"
    by (simp add: quorum_safe_def vsHasQuorum_def HasQuorum_exact)
qed (simp_all add: quorum_safe_def memberPower_def sum_PowerOf_members)

text \<open>
  The test multiplies 64-bit words.  In a set of total power \<^verbatim>\<open>2 ^ 63\<close>, which the constructor accepts,
  the doubled total is 0 and every vote power but 0 passes.
\<close>

lemma HasQuorum_wraps:
  assumes "p \<noteq> 0"
  shows "HasQuorum p (2 ^ 63)"
proof -
  have "(3 :: u64) * 0xAAAAAAAAAAAAAAAB = 1" by simp
  then have "p * 3 * 0xAAAAAAAAAAAAAAAB = p" by (metis mult.assoc mult.right_neutral)
  with assms have "p * 3 \<noteq> 0" by (metis mult_zero_left)
  moreover have "(2 ^ 63 :: u64) * 2 = 0" "(2 ^ 63 :: u64) \<noteq> 0" by (simp_all add: word_eq_iff_unsigned)
  ultimately show ?thesis by (simp only: HasQuorum_def word_gt_0 if_False)
qed

lemma PowerOf_member_nonzero:
  "wf_vs vs \<Longrightarrow> a \<in> members vs \<Longrightarrow> PowerOf vs a \<noteq> 0"
  by (auto simp: PowerOf_member wf_vs_def)

text \<open>C6: the 64-bit quorum test is sound for the well-formed sets whose tripled total power fits 64
  bits: two groups of members that both pass it overlap in more than a third of the total power.  The
  bound on the total is needed: in every well-formed set of total power \<^verbatim>\<open>2 ^ 63\<close> the doubled total wraps to
  0 and each member alone passes the test.\<close>

theorem quorums_overlap:
  assumes "wf_vs vs"
  shows "(\<forall>A B. 3 * unat (vsTotalPower vs) < 2 ^ 64 \<and> A \<subseteq> members vs \<and> B \<subseteq> members vs \<and>
      vsHasQuorum vs (of_nat (\<Sum>a\<in>A. memberPower vs a)) \<and>
      vsHasQuorum vs (of_nat (\<Sum>a\<in>B. memberPower vs a)) \<longrightarrow>
      unat (vsTotalPower vs) < 3 * (\<Sum>a\<in>A \<inter> B. memberPower vs a)) \<and>
    (vsTotalPower vs = 2 ^ 63 \<longrightarrow> (\<forall>a\<in>members vs. vsHasQuorum vs (PowerOf vs a)))"
proof -
  have "\<forall>a\<in>members vs. vsHasQuorum vs (PowerOf vs a)" if "vsTotalPower vs = 2 ^ 63"
    using HasQuorum_wraps PowerOf_member_nonzero [OF assms] that by (simp add: vsHasQuorum_def)
  with vq.quorum_overlap assms show ?thesis by (auto simp: quorum_safe_def)
qed

text \<open>Three validators of powers 4, 3 and 3, as the constructor returns them.\<close>

definition exVals :: "Validator list" where
  "exVals = [\<lparr>vAddress = 11, vPower = 4\<rparr>, \<lparr>vAddress = 12, vPower = 3\<rparr>, \<lparr>vAddress = 13, vPower = 3\<rparr>]"

definition exSet :: ValidatorSet where
  "exSet = \<lparr>vsValidators = exVals, vsTotalPower = 10, vsIndex = [11 \<mapsto> 0, 12 \<mapsto> Suc 0, 13 \<mapsto> Suc (Suc 0)]\<rparr>"

lemma exSet_built: "NewValidatorSet (rev exVals) = Inr exSet"
  by (simp add: NewValidatorSet_def exVals_def exSet_def)

lemma exSet_wf [simp]: "wf_vs exSet"
  by (auto simp: wf_vs_def exSet_def exVals_def less_Suc_eq)

lemma exSet_fields: "vsValidators exSet = exVals" "vsTotalPower exSet = 10"
  by (simp_all add: exSet_def)

lemma exSet_safe [simp]: "quorum_safe exSet"
  by (simp add: quorum_safe_def) (simp add: exSet_def)

lemma exSet_power [simp]:
  "memberPower exSet 11 = 4" "memberPower exSet 12 = 3" "memberPower exSet 13 = 3"
  by (simp_all add: memberPower_def PowerOf_def vsGet_def exSet_def exVals_def)

text \<open>Two validators of power \<^verbatim>\<open>2 ^ 62\<close> each: the constructor accepts the pair.\<close>

definition exWide :: ValidatorSet where
  "exWide = \<lparr>vsValidators = [\<lparr>vAddress = 21, vPower = 2 ^ 62\<rparr>, \<lparr>vAddress = 22, vPower = 2 ^ 62\<rparr>],
     vsTotalPower = 2 ^ 63, vsIndex = [21 \<mapsto> 0, 22 \<mapsto> Suc 0]\<rparr>"

lemma exWide_built: "NewValidatorSet (vsValidators exWide) = Inr exWide"
  by (simp add: NewValidatorSet_def exWide_def)

lemma exWide_wf: "wf_vs exWide"
  by (auto simp: wf_vs_def exWide_def less_Suc_eq)

theorem quorums_overlap_witness:
  "unat (vsTotalPower exSet) < 3 * (\<Sum>a\<in>{11, 12} \<inter> {11, 13}. memberPower exSet a) \<and>
   NewValidatorSet (vsValidators exWide) = Inr exWide \<and>
   vsHasQuorum exWide (PowerOf exWide 21) \<and> vsHasQuorum exWide (PowerOf exWide 22)"
proof (intro conjI)
  show "unat (vsTotalPower exSet) < 3 * (\<Sum>a\<in>{11, 12} \<inter> {11, 13}. memberPower exSet a)"
    by (rule quorums_overlap [OF exSet_wf, THEN conjunct1, rule_format])
      (simp add: vsHasQuorum_def HasQuorum_def, simp add: exSet_def exVals_def)
qed (use quorums_overlap [OF exWide_wf] exWide_built in \<open>auto simp: exWide_def\<close>)


section \<open>Proposer rotation\<close>

text \<open>The scan finds the validator whose interval of cumulative power holds the slot.\<close>

lemma proposerScan_interval:
  assumes "unat acc + powerSum vs < 2 ^ 64" "unat acc \<le> unat slot"
    "unat slot < unat acc + powerSum vs"
  shows "\<exists>k<length vs. proposerScan vs i acc slot = Some (i + k) \<and>
    unat acc + powerSum (take k vs) \<le> unat slot \<and>
    unat slot < unat acc + powerSum (take (Suc k) vs)"
  using assms
proof (induction vs arbitrary: i acc)
  case (Cons v vs)
  have a1: "unat (acc + vPower v) = unat acc + unat (vPower v)"
    using Cons.prems(1) by (intro unat_plus_exact) simp
  show ?case
  proof (cases "slot < acc + vPower v")
    case True
    then show ?thesis using Cons.prems(2) a1 by (auto simp: word_less_nat_alt intro: exI [of _ 0])
  next
    case False
    then have "\<exists>k<length vs. proposerScan vs (Suc i) (acc + vPower v) slot = Some (Suc i + k) \<and>
      unat (acc + vPower v) + powerSum (take k vs) \<le> unat slot \<and>
      unat slot < unat (acc + vPower v) + powerSum (take (Suc k) vs)"
      using Cons.prems a1 by (intro Cons.IH) (simp_all add: word_less_nat_alt)
    then obtain k where "k < length vs"
      "proposerScan vs (Suc i) (acc + vPower v) slot = Some (Suc i + k)"
      "unat (acc + vPower v) + powerSum (take k vs) \<le> unat slot"
      "unat slot < unat (acc + vPower v) + powerSum (take (Suc k) vs)" by blast
    with False a1 show ?thesis by (intro exI [of _ "Suc k"]) simp
  qed
qed simp

lemma powerSum_take_mono: "i \<le> j \<Longrightarrow> powerSum (take i vs) \<le> powerSum (take j vs)"
proof (induction vs arbitrary: i j)
  case (Cons v vs) then show ?case by (cases i; cases j) simp_all
qed simp

lemma powerSum_take_Suc:
  "k < length vs \<Longrightarrow> powerSum (take (Suc k) vs) = powerSum (take k vs) + unat (vPower (vs ! k))"
  by (simp add: take_Suc_conv_app_nth)

lemma ProposerIndex_interval:
  fixes h r :: u64
  assumes "wf_vs vs"
  defines "slot \<equiv> unat ((h + r) mod vsTotalPower vs)"
  defines "k \<equiv> ProposerIndex vs h r"
  shows "k < length (vsValidators vs)" "powerSum (take k (vsValidators vs)) \<le> slot"
    "slot < powerSum (take (Suc k) (vsValidators vs))"
proof -
  have tot: "unat (vsTotalPower vs) = powerSum (vsValidators vs)" "vsTotalPower vs \<noteq> 0"
    using assms(1) by (auto simp: wf_vs_def neq_Nil_conv unat_eq_zero)
  have "slot < powerSum (vsValidators vs)"
    using tot by (simp add: slot_def unat_mod_distrib unat_gt_0 flip: tot(1))
  then have "\<exists>j<length (vsValidators vs).
      proposerScan (vsValidators vs) 0 0 ((h + r) mod vsTotalPower vs) = Some (0 + j) \<and>
      unat (0::u64) + powerSum (take j (vsValidators vs)) \<le> slot \<and>
      slot < unat (0::u64) + powerSum (take (Suc j) (vsValidators vs))"
    unfolding slot_def using tot unat_u64_bound [of "vsTotalPower vs"]
    by (intro proposerScan_interval) simp_all
  then show "k < length (vsValidators vs)" "powerSum (take k (vsValidators vs)) \<le> slot"
    "slot < powerSum (take (Suc k) (vsValidators vs))"
    using tot(2) by (auto simp: k_def ProposerIndex_def)
qed

lemma ProposerIndex_iff:
  assumes "wf_vs vs" "k < length (vsValidators vs)"
  shows "ProposerIndex vs h r = k \<longleftrightarrow>
    unat ((h + r) mod vsTotalPower vs) \<in>
      {powerSum (take k (vsValidators vs))..<powerSum (take (Suc k) (vsValidators vs))}"
proof
  assume "ProposerIndex vs h r = k"
  then show "unat ((h + r) mod vsTotalPower vs) \<in>
      {powerSum (take k (vsValidators vs))..<powerSum (take (Suc k) (vsValidators vs))}"
    using ProposerIndex_interval [OF assms(1), of h r] by auto
next
  assume in_k: "unat ((h + r) mod vsTotalPower vs) \<in>
      {powerSum (take k (vsValidators vs))..<powerSum (take (Suc k) (vsValidators vs))}"
  note p = ProposerIndex_interval [OF assms(1), of h r]
  show "ProposerIndex vs h r = k"
  proof (cases "ProposerIndex vs h r" k rule: linorder_cases)
    case less
    then show ?thesis
      using powerSum_take_mono [of "Suc (ProposerIndex vs h r)" k "vsValidators vs"] p in_k by simp
  next
    case greater
    then show ?thesis
      using powerSum_take_mono [of "Suc k" "ProposerIndex vs h r" "vsValidators vs"] p in_k by simp
  qed
qed

text \<open>C8: over any window of \<^verbatim>\<open>TotalPower\<close> consecutive rounds of a height whose slots do not
  leave 64 bits, every validator of the set is the proposer exactly as often as its power.\<close>

theorem proposer_exact_share:
  assumes "wf_vs vs" "k < length (vsValidators vs)"
    "unat h + unat (vsTotalPower vs) \<le> 2 ^ 64"
  shows "card {r. r < unat (vsTotalPower vs) \<and> ProposerIndex vs h (of_nat r) = k} =
    unat (vPower (vsValidators vs ! k))"
proof -
  let ?T = "unat (vsTotalPower vs)"
  let ?A = "{powerSum (take k (vsValidators vs))..<powerSum (take (Suc k) (vsValidators vs))}"
  have T: "?T = powerSum (vsValidators vs)" using assms(1) by (simp add: wf_vs_def)
  have "powerSum (take (Suc k) (vsValidators vs)) \<le> powerSum (vsValidators vs)"
    using powerSum_take_mono [of "Suc k" "length (vsValidators vs)" "vsValidators vs"] assms(2) by simp
  then have sub: "?A \<subseteq> {..<?T}" using T by auto
  have slot: "unat ((h + of_nat r) mod vsTotalPower vs) = (unat h + r) mod ?T" if "r < ?T" for r
    using that assms(3) by (simp add: unat_mod_distrib unat_plus_exact unat_of_nat_u64)
  have "{r. r < ?T \<and> ProposerIndex vs h (of_nat r) = k} =
      {r \<in> {..<?T}. (unat h + r) mod ?T \<in> ?A}"
    using slot ProposerIndex_iff [OF assms(1,2)] by auto
  then show ?thesis
    using card_preimage_bij [OF bij_betw_shift_mod sub, of "unat h"] assms(2)
    by (simp add: powerSum_take_Suc)
qed

theorem proposer_exact_share_witness:
  "card {r. r < 10 \<and> ProposerIndex exSet 7 (of_nat r) = 0} = 4"
  using proposer_exact_share [of exSet 0 7] by (simp add: exSet_fields exVals_def)

end
