(* ===== verification/Messages.thy ===== *)
theory Messages
  imports Bytes ValidatorSet
begin

text \<open>
  Headers and blocks (\<^verbatim>\<open>src/core/types/header.go\<close>, \<^verbatim>\<open>block.go\<close>) and the signed consensus
  messages with their digests, signing and verification
  (\<^verbatim>\<open>src/consensus/messages.go\<close>).

  Keccak, secp256k1 and RLP come from go-ethereum.  They are the fields of the
  record \<^verbatim>\<open>cryptoLib\<close>, an argument of every definition that calls them; \<^verbatim>\<open>rlp\<close> is
  the tree of values the code hands to the RLP encoder.
\<close>


section \<open>Third-party primitives\<close>

datatype rlp =
    RString string
  | RBytes "byte list"
  | RUint nat
  | RBig "int option"
  | RList "rlp list"

record 'key cryptoLib =
  keccak :: "byte list \<Rightarrow> byte list"
  rlpEncode :: "rlp \<Rightarrow> byte list"
  ecSign :: "byte list \<Rightarrow> 'key \<Rightarrow> byte list option"
  ecRecover :: "byte list \<Rightarrow> byte list \<Rightarrow> byte list option"
  pubkeyAddress :: "'key \<Rightarrow> address"

definition Keccak256Hash :: "('key, 'z) cryptoLib_scheme \<Rightarrow> byte list \<Rightarrow> hash" where
  "Keccak256Hash c b = BytesToHash (keccak c b)"


section \<open>Headers and blocks\<close>

record Header =
  hdParentHash :: hash
  hdStateRoot :: hash
  hdTxRoot :: hash
  hdReceiptRoot :: hash
  hdNumber :: u64
  hdTimestamp :: u64
  hdGasLimit :: u64
  hdGasUsed :: u64
  hdBaseFee :: "int option"
  hdExtraData :: "byte list"
  hdProposer :: address

record 'tx Block =
  bHeader :: Header
  bTransactions :: "'tx list"

definition headerRLP :: "Header \<Rightarrow> rlp" where
  "headerRLP h = RList [
     RBytes (hashBytes (hdParentHash h)),
     RBytes (hashBytes (hdStateRoot h)),
     RBytes (hashBytes (hdTxRoot h)),
     RBytes (hashBytes (hdReceiptRoot h)),
     RUint (unat (hdNumber h)),
     RUint (unat (hdTimestamp h)),
     RUint (unat (hdGasLimit h)),
     RUint (unat (hdGasUsed h)),
     RBig (hdBaseFee h),
     RBytes (hdExtraData h),
     RBytes (addrBytes (hdProposer h))]"

definition headerHash :: "('key, 'z) cryptoLib_scheme \<Rightarrow> Header \<Rightarrow> hash" where
  "headerHash c h = Keccak256Hash c (rlpEncode c (headerRLP h))"

definition blockHash :: "('key, 'z) cryptoLib_scheme \<Rightarrow> 'tx Block \<Rightarrow> hash" where
  "blockHash c b = headerHash c (bHeader b)"


section \<open>Votes and proposals\<close>

type_synonym VoteType = byte

definition VotePrevote :: VoteType where "VotePrevote = 1"

definition VotePrecommit :: VoteType where "VotePrecommit = 2"

record 'tx Proposal =
  pHeight :: u64
  pRound :: u64
  pBlockHash :: hash
  pBlock :: "'tx Block option"
  pProposer :: address
  pSignature :: "byte list"

record Vote =
  vtType :: VoteType
  vtHeight :: u64
  vtRound :: u64
  vtBlockHash :: hash
  vtValidator :: address
  vtSignature :: "byte list"

definition voteIsNil :: "Vote \<Rightarrow> bool" where
  "voteIsNil v \<longleftrightarrow> vtBlockHash v = 0"

definition proposalDomain :: string where "proposalDomain = ''Dew/Proposal/1''"

definition voteDomain :: string where "voteDomain = ''Dew/Vote/1''"

definition ProposalSignBytes :: "('key, 'z) cryptoLib_scheme \<Rightarrow> u64 \<Rightarrow> u64 \<Rightarrow> hash \<Rightarrow> byte list" where
  "ProposalSignBytes c height rnd bh =
     keccak c (rlpEncode c (RList [RString proposalDomain, RUint (unat height), RUint (unat rnd),
       RBytes (hashBytes bh)]))"

definition VoteSignBytes :: "('key, 'z) cryptoLib_scheme \<Rightarrow> VoteType \<Rightarrow> u64 \<Rightarrow> u64 \<Rightarrow> hash \<Rightarrow> byte list" where
  "VoteSignBytes c typ height rnd bh =
     keccak c (rlpEncode c (RList [RString voteDomain, RUint (unat typ), RUint (unat height),
       RUint (unat rnd), RBytes (hashBytes bh)]))"

datatype consError =
    SignFailed
  | BadProposalSignatureLength
  | ProposalEcrecover
  | ProposalProposerMismatch
  | InvalidVoteType
  | BadVoteSignatureLength
  | VoteEcrecover
  | VoteValidatorMismatch
  | WireLength
  | EvidenceVoteA consError
  | EvidenceVoteB consError
  | EvidenceTypeMismatch
  | EvidenceHeightRoundMismatch
  | EvidenceValidatorMismatch
  | EvidenceSameHash
  | EvidenceBothNil
  | ProposalBlockHashMismatch
  | ProposalFromNonProposer
  | VoteFromNonValidator
  | BuildFailed
  | NilProposalBlock
  | CommitWithoutProposal
  | SyncHeightMismatch
  | SyncParentMismatch
  | EmptyReplacementSet
  | LocalNotInSet

definition SignProposal :: "('key, 'z) cryptoLib_scheme \<Rightarrow> 'tx Proposal \<Rightarrow> 'key \<Rightarrow> consError + 'tx Proposal" where
  "SignProposal c p key =
    (case ecSign c (ProposalSignBytes c (pHeight p) (pRound p) (pBlockHash p)) key of
       None \<Rightarrow> Inl SignFailed
     | Some sig \<Rightarrow> Inr (p\<lparr>pSignature := sig, pProposer := pubkeyAddress c key\<rparr>))"

definition SignVote :: "('key, 'z) cryptoLib_scheme \<Rightarrow> Vote \<Rightarrow> 'key \<Rightarrow> consError + Vote" where
  "SignVote c v key =
    (case ecSign c (VoteSignBytes c (vtType v) (vtHeight v) (vtRound v) (vtBlockHash v)) key of
       None \<Rightarrow> Inl SignFailed
     | Some sig \<Rightarrow> Inr (v\<lparr>vtSignature := sig, vtValidator := pubkeyAddress c key\<rparr>))"

definition pubkeyBytesToAddress :: "('key, 'z) cryptoLib_scheme \<Rightarrow> byte list \<Rightarrow> address" where
  "pubkeyBytesToAddress c pub =
    (if length pub = 65 then bytesAddr (take 20 (drop 12 (keccak c (tl pub))))
     else if length pub \<ge> 20 then bytesAddr (drop (length pub - 20) pub)
     else 0)"

definition VerifyProposal :: "('key, 'z) cryptoLib_scheme \<Rightarrow> 'tx Proposal \<Rightarrow> consError option" where
  "VerifyProposal c p =
    (if length (pSignature p) \<noteq> 65 then Some BadProposalSignatureLength
     else case ecRecover c (ProposalSignBytes c (pHeight p) (pRound p) (pBlockHash p)) (pSignature p) of
       None \<Rightarrow> Some ProposalEcrecover
     | Some pub \<Rightarrow>
         if pubkeyBytesToAddress c pub \<noteq> pProposer p then Some ProposalProposerMismatch else None)"

definition VerifyVote :: "('key, 'z) cryptoLib_scheme \<Rightarrow> Vote \<Rightarrow> consError option" where
  "VerifyVote c v =
    (if vtType v \<noteq> VotePrevote \<and> vtType v \<noteq> VotePrecommit then Some InvalidVoteType
     else if length (vtSignature v) \<noteq> 65 then Some BadVoteSignatureLength
     else case ecRecover c (VoteSignBytes c (vtType v) (vtHeight v) (vtRound v) (vtBlockHash v)) (vtSignature v) of
       None \<Rightarrow> Some VoteEcrecover
     | Some pub \<Rightarrow>
         if pubkeyBytesToAddress c pub \<noteq> vtValidator v then Some VoteValidatorMismatch else None)"

lemma vote_types_distinct [simp]:
  "VotePrevote \<noteq> VotePrecommit" "VotePrecommit \<noteq> VotePrevote"
  by (simp_all add: VotePrevote_def VotePrecommit_def)

lemma VerifyVote_None_iff:
  "VerifyVote c v = None \<longleftrightarrow>
    (vtType v = VotePrevote \<or> vtType v = VotePrecommit) \<and> length (vtSignature v) = 65 \<and>
    (\<exists>pub. ecRecover c (VoteSignBytes c (vtType v) (vtHeight v) (vtRound v) (vtBlockHash v))
        (vtSignature v) = Some pub \<and> pubkeyBytesToAddress c pub = vtValidator v)"
  by (auto simp: VerifyVote_def split: option.splits)

text \<open>Documented behaviour of the signature scheme: a signature made with a key is 65 bytes and
  recovers to the public key whose address is the key's.\<close>

definition signatures_recover :: "('key, 'z) cryptoLib_scheme \<Rightarrow> bool" where
  "signatures_recover c \<longleftrightarrow> (\<forall>digest key sig. ecSign c digest key = Some sig \<longrightarrow>
     length sig = 65 \<and>
     (\<exists>pub. ecRecover c digest sig = Some pub \<and> pubkeyBytesToAddress c pub = pubkeyAddress c key))"

lemma SignVote_fields:
  assumes "SignVote c v key = Inr v'"
  shows "vtType v' = vtType v" "vtHeight v' = vtHeight v" "vtRound v' = vtRound v"
    "vtBlockHash v' = vtBlockHash v" "vtValidator v' = pubkeyAddress c key"
  using assms by (auto simp: SignVote_def split: option.splits)

lemma SignVote_verifies:
  assumes "signatures_recover c" "SignVote c v key = Inr v'"
    "vtType v = VotePrevote \<or> vtType v = VotePrecommit"
  shows "VerifyVote c v' = None"
  using assms by (auto simp: SignVote_def signatures_recover_def VerifyVote_None_iff split: option.splits)

end
