(* ===== verification/VoteSet.thy ===== *)
theory VoteSet
  imports Messages
begin

text \<open>
  The vote accumulator of \<^verbatim>\<open>src/consensus/state.go\<close>: one vote per validator and
  slot, power per block hash, and the search for a hash with a quorum.

  The two Go maps are association lists; the order of \<^verbatim>\<open>vsetPower\<close> is one
  iteration order of the map, and \<^verbatim>\<open>majorityHash_order\<close> shows that the result
  does not depend on it.
\<close>


section \<open>Data and operations\<close>

datatype Step = StepNewRound | StepPropose | StepPrevote | StepPrecommit | StepCommit

record voteSet =
  vsetTyp :: VoteType
  vsetHeight :: u64
  vsetRound :: u64
  vsetByAddr :: "(address \<times> Vote) list"
  vsetPower :: "(hash \<times> u64) list"
  vsetTotalSeen :: u64

definition newVoteSet :: "VoteType \<Rightarrow> u64 \<Rightarrow> u64 \<Rightarrow> voteSet" where
  "newVoteSet typ height rnd =
    \<lparr>vsetTyp = typ, vsetHeight = height, vsetRound = rnd, vsetByAddr = [], vsetPower = [],
     vsetTotalSeen = 0\<rparr>"

text \<open>\<^verbatim>\<open>power[hash] += p\<close> on the map of powers.\<close>

fun bumpPower :: "hash \<Rightarrow> u64 \<Rightarrow> (hash \<times> u64) list \<Rightarrow> (hash \<times> u64) list" where
  "bumpPower h p [] = [(h, p)]"
| "bumpPower h p ((k, q) # kvs) = (if k = h then (k, q + p) # kvs else (k, q) # bumpPower h p kvs)"

definition powerFor :: "voteSet \<Rightarrow> hash \<Rightarrow> u64" where
  "powerFor vs h = (case map_of (vsetPower vs) h of None \<Rightarrow> 0 | Some p \<Rightarrow> p)"

definition vsetAdd :: "voteSet \<Rightarrow> Vote \<Rightarrow> u64 \<Rightarrow> voteSet \<times> bool" where
  "vsetAdd vs v pw =
    (if vtType v \<noteq> vsetTyp vs \<or> vtHeight v \<noteq> vsetHeight vs \<or> vtRound v \<noteq> vsetRound vs then (vs, False)
     else if map_of (vsetByAddr vs) (vtValidator v) \<noteq> None then (vs, False)
     else (vs\<lparr>vsetByAddr := vsetByAddr vs @ [(vtValidator v, v)],
              vsetPower := bumpPower (vtBlockHash v) pw (vsetPower vs),
              vsetTotalSeen := vsetTotalSeen vs + pw\<rparr>, True))"

text \<open>The loop of \<^verbatim>\<open>majorityHash\<close> over the entries in the given order.\<close>

fun majorityIn :: "(hash \<times> u64) list \<Rightarrow> u64 \<Rightarrow> hash option" where
  "majorityIn [] tot = None"
| "majorityIn ((h, p) # kvs) tot = (if HasQuorum p tot then Some h else majorityIn kvs tot)"

definition majorityHash :: "voteSet \<Rightarrow> u64 \<Rightarrow> hash option" where
  "majorityHash vs tot = majorityIn (vsetPower vs) tot"

definition votesFor :: "voteSet \<Rightarrow> hash \<Rightarrow> Vote list" where
  "votesFor vs h = filter (\<lambda>v. vtBlockHash v = h) (map snd (vsetByAddr vs))"


section \<open>Invariant\<close>

definition votersFor :: "voteSet \<Rightarrow> hash \<Rightarrow> address list" where
  "votersFor vs h = map fst (filter (\<lambda>(a, v). vtBlockHash v = h) (vsetByAddr vs))"

definition wf_votes :: "ValidatorSet \<Rightarrow> voteSet \<Rightarrow> bool" where
  "wf_votes V vs \<longleftrightarrow>
     distinct (map fst (vsetByAddr vs)) \<and>
     (\<forall>(a, v)\<in>set (vsetByAddr vs). a \<in> members V \<and> vtValidator v = a \<and> vtType v = vsetTyp vs \<and>
        vtHeight v = vsetHeight vs \<and> vtRound v = vsetRound vs) \<and>
     distinct (map fst (vsetPower vs)) \<and>
     (\<forall>h. unat (powerFor vs h) = (\<Sum>a\<leftarrow>votersFor vs h. memberPower V a)) \<and>
     unat (vsetTotalSeen vs) = (\<Sum>a\<leftarrow>map fst (vsetByAddr vs). memberPower V a)"

lemma wf_votes_new [simp]: "wf_votes V (newVoteSet typ height rnd)"
  by (simp add: wf_votes_def newVoteSet_def powerFor_def votersFor_def)

lemma map_of_bumpPower:
  "map_of (bumpPower h p kvs) k =
    (if k = h then Some ((case map_of kvs h of None \<Rightarrow> 0 | Some q \<Rightarrow> q) + p) else map_of kvs k)"
  by (induction h p kvs rule: bumpPower.induct) auto

lemma fst_bumpPower:
  "fst ` set (bumpPower h p kvs) = insert h (fst ` set kvs)"
  by (induction h p kvs rule: bumpPower.induct) auto

lemma distinct_bumpPower:
  "distinct (map fst kvs) \<Longrightarrow> distinct (map fst (bumpPower h p kvs))"
  by (induction h p kvs rule: bumpPower.induct) (auto simp: fst_bumpPower)

lemma members_sum_le_total:
  assumes "wf_vs V" "distinct as" "set as \<subseteq> members V"
  shows "(\<Sum>a\<leftarrow>as. memberPower V a) \<le> unat (vsTotalPower V)"
proof -
  have "(\<Sum>a\<leftarrow>as. memberPower V a) = (\<Sum>a\<in>set as. memberPower V a)"
    using assms(2) by (simp add: sum_list_distinct_conv_sum_set)
  also have "\<dots> \<le> (\<Sum>a\<in>members V. memberPower V a)"
    using assms(3) by (intro sum_mono2) simp_all
  finally show ?thesis using sum_PowerOf_members [OF assms(1)] by (simp add: memberPower_def)
qed

lemma members_sum_less:
  "wf_vs V \<Longrightarrow> distinct as \<Longrightarrow> set as \<subseteq> members V \<Longrightarrow> (\<Sum>a\<leftarrow>as. memberPower V a) < 2 ^ 64"
  using le_less_trans [OF members_sum_le_total unat_u64_bound] by simp

text \<open>Powers never wrap: they are sums over distinct members of a set whose total fits.\<close>

lemma wf_votes_sums:
  assumes "wf_vs V" "wf_votes V vs"
  shows "(\<Sum>a\<leftarrow>map fst (vsetByAddr vs). memberPower V a) \<le> unat (vsTotalPower V)"
    and "distinct (votersFor vs h)" "set (votersFor vs h) \<subseteq> members V"
proof -
  have d: "distinct (map fst (vsetByAddr vs))" using assms(2) by (simp add: wf_votes_def)
  have m: "set (map fst (vsetByAddr vs)) \<subseteq> members V"
    using assms(2) by (auto simp: wf_votes_def)
  show "(\<Sum>a\<leftarrow>map fst (vsetByAddr vs). memberPower V a) \<le> unat (vsTotalPower V)"
    by (rule members_sum_le_total [OF assms(1) d m])
  show "distinct (votersFor vs h)" unfolding votersFor_def by (rule distinct_map_filter [OF d])
  show "set (votersFor vs h) \<subseteq> members V" using m by (auto simp: votersFor_def)
qed

lemma wf_votes_add:
  assumes V: "wf_vs V" and wf: "wf_votes V vs" and mem: "vtValidator v \<in> members V"
  shows "wf_votes V (fst (vsetAdd vs v (PowerOf V (vtValidator v))))"
proof (cases "snd (vsetAdd vs v (PowerOf V (vtValidator v)))")
  case False
  then show ?thesis using wf by (auto simp: vsetAdd_def split: if_splits)
next
  case True
  let ?p = "PowerOf V (vtValidator v)" and ?a = "vtValidator v"
  have slot: "vtType v = vsetTyp vs" "vtHeight v = vsetHeight vs" "vtRound v = vsetRound vs"
    and new: "?a \<notin> fst ` set (vsetByAddr vs)"
    using True by (auto simp: vsetAdd_def map_of_eq_None_iff split: if_splits)
  define vs' where "vs' = fst (vsetAdd vs v ?p)"
  have by': "vsetByAddr vs' = vsetByAddr vs @ [(?a, v)]"
    and pw': "vsetPower vs' = bumpPower (vtBlockHash v) ?p (vsetPower vs)"
    and ts': "vsetTotalSeen vs' = vsetTotalSeen vs + ?p"
    and same: "vsetTyp vs' = vsetTyp vs" "vsetHeight vs' = vsetHeight vs" "vsetRound vs' = vsetRound vs"
    using True by (auto simp: vs'_def vsetAdd_def split: if_splits)
  have dist: "distinct (map fst (vsetByAddr vs'))"
    using wf new by (simp add: by' wf_votes_def)
  have memb: "set (map fst (vsetByAddr vs')) \<subseteq> members V"
    using wf mem by (auto simp: by' wf_votes_def)
  have all: "(\<Sum>a\<leftarrow>map fst (vsetByAddr vs'). memberPower V a) < 2 ^ 64"
    by (rule members_sum_less [OF V dist memb])
  have voters: "votersFor vs' h = votersFor vs h @ (if h = vtBlockHash v then [?a] else [])" for h
    by (simp add: votersFor_def by')
  have pow: "unat (powerFor vs' h) = (\<Sum>a\<leftarrow>votersFor vs' h. memberPower V a)" for h
  proof (cases "h = vtBlockHash v")
    case True
    have dv: "distinct (votersFor vs' h)" "set (votersFor vs' h) \<subseteq> members V"
      unfolding votersFor_def using distinct_map_filter [OF dist] memb by auto
    have "(\<Sum>a\<leftarrow>votersFor vs' h. memberPower V a) < 2 ^ 64"
      by (rule members_sum_less [OF V dv])
    then have "unat (powerFor vs h) + unat ?p < 2 ^ 64"
      using wf True by (simp add: voters wf_votes_def memberPower_def)
    moreover have "powerFor vs' h = powerFor vs h + ?p"
      using True by (simp add: powerFor_def pw' map_of_bumpPower)
    ultimately show ?thesis
      using wf True by (simp add: unat_plus_exact voters wf_votes_def memberPower_def)
  next
    case False
    then show ?thesis using wf by (simp add: powerFor_def pw' map_of_bumpPower voters wf_votes_def)
  qed
  have "unat (vsetTotalSeen vs') = (\<Sum>a\<leftarrow>map fst (vsetByAddr vs'). memberPower V a)"
    using wf all by (simp add: ts' by' wf_votes_def memberPower_def unat_plus_exact)
  then have "wf_votes V vs'"
    using wf dist memb pow slot mem
    unfolding wf_votes_def by (auto simp: same by' pw' distinct_bumpPower)
  then show ?thesis by (simp add: vs'_def)
qed


section \<open>The majority hash\<close>

lemma majorityIn_SomeD: "majorityIn kvs tot = Some h \<Longrightarrow> \<exists>p. (h, p) \<in> set kvs \<and> HasQuorum p tot"
  by (induction kvs tot rule: majorityIn.induct) (auto split: if_splits)

lemma majorityIn_NoneD: "majorityIn kvs tot = None \<Longrightarrow> (h, p) \<in> set kvs \<Longrightarrow> \<not> HasQuorum p tot"
  by (induction kvs tot rule: majorityIn.induct) (auto split: if_splits)

lemma HasQuorum_zero [simp]: "\<not> HasQuorum 0 tot"
  by (simp add: HasQuorum_def)

lemma powerFor_entry:
  assumes "wf_votes V vs" "(h, p) \<in> set (vsetPower vs)"
  shows "powerFor vs h = p"
  using assms by (simp add: powerFor_def wf_votes_def)

lemma powerFor_quorum_entry:
  assumes "HasQuorum (powerFor vs h) tot"
  shows "(h, powerFor vs h) \<in> set (vsetPower vs)"
  using assms by (auto simp: powerFor_def dest: map_of_SomeD split: option.splits)

lemma votersFor_disjoint:
  assumes "wf_votes V vs" "h \<noteq> h'"
  shows "set (votersFor vs h) \<inter> set (votersFor vs h') = {}"
proof -
  have "distinct (map fst (vsetByAddr vs))" using assms(1) by (simp add: wf_votes_def)
  then show ?thesis
    using assms(2) by (auto simp: votersFor_def dest: eq_key_imp_eq_value)
qed

lemma powerFor_sum:
  assumes "wf_vs V" "wf_votes V vs"
  shows "unat (powerFor vs h) = (\<Sum>a\<in>set (votersFor vs h). memberPower V a)"
  using assms wf_votes_sums(2) [OF assms, of h]
  by (simp add: wf_votes_def sum_list_distinct_conv_sum_set)

lemma powerFor_quorum:
  assumes "quorum_safe V" "wf_votes V vs"
  shows "HasQuorum (powerFor vs h) (vsTotalPower V) \<longleftrightarrow>
    vsHasQuorum V (of_nat (\<Sum>a\<in>set (votersFor vs h). memberPower V a))"
proof -
  have "wf_vs V" using assms(1) by (simp add: quorum_safe_def)
  note e = powerFor_sum [OF this assms(2), of h]
  have "of_nat (\<Sum>a\<in>set (votersFor vs h). memberPower V a) = powerFor vs h"
    unfolding e [symmetric] by simp
  then show ?thesis by (simp only: vsHasQuorum_def)
qed

lemma majority_unique:
  assumes "quorum_safe V" "wf_votes V vs"
    "HasQuorum (powerFor vs h) (vsTotalPower V)" "HasQuorum (powerFor vs h') (vsTotalPower V)"
  shows "h = h'"
proof (rule ccontr)
  assume "h \<noteq> h'"
  then have "set (votersFor vs h) \<inter> set (votersFor vs h') = {}"
    by (rule votersFor_disjoint [OF assms(2)])
  moreover have "wf_vs V" using assms(1) by (simp add: quorum_safe_def)
  note mem = wf_votes_sums(3) [OF this assms(2)]
  ultimately show False
    using vq.quorum_overlap [OF assms(1) mem mem, of h h']
      assms(3,4)[unfolded powerFor_quorum [OF assms(1,2)]] by simp
qed

lemma majorityIn_iff:
  assumes "quorum_safe V" "wf_votes V vs" "set order = set (vsetPower vs)"
  shows "majorityIn order (vsTotalPower V) = Some h \<longleftrightarrow> HasQuorum (powerFor vs h) (vsTotalPower V)"
proof
  assume "majorityIn order (vsTotalPower V) = Some h"
  then show "HasQuorum (powerFor vs h) (vsTotalPower V)"
    using majorityIn_SomeD assms(2,3) by (fastforce simp: powerFor_entry)
next
  assume q: "HasQuorum (powerFor vs h) (vsTotalPower V)"
  then have "majorityIn order (vsTotalPower V) \<noteq> None"
    using majorityIn_NoneD [of order _ h "powerFor vs h"] powerFor_quorum_entry [OF q] assms(3) by auto
  then obtain h' where h': "majorityIn order (vsTotalPower V) = Some h'" by blast
  then have "HasQuorum (powerFor vs h') (vsTotalPower V)"
    using majorityIn_SomeD assms(2,3) by (fastforce simp: powerFor_entry)
  with q h' show "majorityIn order (vsTotalPower V) = Some h"
    using majority_unique [OF assms(1,2)] by blast
qed

lemma majorityHash_iff:
  assumes "quorum_safe V" "wf_votes V vs"
  shows "majorityHash vs (vsTotalPower V) = Some h \<longleftrightarrow> HasQuorum (powerFor vs h) (vsTotalPower V)"
  unfolding majorityHash_def by (rule majorityIn_iff [OF assms refl])

text \<open>C5: for a validator set whose tripled total power fits 64 bits, and whatever order the map of
  powers is iterated in, the search for a majority returns exactly the hash whose distinct voters hold
  more than two thirds of the total power, and returns no hash when there is none.\<close>

theorem majorityHash_order:
  assumes "quorum_safe V" "wf_votes V vs" "mset order = mset (vsetPower vs)"
  shows "majorityIn order (vsTotalPower V) = Some h \<longleftrightarrow>
    2 * unat (vsTotalPower V) < 3 * (\<Sum>a\<in>set (votersFor vs h). memberPower V a)"
proof -
  have V: "wf_vs V" and fit: "3 * unat (vsTotalPower V) < 2 ^ 64"
    using assms(1) by (simp_all add: quorum_safe_def)
  have "unat (powerFor vs h) \<le> unat (vsTotalPower V)"
    using members_sum_le_total [OF V wf_votes_sums(2,3) [OF V assms(2)]]
      wf_votes_sums(2) [OF V assms(2)] powerFor_sum [OF V assms(2), of h]
    by (simp add: sum_list_distinct_conv_sum_set)
  then show ?thesis
    using majorityIn_iff [OF assms(1,2)] mset_eq_setD [OF assms(3)]
    by (simp add: HasQuorum_exact [OF fit] powerFor_sum [OF V assms(2)])
qed

definition exVotes :: voteSet where
  "exVotes = (let v = \<lambda>a h. \<lparr>vtType = VotePrevote, vtHeight = 5, vtRound = 0, vtBlockHash = h,
       vtValidator = a, vtSignature = []\<rparr>;
     add = \<lambda>s x. fst (vsetAdd s x (PowerOf exSet (vtValidator x))) in
     add (add (add (newVoteSet VotePrevote 5 0) (v 11 77)) (v 12 0)) (v 13 77))"

lemma exVotes_wf: "wf_votes exSet exVotes"
  unfolding exVotes_def Let_def
  by (intro wf_votes_add wf_votes_new exSet_wf) (simp_all add: exSet_fields exVals_def)

lemma exVotes_fields:
  "vsetPower exVotes = [(77, 7), (0, 3)]" "votersFor exVotes 77 = [11, 13]"
  by (simp_all add: exVotes_def Let_def vsetAdd_def newVoteSet_def votersFor_def PowerOf_def vsGet_def
      exSet_def exVals_def)

theorem majorityHash_order_witness:
  "majorityIn [(0, 3), (77, 7)] 10 = Some 77 \<and>
   2 * (10::nat) < 3 * (\<Sum>a\<in>set (votersFor exVotes 77). memberPower exSet a)"
  using majorityHash_order [OF exSet_safe exVotes_wf, of "[(0, 3), (77, 7)]" 77]
  by (simp add: exVotes_fields exSet_fields)

end
