(* ===== verification/Evidence.thy ===== *)
theory Evidence
  imports VoteSet
begin

text \<open>
  Double-sign evidence (\<^verbatim>\<open>src/consensus/evidence.go\<close>): the fixed 114-byte wire form of
  a vote with the validator recovered from the signature, the equivocation
  check and the evidence digest.
\<close>


section \<open>Operations\<close>

definition VoteWireSize :: nat where "VoteWireSize = 1 + 8 + 8 + 32 + 65"

definition EncodeVoteWire :: "Vote \<Rightarrow> consError + byte list" where
  "EncodeVoteWire v =
    (if length (vtSignature v) \<noteq> 65 then Inl BadVoteSignatureLength
     else Inr ([vtType v] @ putU64 (vtHeight v) @ putU64 (vtRound v) @ hashBytes (vtBlockHash v) @
       vtSignature v))"

definition DecodeVoteWire :: "('key, 'z) cryptoLib_scheme \<Rightarrow> byte list \<Rightarrow> consError + Vote" where
  "DecodeVoteWire c b =
    (if length b \<noteq> VoteWireSize then Inl WireLength
     else let typ = b ! 0;
              height = getU64 (take 8 (drop 1 b));
              rnd = getU64 (take 8 (drop 9 b));
              bh = BytesToHash (take 32 (drop 17 b));
              sig = take 65 (drop 49 b) in
       case ecRecover c (VoteSignBytes c typ height rnd bh) sig of
         None \<Rightarrow> Inl VoteEcrecover
       | Some pub \<Rightarrow> Inr \<lparr>vtType = typ, vtHeight = height, vtRound = rnd, vtBlockHash = bh,
           vtValidator = pubkeyBytesToAddress c pub, vtSignature = sig\<rparr>)"

record DoubleSignEvidence =
  evVoteA :: Vote
  evVoteB :: Vote

definition EncodeDoubleSignEvidenceWire :: "Vote \<Rightarrow> Vote \<Rightarrow> consError + byte list" where
  "EncodeDoubleSignEvidenceWire a b =
    (case EncodeVoteWire a of
       Inl e \<Rightarrow> Inl e
     | Inr wa \<Rightarrow> (case EncodeVoteWire b of Inl e \<Rightarrow> Inl e | Inr wb \<Rightarrow> Inr (wa @ wb)))"

definition DecodeDoubleSignEvidenceWire ::
  "('key, 'z) cryptoLib_scheme \<Rightarrow> byte list \<Rightarrow> consError + DoubleSignEvidence" where
  "DecodeDoubleSignEvidenceWire c b =
    (if length b \<noteq> 2 * VoteWireSize then Inl WireLength
     else case DecodeVoteWire c (take VoteWireSize b) of
       Inl e \<Rightarrow> Inl (EvidenceVoteA e)
     | Inr a \<Rightarrow>
         (case DecodeVoteWire c (drop VoteWireSize b) of
            Inl e \<Rightarrow> Inl (EvidenceVoteB e)
          | Inr bb \<Rightarrow> Inr \<lparr>evVoteA = a, evVoteB = bb\<rparr>))"

definition VerifyDoubleSign :: "('key, 'z) cryptoLib_scheme \<Rightarrow> Vote \<Rightarrow> Vote \<Rightarrow> consError option" where
  "VerifyDoubleSign c a b =
    (case VerifyVote c a of
       Some e \<Rightarrow> Some (EvidenceVoteA e)
     | None \<Rightarrow> (case VerifyVote c b of
         Some e \<Rightarrow> Some (EvidenceVoteB e)
       | None \<Rightarrow>
           if vtType a \<noteq> vtType b then Some EvidenceTypeMismatch
           else if vtType a \<noteq> VotePrevote \<and> vtType a \<noteq> VotePrecommit then Some InvalidVoteType
           else if vtHeight a \<noteq> vtHeight b \<or> vtRound a \<noteq> vtRound b then Some EvidenceHeightRoundMismatch
           else if vtValidator a \<noteq> vtValidator b then Some EvidenceValidatorMismatch
           else if vtBlockHash a = vtBlockHash b then Some EvidenceSameHash
           else if vtBlockHash a = 0 \<and> vtBlockHash b = 0 then Some EvidenceBothNil
           else None))"

definition Offender :: "DoubleSignEvidence \<Rightarrow> address" where
  "Offender e = vtValidator (evVoteA e)"

text \<open>Go's \<^verbatim>\<open><\<close> on byte strings.\<close>

fun bytesLess :: "byte list \<Rightarrow> byte list \<Rightarrow> bool" where
  "bytesLess [] [] = False"
| "bytesLess [] (y # ys) = True"
| "bytesLess (x # xs) [] = False"
| "bytesLess (x # xs) (y # ys) = (x < y \<or> x = y \<and> bytesLess xs ys)"

definition EvidenceDigest :: "('key, 'z) cryptoLib_scheme \<Rightarrow> DoubleSignEvidence \<Rightarrow> hash" where
  "EvidenceDigest c e =
    (let a = evVoteA e; b = evVoteB e;
         da = VoteSignBytes c (vtType a) (vtHeight a) (vtRound a) (vtBlockHash a);
         db = VoteSignBytes c (vtType b) (vtHeight b) (vtRound b) (vtBlockHash b);
         (da', db') = (if bytesLess db da then (db, da) else (da, db)) in
     BytesToHash (keccak c (da' @ db' @ vtSignature a @ vtSignature b)))"


section \<open>Wire round trip\<close>

lemma EncodeVoteWire_length:
  "EncodeVoteWire v = Inr b \<Longrightarrow> length b = VoteWireSize"
  by (auto simp: EncodeVoteWire_def VoteWireSize_def split: if_splits)

lemma DecodeVoteWire_Encode:
  assumes "VerifyVote c v = None"
  shows "\<exists>b. EncodeVoteWire v = Inr b \<and> DecodeVoteWire c b = Inr v"
proof -
  obtain pub where v: "length (vtSignature v) = 65"
    "ecRecover c (VoteSignBytes c (vtType v) (vtHeight v) (vtRound v) (vtBlockHash v)) (vtSignature v) = Some pub"
    "pubkeyBytesToAddress c pub = vtValidator v"
    using assms by (auto simp: VerifyVote_None_iff)
  let ?b = "[vtType v] @ putU64 (vtHeight v) @ putU64 (vtRound v) @ hashBytes (vtBlockHash v) @ vtSignature v"
  have "EncodeVoteWire v = Inr ?b" using v(1) by (simp add: EncodeVoteWire_def)
  moreover have "DecodeVoteWire c ?b = Inr v"
    using v by (simp add: DecodeVoteWire_def VoteWireSize_def Let_def)
  ultimately show ?thesis by blast
qed

lemma EncodeVoteWire_Decode:
  assumes "DecodeVoteWire c b = Inr v"
  shows "EncodeVoteWire v = Inr b"
proof -
  have len: "length b = 114"
    using assms by (auto simp: DecodeVoteWire_def VoteWireSize_def split: if_splits)
  have fields: "vtType v = b ! 0" "vtHeight v = getU64 (take 8 (drop 1 b))"
    "vtRound v = getU64 (take 8 (drop 9 b))" "vtBlockHash v = BytesToHash (take 32 (drop 17 b))"
    "vtSignature v = take 65 (drop 49 b)"
    using assms by (auto simp: DecodeVoteWire_def Let_def split: if_splits option.splits)
  have "b = [b ! 0] @ take 8 (drop 1 b) @ take 8 (drop 9 b) @ take 32 (drop 17 b) @ take 65 (drop 49 b)"
  proof -
    have "b = take 1 b @ drop 1 b" by simp
    also have "take 1 b = [b ! 0]" using len by (cases b) simp_all
    also have "drop 1 b = take 8 (drop 1 b) @ drop 9 b"
      using append_take_drop_id [of 8 "drop 1 b"] by simp
    also have "drop 9 b = take 8 (drop 9 b) @ drop 17 b"
      using append_take_drop_id [of 8 "drop 9 b"] by (simp add: add.commute)
    also have "drop 17 b = take 32 (drop 17 b) @ drop 49 b"
      using append_take_drop_id [of 32 "drop 17 b"] by (simp add: add.commute)
    also have "drop 49 b = take 65 (drop 49 b)" using len by simp
    finally show ?thesis by simp
  qed
  then show ?thesis
    using len fields by (simp add: EncodeVoteWire_def u64c.enc_dec hashc.enc_dec)
qed

text \<open>C9: the 114-byte wire form loses nothing.  A vote that verifies is recovered from its encoding
  with its validator, and every byte string that decodes is the encoding of the decoded vote.\<close>

theorem vote_wire_roundtrip:
  "(VerifyVote c v = None \<longrightarrow> (\<exists>b. EncodeVoteWire v = Inr b \<and> DecodeVoteWire c b = Inr v)) \<and>
   (\<forall>b. DecodeVoteWire c b = Inr v \<longrightarrow> EncodeVoteWire v = Inr b)"
  using DecodeVoteWire_Encode EncodeVoteWire_Decode by blast


section \<open>Equivocation\<close>

lemma VerifyVote_type: "VerifyVote c v = None \<Longrightarrow> vtType v = VotePrevote \<or> vtType v = VotePrecommit"
  by (simp add: VerifyVote_None_iff)

lemma VerifyDoubleSign_None_iff:
  "VerifyDoubleSign c a b = None \<longleftrightarrow>
    VerifyVote c a = None \<and> VerifyVote c b = None \<and> vtType a = vtType b \<and>
    vtHeight a = vtHeight b \<and> vtRound a = vtRound b \<and> vtValidator a = vtValidator b \<and>
    vtBlockHash a \<noteq> vtBlockHash b"
  by (cases "VerifyVote c a"; cases "VerifyVote c b")
    (auto simp: VerifyDoubleSign_def dest: VerifyVote_type)

text \<open>C10: evidence that verifies survives its wire form: it encodes to 228 bytes, decodes to the same
  two votes, names the validator that signed both, and verifies with the votes in either order.\<close>

theorem evidence_wire_roundtrip:
  assumes "VerifyDoubleSign c a b = None"
  shows "\<exists>w. EncodeDoubleSignEvidenceWire a b = Inr w \<and> length w = 228 \<and>
    DecodeDoubleSignEvidenceWire c w = Inr \<lparr>evVoteA = a, evVoteB = b\<rparr> \<and>
    Offender \<lparr>evVoteA = a, evVoteB = b\<rparr> = vtValidator b \<and> VerifyDoubleSign c b a = None"
proof -
  have ab: "VerifyVote c a = None" "VerifyVote c b = None"
    using assms by (simp_all add: VerifyDoubleSign_None_iff)
  obtain wa wb where w: "EncodeVoteWire a = Inr wa" "DecodeVoteWire c wa = Inr a"
    "EncodeVoteWire b = Inr wb" "DecodeVoteWire c wb = Inr b"
    using DecodeVoteWire_Encode [OF ab(1)] DecodeVoteWire_Encode [OF ab(2)] by blast
  have len: "length wa = VoteWireSize" "length wb = VoteWireSize"
    using w EncodeVoteWire_length by blast+
  have "EncodeDoubleSignEvidenceWire a b = Inr (wa @ wb)"
    using w by (simp add: EncodeDoubleSignEvidenceWire_def)
  moreover have "DecodeDoubleSignEvidenceWire c (wa @ wb) = Inr \<lparr>evVoteA = a, evVoteB = b\<rparr>"
    using w len by (simp add: DecodeDoubleSignEvidenceWire_def)
  moreover have "length (wa @ wb) = 228" using len by (simp add: VoteWireSize_def)
  moreover have "VerifyDoubleSign c b a = None" "vtValidator a = vtValidator b"
    using assms by (auto simp: VerifyDoubleSign_None_iff)
  ultimately show ?thesis by (auto simp: Offender_def)
qed


section \<open>A concrete signature scheme\<close>

text \<open>
  An instance of the primitives that satisfies what is assumed of them: the
  digest is the last 32 bytes, a key is its own address, and a signature is the
  address followed by padding and the digest.
\<close>

fun exRlp :: "rlp \<Rightarrow> byte list" where
  "exRlp (RBytes b) = b"
| "exRlp (RList xs) = concat (map exRlp xs)"
| "exRlp _ = []"

definition exCrypto :: "address cryptoLib" where
  "exCrypto = \<lparr>
     keccak = (\<lambda>b. drop (length b) (replicate 32 0 @ b)),
     rlpEncode = exRlp,
     ecSign = (\<lambda>d k. if length d = 32 then Some (addrBytes k @ replicate 13 0 @ d) else None),
     ecRecover = (\<lambda>d sig. if length sig = 65 \<and> drop 33 sig = d then Some (take 20 sig) else None),
     pubkeyAddress = (\<lambda>k. k)\<rparr>"

lemma exCrypto_recover: "signatures_recover exCrypto"
  by (auto simp: signatures_recover_def exCrypto_def pubkeyBytesToAddress_def)

lemma exCrypto_keccak: "keccak exCrypto (xs @ hashBytes h) = hashBytes h"
  by (simp add: exCrypto_def)

lemma exCrypto_VoteSignBytes [simp]: "VoteSignBytes exCrypto typ h r bh = hashBytes bh"
proof -
  have "rlpEncode exCrypto (RList [RString voteDomain, RUint (unat typ), RUint (unat h),
      RUint (unat r), RBytes (hashBytes bh)]) = [] @ hashBytes bh"
    by (simp add: exCrypto_def)
  then show ?thesis unfolding VoteSignBytes_def by (simp only: exCrypto_keccak)
qed

definition exVote :: "VoteType \<Rightarrow> hash \<Rightarrow> address \<Rightarrow> Vote" where
  "exVote typ bh a = \<lparr>vtType = typ, vtHeight = 5, vtRound = 0, vtBlockHash = bh, vtValidator = a,
     vtSignature = addrBytes a @ replicate 13 0 @ hashBytes bh\<rparr>"

lemma exVote_verifies:
  "typ = VotePrevote \<or> typ = VotePrecommit \<Longrightarrow> VerifyVote exCrypto (exVote typ bh a) = None"
  by (auto simp: VerifyVote_None_iff exVote_def)
    (simp_all add: exCrypto_def pubkeyBytesToAddress_def)

lemma exVote_double: "VerifyDoubleSign exCrypto (exVote VotePrecommit 7 a) (exVote VotePrecommit 8 a) = None"
  by (simp add: VerifyDoubleSign_None_iff exVote_verifies) (simp add: exVote_def)

theorem vote_wire_roundtrip_witness:
  "\<exists>b. EncodeVoteWire (exVote VotePrevote 7 11) = Inr b \<and>
       DecodeVoteWire exCrypto b = Inr (exVote VotePrevote 7 11)"
  using vote_wire_roundtrip [of exCrypto "exVote VotePrevote 7 11"]
    exVote_verifies [of VotePrevote 7 11] by simp

theorem evidence_wire_roundtrip_witness:
  "\<exists>w. EncodeDoubleSignEvidenceWire (exVote VotePrecommit 7 11) (exVote VotePrecommit 8 11) = Inr w \<and>
     length w = 228"
  using evidence_wire_roundtrip [OF exVote_double [of 11]] by blast


section \<open>Evidence digest\<close>

lemma exCrypto_EvidenceDigest:
  "EvidenceDigest exCrypto \<lparr>evVoteA = a, evVoteB = exVote typ bh k\<rparr> = bh"
proof -
  have "keccak exCrypto (xs @ ys @ vtSignature a @ addrBytes k @ replicate 13 0 @ hashBytes bh) =
      hashBytes bh" for xs ys
    using exCrypto_keccak [of "xs @ ys @ vtSignature a @ addrBytes k @ replicate 13 0"] by simp
  then show ?thesis by (simp add: EvidenceDigest_def Let_def exVote_def case_prod_beta)
qed

text \<open>The evidence digest is not the same for the two orders of the same pair of votes: the sign
  digests are sorted, the signatures that follow them are not.\<close>

lemma EvidenceDigest_order_sensitive:
  "\<exists>a b. VerifyDoubleSign exCrypto a b = None \<and> VerifyDoubleSign exCrypto b a = None \<and>
     EvidenceDigest exCrypto \<lparr>evVoteA = a, evVoteB = b\<rparr> \<noteq>
     EvidenceDigest exCrypto \<lparr>evVoteA = b, evVoteB = a\<rparr>"
proof -
  let ?a = "exVote VotePrecommit 7 11" and ?b = "exVote VotePrecommit 8 11"
  have "VerifyDoubleSign exCrypto ?a ?b = None" "VerifyDoubleSign exCrypto ?b ?a = None"
    using exVote_double [of 11] by (auto simp: VerifyDoubleSign_None_iff)
  moreover have "EvidenceDigest exCrypto \<lparr>evVoteA = ?a, evVoteB = ?b\<rparr> = 8"
    "EvidenceDigest exCrypto \<lparr>evVoteA = ?b, evVoteB = ?a\<rparr> = 7"
    by (simp_all add: exCrypto_EvidenceDigest)
  ultimately show ?thesis by (intro exI [of _ ?a] exI [of _ ?b]) simp
qed

end
