(* ===== verification/Engine.thy ===== *)
theory Engine
  imports Evidence
begin

text \<open>
  The Dew-BFT state machine of one validator (\<^verbatim>\<open>src/consensus/engine.go\<close>).

  Every method that runs under the engine's mutex is one function on the engine
  record.  \<^verbatim>\<open>StartRound\<close> and \<^verbatim>\<open>enterPrevoteLocked\<close> release the mutex in the middle, to
  build a block and to validate a proposal: each is a \<^emph>\<open>begin\<close> part that returns the
  local variables it captured and an \<^emph>\<open>end\<close> part that takes them back together with
  the outcome of the unlocked work.  Theory EngineSafety interleaves the parts.
\<close>


section \<open>State\<close>

record 'tx CommitEvent =
  ceHeight :: u64
  ceRound :: u64
  ceBlockHash :: hash
  ceBlock :: "'tx Block option"
  cePrecommits :: "Vote list"

record 'tx outbox =
  obProposals :: "'tx Proposal list"
  obVotes :: "Vote list"
  obCommit :: "'tx CommitEvent option"

record ('key, 'tx) Engine =
  eAddress :: address
  eKey :: 'key
  eValSet :: ValidatorSet
  eHeight :: u64
  eRound :: u64
  eStep :: Step
  eParent :: Header
  eProposal :: "'tx Proposal option"
  ePrevotes :: voteSet
  ePrecommits :: voteSet
  eLockedRound :: int
  eLockedHash :: hash
  eProposeRoot :: hash
  eCommitted :: bool
  eLastCommit :: "'tx CommitEvent option"

text \<open>Locals captured by \<^verbatim>\<open>StartRound\<close> before it builds, and by \<^verbatim>\<open>enterPrevoteLocked\<close> before it
  validates.\<close>

record 'key startLocals =
  slHeight :: u64
  slRound :: u64
  slParent :: Header
  slAddr :: address
  slRoot :: hash
  slIsProposer :: bool
  slKey :: 'key

record ('key, 'tx) prevoteLocals =
  plHeight :: u64
  plRound :: u64
  plParent :: Header
  plProp :: "'tx Proposal option"
  plLockedRound :: int
  plLockedHash :: hash
  plAddr :: address
  plKey :: 'key

type_synonym ('key, 'tx) outcome = "('key, 'tx) Engine \<times> 'tx outbox \<times> consError option"

definition emptyBox :: "'tx outbox" where
  "emptyBox = \<lparr>obProposals = [], obVotes = [], obCommit = None\<rparr>"

definition boxProposal :: "'tx Proposal \<Rightarrow> 'tx outbox \<Rightarrow> 'tx outbox" where
  "boxProposal p box = box\<lparr>obProposals := obProposals box @ [p]\<rparr>"

definition boxVote :: "Vote \<Rightarrow> 'tx outbox \<Rightarrow> 'tx outbox" where
  "boxVote v box = box\<lparr>obVotes := obVotes box @ [v]\<rparr>"


section \<open>Construction and small operations\<close>

definition resetVotes :: "('key, 'tx) Engine \<Rightarrow> ('key, 'tx) Engine" where
  "resetVotes e = e\<lparr>
     ePrevotes := newVoteSet VotePrevote (eHeight e) (eRound e),
     ePrecommits := newVoteSet VotePrecommit (eHeight e) (eRound e),
     eProposal := None,
     eCommitted := False\<rparr>"

definition NewEngine :: "('key, 'z) cryptoLib_scheme \<Rightarrow> 'key \<Rightarrow> ValidatorSet \<Rightarrow> Header \<Rightarrow> hash
    \<Rightarrow> consError + ('key, 'tx) Engine" where
  "NewEngine c key vset parent root =
    (let addr = pubkeyAddress c key in
     if vsGet vset addr = None then Inl LocalNotInSet
     else Inr (resetVotes \<lparr>eAddress = addr, eKey = key, eValSet = vset,
       eHeight = hdNumber parent + 1, eRound = 0, eStep = StepNewRound, eParent = parent,
       eProposal = None, ePrevotes = newVoteSet 0 0 0, ePrecommits = newVoteSet 0 0 0,
       eLockedRound = -1, eLockedHash = 0, eProposeRoot = root, eCommitted = False,
       eLastCommit = None\<rparr>))"

definition ReplaceValSet :: "('key, 'tx) Engine \<Rightarrow> ValidatorSet \<Rightarrow> consError + ('key, 'tx) Engine" where
  "ReplaceValSet e vs = (if vsSize vs = 0 then Inl EmptyReplacementSet else Inr (e\<lparr>eValSet := vs\<rparr>))"

definition SetProposeRoot :: "('key, 'tx) Engine \<Rightarrow> hash \<Rightarrow> ('key, 'tx) Engine" where
  "SetProposeRoot e root = e\<lparr>eProposeRoot := root\<rparr>"

definition addPrevoteLocked :: "('key, 'tx) Engine \<Rightarrow> Vote \<Rightarrow> ('key, 'tx) Engine \<times> bool" where
  "addPrevoteLocked e v =
    (let (vs, ok) = vsetAdd (ePrevotes e) v (PowerOf (eValSet e) (vtValidator v)) in
     (e\<lparr>ePrevotes := vs\<rparr>, ok))"

definition addPrecommitLocked :: "('key, 'tx) Engine \<Rightarrow> Vote \<Rightarrow> ('key, 'tx) Engine \<times> bool" where
  "addPrecommitLocked e v =
    (let (vs, ok) = vsetAdd (ePrecommits e) v (PowerOf (eValSet e) (vtValidator v)) in
     (e\<lparr>ePrecommits := vs\<rparr>, ok))"


section \<open>Commit and precommit\<close>

definition enterNextRoundLocked :: "('key, 'tx) Engine \<Rightarrow> ('key, 'tx) Engine" where
  "enterNextRoundLocked e =
    (resetVotes (e\<lparr>eRound := eRound e + 1, eLockedRound := -1, eLockedHash := 0\<rparr>))
      \<lparr>eStep := StepNewRound\<rparr>"

definition enterCommitLocked :: "('key, 'tx) Engine \<Rightarrow> hash \<Rightarrow> 'tx outbox \<Rightarrow> ('key, 'tx) outcome" where
  "enterCommitLocked e bh box =
    (if eCommitted e then (e, box, None)
     else case eProposal e of
       None \<Rightarrow> (e, box, Some CommitWithoutProposal)
     | Some p \<Rightarrow>
         if pBlockHash p \<noteq> bh then (e, box, Some CommitWithoutProposal)
         else
           let ev = \<lparr>ceHeight = eHeight e, ceRound = eRound e, ceBlockHash = bh, ceBlock = pBlock p,
                      cePrecommits = votesFor (ePrecommits e) bh\<rparr>;
               e1 = e\<lparr>eStep := StepCommit, eCommitted := True, eLastCommit := Some ev,
                      eParent := (case pBlock p of None \<Rightarrow> eParent e | Some b \<Rightarrow> bHeader b),
                      eHeight := eHeight e + 1, eRound := 0, eLockedRound := -1, eLockedHash := 0\<rparr>
           in ((resetVotes e1)\<lparr>eStep := StepNewRound\<rparr>, box\<lparr>obCommit := Some ev\<rparr>, None))"

definition tryAfterPrecommitLocked :: "('key, 'tx) Engine \<Rightarrow> 'tx outbox \<Rightarrow> ('key, 'tx) outcome" where
  "tryAfterPrecommitLocked e box =
    (if eStep e \<noteq> StepPrecommit then (e, box, None)
     else case majorityHash (ePrecommits e) (vsTotalPower (eValSet e)) of
       None \<Rightarrow> (e, box, None)
     | Some maj \<Rightarrow>
         if maj = 0 then (enterNextRoundLocked e, box, None)
         else enterCommitLocked e maj box)"

definition enterPrecommitLocked ::
  "('key, 'z) cryptoLib_scheme \<Rightarrow> ('key, 'tx) Engine \<Rightarrow> hash \<Rightarrow> 'tx outbox \<Rightarrow> ('key, 'tx) outcome" where
  "enterPrecommitLocked c e polka box =
    (let e1 = e\<lparr>eStep := StepPrecommit\<rparr>;
         e2 = (if polka \<noteq> 0 then e1\<lparr>eLockedRound := sint (eRound e1), eLockedHash := polka\<rparr> else e1) in
     case SignVote c \<lparr>vtType = VotePrecommit, vtHeight = eHeight e2, vtRound = eRound e2,
            vtBlockHash = polka, vtValidator = eAddress e2, vtSignature = []\<rparr> (eKey e2) of
       Inl err \<Rightarrow> (e2, box, Some err)
     | Inr v \<Rightarrow> tryAfterPrecommitLocked (fst (addPrecommitLocked e2 v)) (boxVote v box))"

definition tryAfterPrevoteLocked ::
  "('key, 'z) cryptoLib_scheme \<Rightarrow> ('key, 'tx) Engine \<Rightarrow> 'tx outbox \<Rightarrow> ('key, 'tx) outcome" where
  "tryAfterPrevoteLocked c e box =
    (if eStep e \<noteq> StepPrevote then (e, box, None)
     else case majorityHash (ePrevotes e) (vsTotalPower (eValSet e)) of
       None \<Rightarrow> (e, box, None)
     | Some maj \<Rightarrow> enterPrecommitLocked c e maj box)"


section \<open>Votes\<close>

definition handleVoteLocked ::
  "('key, 'z) cryptoLib_scheme \<Rightarrow> ('key, 'tx) Engine \<Rightarrow> Vote \<Rightarrow> 'tx outbox \<Rightarrow> ('key, 'tx) outcome" where
  "handleVoteLocked c e v box =
    (if vtHeight v \<noteq> eHeight e then (e, box, None)
     else case VerifyVote c v of
       Some err \<Rightarrow> (e, box, Some err)
     | None \<Rightarrow>
         if vsGet (eValSet e) (vtValidator v) = None then (e, box, Some VoteFromNonValidator)
         else if vtType v = VotePrevote then
           (if vtRound v \<noteq> eRound e then (e, box, None)
            else let (e', ok) = addPrevoteLocked e v in
              if \<not> ok then (e', box, None) else tryAfterPrevoteLocked c e' box)
         else if vtType v = VotePrecommit then
           (if vtRound v \<noteq> eRound e then (e, box, None)
            else let (e', ok) = addPrecommitLocked e v in
              if \<not> ok then (e', box, None) else tryAfterPrecommitLocked e' box)
         else (e, box, Some InvalidVoteType))"

definition HandleVote :: "('key, 'z) cryptoLib_scheme \<Rightarrow> ('key, 'tx) Engine \<Rightarrow> Vote \<Rightarrow> ('key, 'tx) outcome" where
  "HandleVote c e v = handleVoteLocked c e v emptyBox"


section \<open>Prevote, proposals and rounds\<close>

definition enterPrevoteBegin ::
  "('key, 'tx) Engine \<Rightarrow> ('key, 'tx) Engine \<times> ('key, 'tx) prevoteLocals option" where
  "enterPrevoteBegin e =
    (if eStep e \<noteq> StepPropose \<and> eStep e \<noteq> StepNewRound then (e, None)
     else (e\<lparr>eStep := StepPrevote\<rparr>,
       Some \<lparr>plHeight = eHeight e, plRound = eRound e, plParent = eParent e, plProp = eProposal e,
             plLockedRound = eLockedRound e, plLockedHash = eLockedHash e, plAddr = eAddress e,
             plKey = eKey e\<rparr>))"

text \<open>The hash to prevote, given the validator's verdict on a proposal with a body.\<close>

definition prevoteHash :: "('key, 'tx) prevoteLocals \<Rightarrow> (u64 \<Rightarrow> Header \<Rightarrow> 'tx Block \<Rightarrow> bool) \<Rightarrow> hash" where
  "prevoteHash l valid =
    (let h = (case plProp l of
                None \<Rightarrow> 0
              | Some p \<Rightarrow> (case pBlock p of
                  None \<Rightarrow> 0
                | Some b \<Rightarrow> if valid (plHeight l) (plParent l) b then pBlockHash p else 0)) in
     if plLockedRound l \<ge> 0 \<and> plLockedHash l \<noteq> 0 then plLockedHash l else h)"

definition enterPrevoteEnd :: "('key, 'z) cryptoLib_scheme \<Rightarrow> (u64 \<Rightarrow> Header \<Rightarrow> 'tx Block \<Rightarrow> bool)
    \<Rightarrow> ('key, 'tx) Engine \<Rightarrow> ('key, 'tx) prevoteLocals \<Rightarrow> 'tx outbox \<Rightarrow> ('key, 'tx) outcome" where
  "enterPrevoteEnd c valid e l box =
    (case SignVote c \<lparr>vtType = VotePrevote, vtHeight = plHeight l, vtRound = plRound l,
            vtBlockHash = prevoteHash l valid, vtValidator = plAddr l, vtSignature = []\<rparr> (plKey l) of
       Inl err \<Rightarrow> (e, box, Some err)
     | Inr v \<Rightarrow>
         if eHeight e \<noteq> plHeight l \<or> eRound e \<noteq> plRound l \<or> eStep e \<noteq> StepPrevote then (e, box, None)
         else tryAfterPrevoteLocked c (fst (addPrevoteLocked e v)) (boxVote v box))"

definition startRoundBegin :: "('key, 'tx) Engine \<Rightarrow> (('key, 'tx) Engine \<times> 'key startLocals) option" where
  "startRoundBegin e =
    (if eStep e \<noteq> StepNewRound then None
     else let e1 = (resetVotes e)\<lparr>eStep := StepPropose\<rparr> in
       Some (e1, \<lparr>slHeight = eHeight e1, slRound = eRound e1, slParent = eParent e1,
         slAddr = eAddress e1, slRoot = eProposeRoot e1,
         slIsProposer = (Proposer (eValSet e1) (eHeight e1) (eRound e1) = eAddress e1),
         slKey = eKey e1\<rparr>))"

text \<open>The part after the build; \<^verbatim>\<open>built\<close> is what the block builder returned to a proposer.\<close>

definition startRoundBuilt :: "('key, 'z) cryptoLib_scheme \<Rightarrow> ('key, 'tx) Engine \<Rightarrow> 'key startLocals
    \<Rightarrow> 'tx Block option option
    \<Rightarrow> ('key, 'tx) Engine \<times> 'tx outbox \<times> consError option \<times> ('key, 'tx) prevoteLocals option" where
  "startRoundBuilt c e l built =
    (if slIsProposer l \<and> built = None then (e, emptyBox, Some BuildFailed, None)
     else if eHeight e \<noteq> slHeight l \<or> eRound e \<noteq> slRound l \<or> eStep e \<noteq> StepPropose
       then (e, emptyBox, None, None)
     else if \<not> slIsProposer l then (e, emptyBox, None, None)
     else case built of
       None \<Rightarrow> (e, emptyBox, Some BuildFailed, None)
     | Some None \<Rightarrow> (e, emptyBox, Some NilProposalBlock, None)
     | Some (Some blk) \<Rightarrow>
         (case SignProposal c \<lparr>pHeight = slHeight l, pRound = slRound l, pBlockHash = blockHash c blk,
                 pBlock = Some blk, pProposer = slAddr l, pSignature = []\<rparr> (slKey l) of
            Inl err \<Rightarrow> (e, emptyBox, Some err, None)
          | Inr p \<Rightarrow>
              let (e2, l2) = enterPrevoteBegin (e\<lparr>eProposal := Some p\<rparr>) in
              (e2, boxProposal p emptyBox, None, l2)))"

definition HandleProposal :: "('key, 'z) cryptoLib_scheme \<Rightarrow> ('key, 'tx) Engine \<Rightarrow> 'tx Proposal
    \<Rightarrow> ('key, 'tx) Engine \<times> consError option \<times> ('key, 'tx) prevoteLocals option" where
  "HandleProposal c e p =
    (case VerifyProposal c p of
       Some err \<Rightarrow> (e, Some err, None)
     | None \<Rightarrow>
         if (case pBlock p of None \<Rightarrow> False | Some b \<Rightarrow> blockHash c b \<noteq> pBlockHash p)
           then (e, Some ProposalBlockHashMismatch, None)
         else if pHeight p \<noteq> eHeight e \<or> pRound p \<noteq> eRound e then (e, None, None)
         else if eProposal e \<noteq> None then (e, None, None)
         else if pProposer p \<noteq> Proposer (eValSet e) (eHeight e) (eRound e)
           then (e, Some ProposalFromNonProposer, None)
         else let (e2, l) = enterPrevoteBegin (e\<lparr>eProposal := Some p\<rparr>) in (e2, None, l))"

definition ForceTimeoutRound :: "('key, 'tx) Engine \<Rightarrow> ('key, 'tx) Engine" where
  "ForceTimeoutRound e = enterNextRoundLocked e"

definition ApplySyncedBlock :: "('key, 'z) cryptoLib_scheme \<Rightarrow> ('key, 'tx) Engine \<Rightarrow> 'tx Block
    \<Rightarrow> ('key, 'tx) Engine \<times> (consError + bool)" where
  "ApplySyncedBlock c e blk =
    (let h = bHeader blk in
     if eHeight e > hdNumber h then (e, Inr False)
     else if eHeight e \<noteq> hdNumber h then (e, Inl SyncHeightMismatch)
     else if hdParentHash h \<noteq> headerHash c (eParent e) then (e, Inl SyncParentMismatch)
     else ((resetVotes (e\<lparr>eParent := h, eHeight := hdNumber h + 1, eRound := 0, eLockedRound := -1,
              eLockedHash := 0, eCommitted := False\<rparr>))
             \<lparr>eStep := StepNewRound,
              eLastCommit := Some \<lparr>ceHeight = hdNumber h, ceRound = 0, ceBlockHash = blockHash c blk,
                ceBlock = Some blk, cePrecommits = []\<rparr>\<rparr>, Inr True))"

text \<open>The two methods run without interruption, as the in-process cluster runs them.\<close>

definition runHandleProposal :: "('key, 'z) cryptoLib_scheme \<Rightarrow> (u64 \<Rightarrow> Header \<Rightarrow> 'tx Block \<Rightarrow> bool)
    \<Rightarrow> ('key, 'tx) Engine \<Rightarrow> 'tx Proposal \<Rightarrow> ('key, 'tx) outcome" where
  "runHandleProposal c valid e p =
    (case HandleProposal c e p of
       (e1, err, None) \<Rightarrow> (e1, emptyBox, err)
     | (e1, err, Some l) \<Rightarrow> enterPrevoteEnd c valid e1 l emptyBox)"

definition runStartRound :: "('key, 'z) cryptoLib_scheme
    \<Rightarrow> (u64 \<Rightarrow> Header \<Rightarrow> address \<Rightarrow> hash \<Rightarrow> 'tx Block option option)
    \<Rightarrow> (u64 \<Rightarrow> Header \<Rightarrow> 'tx Block \<Rightarrow> bool) \<Rightarrow> ('key, 'tx) Engine \<Rightarrow> ('key, 'tx) outcome" where
  "runStartRound c build valid e =
    (case startRoundBegin e of
       None \<Rightarrow> (e, emptyBox, None)
     | Some (e1, l) \<Rightarrow>
         (case startRoundBuilt c e1 l (build (slHeight l) (slParent l) (slAddr l) (slRoot l)) of
            (e2, box, err, None) \<Rightarrow> (e2, box, err)
          | (e2, box, err, Some l2) \<Rightarrow> enterPrevoteEnd c valid e2 l2 box))"

end
