(* ===== verification/EngineSafety.thy ===== *)
theory EngineSafety
  imports Engine
begin

text \<open>
  One engine under every interleaving of its methods: a step relation whose
  steps are the critical sections of theory Engine, with the unlocked block
  building and proposal validation in between.  Shown here: an engine never
  broadcasts two votes of one kind for a height and round, it commits a height at
  most once, every commit carries a quorum of verified precommits, and two
  conflicting commits of one round expose more than a third of the power as
  provable double signers.
\<close>


section \<open>The system of one engine\<close>

record ('key, 'tx) sys =
  sEng :: "('key, 'tx) Engine"
  sBuilds :: "'key startLocals list"
  sPrevotes :: "(('key, 'tx) prevoteLocals \<times> 'tx outbox) list"
  sSent :: "Vote list"
  sCommits :: "'tx CommitEvent list"

text \<open>\<^verbatim>\<open>flush\<close>: what leaves the engine after a method has released the mutex.\<close>

definition flushBox :: "'tx outbox \<Rightarrow> ('key, 'tx) sys \<Rightarrow> ('key, 'tx) sys" where
  "flushBox box s = s\<lparr>sSent := sSent s @ obVotes box,
     sCommits := sCommits s @ (case obCommit box of None \<Rightarrow> [] | Some ev \<Rightarrow> [ev])\<rparr>"

definition addPending :: "('key, 'tx) prevoteLocals option \<Rightarrow> 'tx outbox \<Rightarrow> ('key, 'tx) sys \<Rightarrow> ('key, 'tx) sys" where
  "addPending l box s =
    (case l of None \<Rightarrow> flushBox box s | Some pl \<Rightarrow> s\<lparr>sPrevotes := sPrevotes s @ [(pl, box)]\<rparr>)"

inductive estep :: "('key, 'z) cryptoLib_scheme \<Rightarrow> bool \<Rightarrow> ('key, 'tx) sys \<Rightarrow> ('key, 'tx) sys \<Rightarrow> bool"
  for c :: "('key, 'z) cryptoLib_scheme" and rot :: bool where
  start: "startRoundBegin (sEng s) = Some (e, l) \<Longrightarrow>
    estep c rot s (s\<lparr>sEng := e, sBuilds := sBuilds s @ [l]\<rparr>)"
| built: "sBuilds s = xs @ l # ys \<Longrightarrow> startRoundBuilt c (sEng s) l blk = (e, box, err, pl) \<Longrightarrow>
    estep c rot s (addPending pl box (s\<lparr>sEng := e, sBuilds := xs @ ys\<rparr>))"
| proposal: "HandleProposal c (sEng s) p = (e, err, pl) \<Longrightarrow>
    estep c rot s (addPending pl emptyBox (s\<lparr>sEng := e\<rparr>))"
| prevote: "sPrevotes s = xs @ (pl, box) # ys \<Longrightarrow>
    enterPrevoteEnd c valid (sEng s) pl box = (e, box', err) \<Longrightarrow>
    estep c rot s (flushBox box' (s\<lparr>sEng := e, sPrevotes := xs @ ys\<rparr>))"
| vote: "HandleVote c (sEng s) v = (e, box, err) \<Longrightarrow>
    estep c rot s (flushBox box (s\<lparr>sEng := e\<rparr>))"
| timeout: "estep c rot s (s\<lparr>sEng := ForceTimeoutRound (sEng s)\<rparr>)"
| sync: "ApplySyncedBlock c (sEng s) blk = (e, r) \<Longrightarrow> estep c rot s (s\<lparr>sEng := e\<rparr>)"
| replace: "rot \<Longrightarrow> ReplaceValSet (sEng s) V = Inr e \<Longrightarrow> estep c rot s (s\<lparr>sEng := e\<rparr>)"
| setroot: "estep c rot s (s\<lparr>sEng := SetProposeRoot (sEng s) root\<rparr>)"

definition initSys :: "('key, 'tx) Engine \<Rightarrow> ('key, 'tx) sys" where
  "initSys e = \<lparr>sEng = e, sBuilds = [], sPrevotes = [], sSent = [], sCommits = []\<rparr>"

inductive ereach :: "('key, 'z) cryptoLib_scheme \<Rightarrow> bool \<Rightarrow> ('key, 'tx) Engine \<Rightarrow> nat \<Rightarrow> ('key, 'tx) sys \<Rightarrow> bool"
  for c :: "('key, 'z) cryptoLib_scheme" and rot :: bool and e0 :: "('key, 'tx) Engine" where
  init: "ereach c rot e0 0 (initSys e0)"
| step: "ereach c rot e0 n s \<Longrightarrow> estep c rot s s' \<Longrightarrow> ereach c rot e0 (Suc n) s'"


section \<open>A clock of positions and phases\<close>

text \<open>
  Height, round and phase of the engine as one number.  Prevotes are stamped with
  the phase in which they are promised and precommits with the phase in which
  they are cast, so that a stamp is issued only when the clock passes it.
\<close>

definition pos :: "u64 \<Rightarrow> u64 \<Rightarrow> nat" where
  "pos h r = unat h * 2 ^ 64 + unat r"

fun phase :: "Step \<Rightarrow> nat" where
  "phase StepNewRound = 0"
| "phase StepPropose = 1"
| "phase StepPrevote = 2"
| "phase StepPrecommit = 3"
| "phase StepCommit = 4"

definition clock :: "('key, 'tx) Engine \<Rightarrow> nat" where
  "clock e = pos (eHeight e) (eRound e) * 8 + phase (eStep e)"

definition voteStamp :: "Vote \<Rightarrow> nat" where
  "voteStamp v = pos (vtHeight v) (vtRound v) * 8 + (if vtType v = VotePrevote then 2 else 3)"

definition pendStamp :: "('key, 'tx) prevoteLocals \<Rightarrow> nat" where
  "pendStamp l = pos (plHeight l) (plRound l) * 8 + 2"

lemma pos_inj: "pos h r = pos h' r' \<longleftrightarrow> h = h' \<and> r = r'"
proof
  assume eq: "pos h r = pos h' r'"
  have "unat r mod 2 ^ 64 = unat r" "unat r' mod 2 ^ 64 = unat r'" by simp_all
  moreover have "pos h r mod 2 ^ 64 = unat r mod 2 ^ 64" "pos h' r' mod 2 ^ 64 = unat r' mod 2 ^ 64"
    by (simp_all add: pos_def)
  ultimately have "unat r = unat r'" using eq by metis
  with eq have "unat h = unat h'" by (simp add: pos_def)
  with \<open>unat r = unat r'\<close> show "h = h' \<and> r = r'" by (simp add: word_unat_eq_iff)
qed simp

lemma pos_next_round: "r + 1 \<noteq> 0 \<Longrightarrow> pos h r < pos h (r + 1)"
  by (simp add: pos_def unatSuc add.commute)

lemma pos_next_height: "h + 1 \<noteq> 0 \<Longrightarrow> pos h r < pos (h + 1) 0"
  using unat_u64_bound [of r] by (simp add: pos_def unatSuc add.commute)

lemma voteStamp_inj:
  assumes "voteStamp v = voteStamp w"
  shows "vtHeight v = vtHeight w \<and> vtRound v = vtRound w \<and> (vtType v = VotePrevote \<longleftrightarrow> vtType w = VotePrevote)"
proof -
  have "pos (vtHeight v) (vtRound v) = pos (vtHeight w) (vtRound w) \<and>
      (vtType v = VotePrevote \<longleftrightarrow> vtType w = VotePrevote)"
    using assms by (auto simp: voteStamp_def split: if_splits) presburger+
  then show ?thesis by (simp add: pos_inj)
qed

text \<open>The next round and the next height exist: the 64-bit counters are not exhausted.\<close>

definition unwrapped :: "('key, 'tx) Engine \<Rightarrow> bool" where
  "unwrapped e \<longleftrightarrow> eRound e + 1 \<noteq> 0 \<and> eHeight e + 1 \<noteq> 0"


section \<open>What the critical sections do to the clock\<close>

text \<open>A critical section stays in its round, enters the next one, or enters the next height.\<close>

definition moves :: "('key, 'tx) Engine \<Rightarrow> ('key, 'tx) Engine \<Rightarrow> bool" where
  "moves e e' \<longleftrightarrow>
     eHeight e' = eHeight e \<and> (eRound e' = eRound e \<or> eRound e' = eRound e + 1) \<or>
     eHeight e' = eHeight e + 1 \<and> eRound e' = 0"

lemma moves_refl [simp]: "moves e e"
  by (simp add: moves_def)

text \<open>It moves the clock forward and casts votes stamped inside the move.\<close>

definition fresh :: "('key, 'tx) Engine \<Rightarrow> ('key, 'tx) Engine \<Rightarrow> Vote list \<Rightarrow> bool" where
  "fresh e e' new \<longleftrightarrow> clock e \<le> clock e' \<and> moves e e' \<and> distinct (map voteStamp new) \<and>
     (\<forall>v\<in>set new. clock e < voteStamp v \<and> voteStamp v \<le> clock e')"

lemma fresh_refl [simp]: "fresh e e []"
  by (simp add: fresh_def)

lemma fresh_Nil: "fresh e e' [] \<longleftrightarrow> clock e \<le> clock e' \<and> moves e e'"
  by (simp add: fresh_def)

lemma resetVotes_fields [simp]:
  "eHeight (resetVotes e) = eHeight e" "eRound (resetVotes e) = eRound e" "eStep (resetVotes e) = eStep e"
  "eValSet (resetVotes e) = eValSet e" "eAddress (resetVotes e) = eAddress e" "eKey (resetVotes e) = eKey e"
  "eProposal (resetVotes e) = None" "eCommitted (resetVotes e) = False"
  "ePrevotes (resetVotes e) = newVoteSet VotePrevote (eHeight e) (eRound e)"
  "ePrecommits (resetVotes e) = newVoteSet VotePrecommit (eHeight e) (eRound e)"
  "eParent (resetVotes e) = eParent e" "eLastCommit (resetVotes e) = eLastCommit e"
  by (simp_all add: resetVotes_def)

lemma phase_le: "phase st \<le> 4"
  by (cases st) simp_all

lemma clock_next:
  assumes "pos (eHeight e) (eRound e) < pos (eHeight e') (eRound e')"
  shows "clock e < clock e'"
  using assms phase_le [of "eStep e"] by (simp add: clock_def)

lemma clock_next_round:
  assumes "unwrapped e"
  shows "clock e < clock (enterNextRoundLocked e)"
  using assms by (intro clock_next) (simp add: enterNextRoundLocked_def unwrapped_def pos_next_round)

lemma moves_next_round: "moves e (enterNextRoundLocked e)"
  by (simp add: enterNextRoundLocked_def moves_def)

lemma addPrecommit_fields [simp]:
  "eHeight (fst (addPrecommitLocked e v)) = eHeight e" "eRound (fst (addPrecommitLocked e v)) = eRound e"
  "eStep (fst (addPrecommitLocked e v)) = eStep e" "eValSet (fst (addPrecommitLocked e v)) = eValSet e"
  "eProposal (fst (addPrecommitLocked e v)) = eProposal e" "eAddress (fst (addPrecommitLocked e v)) = eAddress e"
  "eKey (fst (addPrecommitLocked e v)) = eKey e" "ePrevotes (fst (addPrecommitLocked e v)) = ePrevotes e"
  by (simp_all add: addPrecommitLocked_def case_prod_beta)

lemma addPrevote_fields [simp]:
  "eHeight (fst (addPrevoteLocked e v)) = eHeight e" "eRound (fst (addPrevoteLocked e v)) = eRound e"
  "eStep (fst (addPrevoteLocked e v)) = eStep e" "eValSet (fst (addPrevoteLocked e v)) = eValSet e"
  "eProposal (fst (addPrevoteLocked e v)) = eProposal e" "eAddress (fst (addPrevoteLocked e v)) = eAddress e"
  "eKey (fst (addPrevoteLocked e v)) = eKey e" "ePrecommits (fst (addPrevoteLocked e v)) = ePrecommits e"
  by (simp_all add: addPrevoteLocked_def case_prod_beta)

lemma clock_add [simp]:
  "clock (fst (addPrecommitLocked e v)) = clock e" "clock (fst (addPrevoteLocked e v)) = clock e"
  by (simp_all add: clock_def)

lemma moves_add [simp]:
  "moves (fst (addPrecommitLocked e v)) e' = moves e e'" "moves (fst (addPrevoteLocked e v)) e' = moves e e'"
  "moves e (fst (addPrecommitLocked e' v)) = moves e e'" "moves e (fst (addPrevoteLocked e' v)) = moves e e'"
  by (simp_all add: moves_def)

lemma enterCommit_fresh:
  assumes "enterCommitLocked e bh box = (e', box', err)" "unwrapped e"
  shows "obVotes box' = obVotes box \<and> clock e \<le> clock e' \<and> moves e e'"
proof (cases "e' = e")
  case False
  then have "eHeight e' = eHeight e + 1" "eRound e' = 0" "obVotes box' = obVotes box"
    using assms(1) by (auto simp: enterCommitLocked_def Let_def split: if_splits option.splits)
  then show ?thesis
    using assms(2) clock_next [of e e'] by (simp add: unwrapped_def pos_next_height moves_def)
next
  case True
  then show ?thesis
    using assms(1) by (auto simp: enterCommitLocked_def Let_def split: if_splits option.splits)
qed

lemma tryAfterPrecommit_fresh:
  assumes "tryAfterPrecommitLocked e box = (e', box', err)" "unwrapped e"
  shows "obVotes box' = obVotes box \<and> clock e \<le> clock e' \<and> moves e e'"
  using assms clock_next_round [OF assms(2)] moves_next_round [of e]
  by (auto simp: tryAfterPrecommitLocked_def split: if_splits option.splits dest: enterCommit_fresh)

text \<open>The engine after it has moved to precommit and locked a non-nil polka.\<close>

definition lockOn :: "('key, 'tx) Engine \<Rightarrow> hash \<Rightarrow> ('key, 'tx) Engine" where
  "lockOn e polka = (if polka \<noteq> 0
    then e\<lparr>eStep := StepPrecommit, eLockedRound := sint (eRound e), eLockedHash := polka\<rparr>
    else e\<lparr>eStep := StepPrecommit\<rparr>)"

lemma lockOn_fields [simp]:
  "eHeight (lockOn e polka) = eHeight e" "eRound (lockOn e polka) = eRound e"
  "eStep (lockOn e polka) = StepPrecommit" "eValSet (lockOn e polka) = eValSet e"
  "eProposal (lockOn e polka) = eProposal e" "eAddress (lockOn e polka) = eAddress e"
  "eKey (lockOn e polka) = eKey e" "ePrevotes (lockOn e polka) = ePrevotes e"
  "ePrecommits (lockOn e polka) = ePrecommits e"
  by (simp_all add: lockOn_def)

lemma moves_lockOn [simp]: "moves (lockOn e polka) e' = moves e e'" "moves e (lockOn e polka)"
  by (simp_all add: moves_def)

lemma enterPrecommit_cases:
  assumes "enterPrecommitLocked c e polka box = (e', box', err)"
  obtains (sign) "e' = lockOn e polka" "box' = box"
  | (cast) v where "SignVote c \<lparr>vtType = VotePrecommit, vtHeight = eHeight e, vtRound = eRound e,
        vtBlockHash = polka, vtValidator = eAddress e, vtSignature = []\<rparr> (eKey e) = Inr v"
      "tryAfterPrecommitLocked (fst (addPrecommitLocked (lockOn e polka) v)) (boxVote v box) = (e', box', err)"
  using assms
  by (cases "SignVote c \<lparr>vtType = VotePrecommit, vtHeight = eHeight e, vtRound = eRound e,
        vtBlockHash = polka, vtValidator = eAddress e, vtSignature = []\<rparr> (eKey e)")
    (auto simp: enterPrecommitLocked_def lockOn_def Let_def split: if_splits)

lemma enterPrecommit_fresh:
  assumes "enterPrecommitLocked c e polka box = (e', box', err)" "unwrapped e" "eStep e = StepPrevote"
  shows "\<exists>new. obVotes box' = obVotes box @ new \<and> fresh e e' new"
proof -
  have clk: "clock (lockOn e polka) = clock e + 1"
    using assms(3) by (simp add: clock_def)
  from assms(1) show ?thesis
  proof (cases rule: enterPrecommit_cases)
    case sign
    then show ?thesis using clk by (auto simp: fresh_Nil intro: exI [of _ "[]"])
  next
    case (cast v)
    have "unwrapped (fst (addPrecommitLocked (lockOn e polka) v))"
      using assms(2) by (simp add: unwrapped_def)
    from tryAfterPrecommit_fresh [OF cast(2) this] have
      "obVotes box' = obVotes box @ [v]" "clock (lockOn e polka) \<le> clock e'" "moves e e'"
      by (simp_all add: boxVote_def)
    moreover have "voteStamp v = clock e + 1"
      using SignVote_fields [OF cast(1)] assms(3) by (simp add: voteStamp_def clock_def)
    ultimately show ?thesis using clk by (auto simp: fresh_def intro: exI [of _ "[v]"])
  qed
qed

lemma tryAfterPrevote_fresh:
  assumes "tryAfterPrevoteLocked c e box = (e', box', err)" "unwrapped e"
  shows "\<exists>new. obVotes box' = obVotes box @ new \<and> fresh e e' new"
  using assms enterPrecommit_fresh [OF _ assms(2)]
  by (auto simp: tryAfterPrevoteLocked_def split: if_splits option.splits intro: exI [of _ "[]"])

lemma handleVote_fresh:
  assumes "handleVoteLocked c e v box = (e', box', err)" "unwrapped e"
  shows "\<exists>new. obVotes box' = obVotes box @ new \<and> fresh e e' new"
proof -
  consider (same) "clock e' = clock e" "moves e e'" "obVotes box' = obVotes box"
    | (pv) "tryAfterPrevoteLocked c (fst (addPrevoteLocked e v)) box = (e', box', err)"
    | (pc) "tryAfterPrecommitLocked (fst (addPrecommitLocked e v)) box = (e', box', err)"
    using assms(1) clock_add [of e v] moves_add(3,4) [of e e v]
    by (auto simp: handleVoteLocked_def case_prod_beta Let_def split: if_splits option.splits)
  then show ?thesis
  proof cases
    case same then show ?thesis by (auto simp: fresh_Nil intro: exI [of _ "[]"])
  next
    case pv
    have "unwrapped (fst (addPrevoteLocked e v))" using assms(2) by (simp add: unwrapped_def)
    from tryAfterPrevote_fresh [OF pv this] show ?thesis by (simp add: fresh_def)
  next
    case pc
    have "unwrapped (fst (addPrecommitLocked e v))" using assms(2) by (simp add: unwrapped_def)
    from tryAfterPrecommit_fresh [OF pc this] show ?thesis by (auto simp: fresh_Nil intro: exI [of _ "[]"])
  qed
qed


text \<open>A critical section that may end in a promised prevote, stamped with the phase it enters.\<close>

definition promised :: "('key, 'tx) Engine \<Rightarrow> ('key, 'tx) Engine \<Rightarrow> ('key, 'tx) prevoteLocals option \<Rightarrow> bool" where
  "promised e e' l \<longleftrightarrow>
     moves e e' \<and>
     (l = None \<and> clock e' = clock e \<or>
      (\<exists>pl. l = Some pl \<and> clock e < pendStamp pl \<and> pendStamp pl = clock e'))"

lemma clock_proposal [simp]:
  "clock (e\<lparr>eProposal := p\<rparr>) = clock e" "moves (e\<lparr>eProposal := p\<rparr>) e' = moves e e'"
  by (simp_all add: clock_def moves_def)

lemma enterPrevoteBegin_stamp:
  "enterPrevoteBegin e = (e', l) \<Longrightarrow> promised e e' l"
  by (auto simp: promised_def enterPrevoteBegin_def clock_def pendStamp_def moves_def split: if_splits)

lemma enterPrevoteEnd_stamp:
  assumes "enterPrevoteEnd c valid e pl box = (e', box', err)" "unwrapped e"
  shows "e' = e \<and> box' = box \<or>
    (\<exists>v new. obVotes box' = obVotes box @ v # new \<and> vtType v = VotePrevote \<and>
       voteStamp v = pendStamp pl \<and> fresh e e' new)"
proof -
  consider "e' = e" "box' = box"
    | (cast) v where "vtType v = VotePrevote" "vtHeight v = plHeight pl" "vtRound v = plRound pl"
        "tryAfterPrevoteLocked c (fst (addPrevoteLocked e v)) (boxVote v box) = (e', box', err)"
    using assms(1) SignVote_fields
    by (fastforce simp: enterPrevoteEnd_def split: sum.splits if_splits)
  then show ?thesis
  proof cases
    case (cast v)
    have "unwrapped (fst (addPrevoteLocked e v))" using assms(2) by (simp add: unwrapped_def)
    from tryAfterPrevote_fresh [OF cast(4) this] obtain new where
      "obVotes box' = obVotes box @ v # new" "fresh e e' new"
      by (auto simp: boxVote_def fresh_def)
    then show ?thesis using cast by (auto simp: voteStamp_def pendStamp_def)
  qed simp
qed

lemma startRoundBuilt_stamp:
  assumes "startRoundBuilt c e l blk = (e', box, err, pl)"
  shows "obVotes box = [] \<and> obCommit box = None \<and> promised e e' pl"
proof -
  consider "e' = e" "box = emptyBox" "pl = None"
    | p where "enterPrevoteBegin (e\<lparr>eProposal := Some p\<rparr>) = (e', pl)" "box = boxProposal p emptyBox"
    using assms
    by (auto simp: startRoundBuilt_def case_prod_beta Let_def split: if_splits option.splits sum.splits)
  then show ?thesis
  proof cases
    case 2
    with enterPrevoteBegin_stamp [OF 2(1)] show ?thesis
      by (simp add: boxProposal_def emptyBox_def promised_def)
  qed (simp add: emptyBox_def promised_def)
qed

lemma HandleProposal_stamp:
  assumes "HandleProposal c e p = (e', err, pl)"
  shows "promised e e' pl"
proof -
  consider "e' = e" "pl = None" | "enterPrevoteBegin (e\<lparr>eProposal := Some p\<rparr>) = (e', pl)"
    using assms by (auto simp: HandleProposal_def case_prod_beta Let_def split: if_splits option.splits)
  then show ?thesis
  proof cases
    case 2
    from enterPrevoteBegin_stamp [OF 2] show ?thesis by (simp add: promised_def)
  qed (simp add: promised_def)
qed

lemma ApplySyncedBlock_clock:
  assumes "ApplySyncedBlock c e blk = (e', r)" "unwrapped e"
  shows "clock e \<le> clock e' \<and> moves e e'"
proof (cases "e' = e")
  case False
  then have "eHeight e' = eHeight e + 1" "eRound e' = 0"
    using assms(1) by (auto simp: ApplySyncedBlock_def Let_def split: if_splits)
  then show ?thesis
    using assms(2) clock_next [of e e'] by (simp add: unwrapped_def pos_next_height moves_def)
qed simp

lemma startRoundBegin_clock:
  "startRoundBegin e = Some (e', l) \<Longrightarrow> clock e \<le> clock e' \<and> moves e e'"
  by (auto simp: startRoundBegin_def clock_def moves_def Let_def split: if_splits)


section \<open>At most one vote of a kind per round\<close>

definition stamps :: "('key, 'tx) sys \<Rightarrow> nat list" where
  "stamps s = map voteStamp (sSent s) @ map (pendStamp \<circ> fst) (sPrevotes s)"

definition stamped :: "('key, 'tx) sys \<Rightarrow> bool" where
  "stamped s \<longleftrightarrow> distinct (stamps s) \<and> (\<forall>x\<in>set (stamps s). x \<le> clock (sEng s)) \<and>
     (\<forall>(pl, box)\<in>set (sPrevotes s). obVotes box = [] \<and> obCommit box = None)"

lemma stamped_init: "stamped (initSys e)"
  by (simp add: stamped_def stamps_def initSys_def)

lemma flushBox_fields [simp]:
  "sEng (flushBox box s) = sEng s" "sPrevotes (flushBox box s) = sPrevotes s"
  "sSent (flushBox box s) = sSent s @ obVotes box"
  "sCommits (flushBox box s) = sCommits s @ (case obCommit box of None \<Rightarrow> [] | Some ev \<Rightarrow> [ev])"
  by (simp_all add: flushBox_def)

lemma stamped_extend:
  assumes "stamped s" "mset (stamps t) = mset (stamps s @ ys)" "distinct ys"
    "\<forall>y\<in>set ys. clock (sEng s) < y \<and> y \<le> clock (sEng t)" "clock (sEng s) \<le> clock (sEng t)"
    "\<forall>(pl, box)\<in>set (sPrevotes t). obVotes box = [] \<and> obCommit box = None"
  shows "stamped t"
proof -
  have "distinct (stamps s @ ys)"
    using assms(1,3,4) by (force simp: stamped_def)
  then have "distinct (stamps t)"
    using mset_eq_imp_distinct_iff [OF assms(2)] by simp
  moreover have "set (stamps t) = set (stamps s) \<union> set ys"
    using mset_eq_setD [OF assms(2)] by simp
  ultimately show ?thesis
    using assms by (auto simp: stamped_def intro: order_trans)
qed

lemma stamped_addPending:
  assumes "stamped s" "obVotes box = [] \<and> obCommit box = None" "promised (sEng s) (sEng t) pl"
    "sPrevotes t = sPrevotes s" "sSent t = sSent s"
  shows "stamped (addPending pl box t)"
proof (cases pl)
  case None
  then show ?thesis
    using assms by (intro stamped_extend [OF assms(1), of _ "[]"])
      (auto simp: addPending_def promised_def stamps_def stamped_def)
next
  case (Some q)
  then show ?thesis
    using assms by (intro stamped_extend [OF assms(1), of _ "[pendStamp q]"])
      (auto simp: addPending_def promised_def stamps_def stamped_def)
qed

lemma stamped_flush:
  assumes "stamped s" "fresh (sEng s) (sEng t) (obVotes box)" "sPrevotes t = sPrevotes s" "sSent t = sSent s"
  shows "stamped (flushBox box t)"
  using assms by (intro stamped_extend [OF assms(1), of _ "map voteStamp (obVotes box)"])
    (auto simp: stamps_def stamped_def fresh_def)

lemma stamped_prevote:
  assumes "stamped s" "sPrevotes s = xs @ (pl, box) # ys" "sPrevotes t = xs @ ys" "sSent t = sSent s"
    "obVotes box' = v # new" "voteStamp v = pendStamp pl" "fresh (sEng s) (sEng t) new"
  shows "stamped (flushBox box' t)"
  using assms by (intro stamped_extend [OF assms(1), of _ "map voteStamp new"])
    (auto simp: stamps_def stamped_def fresh_def)

lemma stamped_drop:
  assumes "stamped s" "sPrevotes s = xs @ (pl, box) # ys" "sPrevotes t = xs @ ys" "sSent t = sSent s"
    "sEng t = sEng s"
  shows "stamped (flushBox box t)"
  using assms by (auto simp: stamped_def stamps_def)

lemma stamped_clock:
  assumes "stamped s" "clock (sEng s) \<le> clock (sEng t)" "sPrevotes t = sPrevotes s" "sSent t = sSent s"
  shows "stamped t"
  using assms by (intro stamped_extend [OF assms(1), of _ "[]"]) (auto simp: stamps_def stamped_def)

lemma estep_stamped:
  assumes "estep c rot s s'" "stamped s" "unwrapped (sEng s)"
  shows "stamped s'"
  using assms
proof (cases rule: estep.cases)
  case (start e l)
  then show ?thesis
    using assms(2) startRoundBegin_clock by (intro stamped_clock [OF assms(2)]) auto
next
  case (built xs l ys blk e box err pl)
  from startRoundBuilt_stamp [OF built(3)] show ?thesis
    unfolding built(1) by (intro stamped_addPending [OF assms(2)]) auto
next
  case (proposal p e err pl)
  from HandleProposal_stamp [OF proposal(2)] show ?thesis
    unfolding proposal(1) by (intro stamped_addPending [OF assms(2)]) (auto simp: emptyBox_def)
next
  case (prevote xs pl box ys valid e box' err)
  have "obVotes box = []" using assms(2) prevote(2) by (auto simp: stamped_def)
  with enterPrevoteEnd_stamp [OF prevote(3) assms(3)] show ?thesis
    unfolding prevote(1)
    by (auto intro: stamped_drop [OF assms(2) prevote(2)] stamped_prevote [OF assms(2) prevote(2)])
next
  case (vote v e box err)
  have "fresh (sEng s) e (obVotes box)"
    using handleVote_fresh [OF vote(2) [unfolded HandleVote_def] assms(3)] by (auto simp: emptyBox_def)
  then show ?thesis unfolding vote(1) by (intro stamped_flush [OF assms(2)]) auto
next
  case timeout
  then show ?thesis
    using clock_next_round [OF assms(3)]
    by (intro stamped_clock [OF assms(2)]) (auto simp: ForceTimeoutRound_def)
next
  case (sync blk e r)
  from ApplySyncedBlock_clock [OF sync(2) assms(3)] show ?thesis
    unfolding sync(1) by (intro stamped_clock [OF assms(2)]) auto
next
  case (replace V e)
  then show ?thesis
    by (intro stamped_clock [OF assms(2)]) (auto simp: ReplaceValSet_def clock_def split: if_splits)
next
  case (setroot root)
  then show ?thesis by (intro stamped_clock [OF assms(2)]) (auto simp: SetProposeRoot_def clock_def)
qed


lemma addPending_eng [simp]: "sEng (addPending l box s) = sEng s"
  by (simp add: addPending_def split: option.splits)

lemma estep_moves:
  assumes "estep c rot s s'" "unwrapped (sEng s)"
  shows "moves (sEng s) (sEng s')"
  using assms
proof (cases rule: estep.cases)
  case (prevote xs pl box ys valid e box' err)
  with enterPrevoteEnd_stamp [OF prevote(3) assms(2)] show ?thesis by (auto simp: fresh_def)
next
  case (vote v e box err)
  with handleVote_fresh [OF vote(2) [unfolded HandleVote_def] assms(2)] show ?thesis
    by (auto simp: fresh_def)
next
  case (built xs l ys blk e box err pl)
  with startRoundBuilt_stamp [OF built(3)] show ?thesis by (simp add: promised_def)
next
  case (proposal p e err pl)
  with HandleProposal_stamp [OF proposal(2)] show ?thesis by (simp add: promised_def)
next
  case (start e l)
  with startRoundBegin_clock [OF start(2)] show ?thesis by simp
next
  case timeout
  then show ?thesis by (simp add: ForceTimeoutRound_def moves_next_round)
next
  case (sync blk e r)
  with ApplySyncedBlock_clock [OF sync(2) assms(2)] show ?thesis by simp
next
  case (replace V e)
  then show ?thesis by (auto simp: ReplaceValSet_def moves_def split: if_splits)
next
  case (setroot root)
  then show ?thesis by (auto simp: SetProposeRoot_def moves_def)
qed

text \<open>Runs short enough that neither 64-bit counter can be exhausted.\<close>

definition short_run :: "('key, 'tx) Engine \<Rightarrow> nat \<Rightarrow> bool" where
  "short_run e n \<longleftrightarrow> unat (eHeight e) + unat (eRound e) + n < 2 ^ 64 - 1"

lemma unat_succ: "unat (w :: u64) + 1 < 2 ^ 64 \<Longrightarrow> unat (w + 1) = unat w + 1 \<and> w + 1 \<noteq> 0"
  using unat_plus_exact [of w 1] by (auto simp: unat_eq_zero)

lemma ereach_stamped:
  assumes "ereach c rot e0 n s" "short_run e0 n"
  shows "stamped s \<and> unat (eRound (sEng s)) \<le> unat (eRound e0) + n \<and>
    unat (eHeight (sEng s)) \<le> unat (eHeight e0) + n"
  using assms
proof (induction rule: ereach.induct)
  case init
  then show ?case by (simp add: stamped_init) (simp add: initSys_def)
next
  case (step n s s')
  then have IH: "stamped s" "unat (eRound (sEng s)) \<le> unat (eRound e0) + n"
    "unat (eHeight (sEng s)) \<le> unat (eHeight e0) + n"
    by (simp_all add: short_run_def)
  then have small: "unat (eRound (sEng s)) + 1 < 2 ^ 64" "unat (eHeight (sEng s)) + 1 < 2 ^ 64"
    using step.prems by (simp_all add: short_run_def)
  then have unw: "unwrapped (sEng s)"
    using unat_succ [OF small(1)] unat_succ [OF small(2)] by (simp add: unwrapped_def)
  have "unat (eRound (sEng s')) \<le> unat (eRound (sEng s)) + 1 \<and>
      unat (eHeight (sEng s')) \<le> unat (eHeight (sEng s)) + 1"
    using estep_moves [OF step.hyps(2) unw] unat_succ [OF small(1)] unat_succ [OF small(2)]
    by (auto simp: moves_def)
  then show ?case
    using IH estep_stamped [OF step.hyps(2) IH(1) unw] by simp
qed

text \<open>C1: under every interleaving of its methods, and whatever messages it receives, an engine
  broadcasts at most one prevote and one precommit for a height and round.  No two votes it sends are
  double-sign evidence.\<close>

theorem engine_never_equivocates:
  assumes "ereach c rot e0 n s" "short_run e0 n" "v \<in> set (sSent s)" "w \<in> set (sSent s)"
  shows "(vtType v = vtType w \<and> vtHeight v = vtHeight w \<and> vtRound v = vtRound w \<longrightarrow> v = w) \<and>
    VerifyDoubleSign c' v w \<noteq> None"
proof -
  have "distinct (map voteStamp (sSent s))"
    using ereach_stamped [OF assms(1,2)] by (simp add: stamped_def stamps_def)
  then have "voteStamp v = voteStamp w \<Longrightarrow> v = w"
    using assms(3,4) by (auto simp: distinct_map dest: inj_onD)
  then have "vtType v = vtType w \<and> vtHeight v = vtHeight w \<and> vtRound v = vtRound w \<longrightarrow> v = w"
    by (simp add: voteStamp_def)
  moreover from this have "VerifyDoubleSign c' v w \<noteq> None"
    by (auto simp: VerifyDoubleSign_None_iff)
  ultimately show ?thesis by simp
qed

end
