(* ===== verification/EngineCommit.thy ===== *)
theory EngineCommit
  imports EngineSafety
begin

text \<open>
  What a commit of the engine proves: while the validator set is not replaced,
  every commit event carries a certificate, a list of verified precommits of
  distinct members whose power is a quorum, and the committed body hashes to the
  certified hash.  Two certificates of one height and round with different hashes
  yield slashable evidence against more than a third of the power.
\<close>


section \<open>Certificates and the engine invariant\<close>

definition cert_ok :: "('key, 'z) cryptoLib_scheme \<Rightarrow> ValidatorSet \<Rightarrow> 'tx CommitEvent \<Rightarrow> bool" where
  "cert_ok c V ev \<longleftrightarrow>
     distinct (map vtValidator (cePrecommits ev)) \<and>
     (\<forall>v\<in>set (cePrecommits ev). VerifyVote c v = None \<and> vtType v = VotePrecommit \<and>
        vtHeight v = ceHeight ev \<and> vtRound v = ceRound ev \<and> vtBlockHash v = ceBlockHash ev \<and>
        vtValidator v \<in> members V) \<and>
     vsHasQuorum V (of_nat (\<Sum>a\<in>vtValidator ` set (cePrecommits ev). memberPower V a)) \<and>
     ceBlockHash ev \<noteq> 0 \<and>
     (\<forall>b. ceBlock ev = Some b \<longrightarrow> blockHash c b = ceBlockHash ev)"

definition votes_ok :: "('key, 'z) cryptoLib_scheme \<Rightarrow> ValidatorSet \<Rightarrow> VoteType \<Rightarrow> u64 \<Rightarrow> u64 \<Rightarrow> voteSet \<Rightarrow> bool" where
  "votes_ok c V typ h r vs \<longleftrightarrow>
     wf_votes V vs \<and> vsetTyp vs = typ \<and> vsetHeight vs = h \<and> vsetRound vs = r \<and>
     (\<forall>(a, v)\<in>set (vsetByAddr vs). VerifyVote c v = None)"

definition engine_ok :: "('key, 'z) cryptoLib_scheme \<Rightarrow> ValidatorSet \<Rightarrow> ('key, 'tx) Engine \<Rightarrow> bool" where
  "engine_ok c V e \<longleftrightarrow>
     eValSet e = V \<and> eAddress e = pubkeyAddress c (eKey e) \<and> pubkeyAddress c (eKey e) \<in> members V \<and>
     votes_ok c V VotePrevote (eHeight e) (eRound e) (ePrevotes e) \<and>
     votes_ok c V VotePrecommit (eHeight e) (eRound e) (ePrecommits e) \<and>
     (\<forall>p b. eProposal e = Some p \<longrightarrow> pBlock p = Some b \<longrightarrow> blockHash c b = pBlockHash p)"

lemma votes_ok_new [simp]: "votes_ok c V typ h r (newVoteSet typ h r)"
  by (simp add: votes_ok_def) (simp add: newVoteSet_def)

lemma votes_ok_add:
  assumes "wf_vs V" "votes_ok c V typ h r vs" "VerifyVote c v = None" "vtValidator v \<in> members V"
  shows "votes_ok c V typ h r (fst (vsetAdd vs v (PowerOf V (vtValidator v))))"
  using assms wf_votes_add [OF assms(1) _ assms(4), of vs]
  by (auto simp: votes_ok_def vsetAdd_def)

lemma engine_ok_reset:
  assumes "engine_ok c V e" "eValSet e' = eValSet e" "eAddress e' = eAddress e" "eKey e' = eKey e"
  shows "engine_ok c V (resetVotes e')"
  using assms by (simp add: engine_ok_def)

lemma engine_ok_step [simp]: "engine_ok c V (e\<lparr>eStep := st\<rparr>) = engine_ok c V e"
  by (simp add: engine_ok_def)

lemma engine_ok_lockOn [simp]: "engine_ok c V (lockOn e polka) = engine_ok c V e"
  by (simp add: engine_ok_def)

lemma engine_ok_next_round: "engine_ok c V e \<Longrightarrow> engine_ok c V (enterNextRoundLocked e)"
  by (simp add: enterNextRoundLocked_def engine_ok_reset)

lemma engine_ok_addPrevote:
  assumes "wf_vs V" "engine_ok c V e" "VerifyVote c v = None" "vtValidator v \<in> members V"
  shows "engine_ok c V (fst (addPrevoteLocked e v))"
  using assms votes_ok_add [OF assms(1) _ assms(3,4), of VotePrevote "eHeight e" "eRound e" "ePrevotes e"]
  by (simp add: engine_ok_def addPrevoteLocked_def case_prod_beta)

lemma engine_ok_addPrecommit:
  assumes "wf_vs V" "engine_ok c V e" "VerifyVote c v = None" "vtValidator v \<in> members V"
  shows "engine_ok c V (fst (addPrecommitLocked e v))"
  using assms votes_ok_add [OF assms(1) _ assms(3,4), of VotePrecommit "eHeight e" "eRound e" "ePrecommits e"]
  by (simp add: engine_ok_def addPrecommitLocked_def case_prod_beta)

lemma voters_of_votes:
  "\<forall>(a, v)\<in>set xs. vtValidator v = a \<Longrightarrow>
   map vtValidator (filter P (map snd xs)) = map fst (filter (\<lambda>(a, v). P v) xs)"
  by (induction xs) auto

text \<open>The precommits collected for a hash with a quorum are a certificate.\<close>

lemma votesFor_certificate:
  assumes "quorum_safe V" "votes_ok c V VotePrecommit h r vs" "majorityHash vs (vsTotalPower V) = Some bh"
    "bh \<noteq> 0" "\<forall>b. blk = Some b \<longrightarrow> blockHash c b = bh"
  shows "cert_ok c V \<lparr>ceHeight = h, ceRound = r, ceBlockHash = bh, ceBlock = blk,
    cePrecommits = votesFor vs bh\<rparr>"
proof -
  have wf: "wf_votes V vs" using assms(2) by (simp add: votes_ok_def)
  have "map vtValidator (votesFor vs bh) = votersFor vs bh"
  proof -
    have "\<forall>(a, v)\<in>set (vsetByAddr vs). vtValidator v = a" using wf by (auto simp: wf_votes_def)
    then show ?thesis
      unfolding votesFor_def votersFor_def by (rule voters_of_votes)
  qed
  then have "vtValidator ` set (votesFor vs bh) = set (votersFor vs bh)" "distinct (map vtValidator (votesFor vs bh))"
    using wf_votes_sums(2) [OF _ wf, of bh] assms(1) by (simp_all add: quorum_safe_def flip: list.set_map)
  moreover have "vsHasQuorum V (of_nat (\<Sum>a\<in>set (votersFor vs bh). memberPower V a))"
    using assms(3) majorityHash_iff [OF assms(1) wf] powerFor_quorum [OF assms(1) wf] by simp
  ultimately show ?thesis
    using assms(2,4,5) wf by (auto simp: cert_ok_def votes_ok_def wf_votes_def votesFor_def)
qed


section \<open>Preservation\<close>

text \<open>What a critical section keeps: the invariant, the key, and that a new commit is certified.\<close>

definition keeps :: "('key, 'z) cryptoLib_scheme \<Rightarrow> ValidatorSet \<Rightarrow> ('key, 'tx) Engine \<Rightarrow> 'tx outbox
    \<Rightarrow> ('key, 'tx) Engine \<Rightarrow> 'tx outbox \<Rightarrow> bool" where
  "keeps c V e box e' box' \<longleftrightarrow> engine_ok c V e' \<and> eKey e' = eKey e \<and>
     (obCommit box' = obCommit box \<or>
      (\<exists>ev. obCommit box' = Some ev \<and> cert_ok c V ev \<and> ceHeight ev = eHeight e \<and> eHeight e' = eHeight e + 1))"

lemma keeps_refl: "engine_ok c V e \<Longrightarrow> keeps c V e box e box"
  by (simp add: keeps_def)

lemma enterCommit_keeps:
  assumes "quorum_safe V" "engine_ok c V e" "majorityHash (ePrecommits e) (vsTotalPower V) = Some bh"
    "bh \<noteq> 0" "enterCommitLocked e bh box = (e', box', err)"
  shows "keeps c V e box e' box'"
proof (cases "\<not> eCommitted e \<and> (\<exists>p. eProposal e = Some p \<and> pBlockHash p = bh)")
  case True
  then obtain p where p: "\<not> eCommitted e" "eProposal e = Some p" "pBlockHash p = bh" by blast
  have "cert_ok c V \<lparr>ceHeight = eHeight e, ceRound = eRound e, ceBlockHash = bh, ceBlock = pBlock p,
      cePrecommits = votesFor (ePrecommits e) bh\<rparr>"
    using assms(1-4) p by (intro votesFor_certificate) (auto simp: engine_ok_def)
  then show ?thesis
    using assms(2,5) p by (auto simp: keeps_def enterCommitLocked_def Let_def intro!: engine_ok_reset [OF assms(2)])
next
  case False
  then have "e' = e" "box' = box"
    using assms(5) by (auto simp: enterCommitLocked_def split: if_splits option.splits)
  then show ?thesis using assms(2) by (simp add: keeps_refl)
qed

lemma tryAfterPrecommit_keeps:
  assumes "quorum_safe V" "engine_ok c V e" "tryAfterPrecommitLocked e box = (e', box', err)"
  shows "keeps c V e box e' box'"
proof -
  have "eValSet e = V" using assms(2) by (simp add: engine_ok_def)
  consider "e' = e" "box' = box" | "e' = enterNextRoundLocked e" "box' = box"
    | bh where "majorityHash (ePrecommits e) (vsTotalPower V) = Some bh" "bh \<noteq> 0"
        "enterCommitLocked e bh box = (e', box', err)"
    using assms(3) \<open>eValSet e = V\<close>
    by (auto simp: tryAfterPrecommitLocked_def split: if_splits option.splits)
  then show ?thesis
    using assms(2) enterCommit_keeps [OF assms(1,2)] engine_ok_next_round [OF assms(2)]
    by cases (auto simp: keeps_def enterNextRoundLocked_def)
qed

lemma own_vote_ok:
  assumes "signatures_recover c" "engine_ok c V e" "SignVote c v0 key = Inr v" "key = eKey e"
    "vtType v0 = VotePrevote \<or> vtType v0 = VotePrecommit"
  shows "VerifyVote c v = None" "vtValidator v \<in> members V"
  using assms SignVote_verifies [OF assms(1,3,5)] SignVote_fields(5) [OF assms(3)]
  by (simp_all add: engine_ok_def)

lemma enterPrecommit_keeps:
  assumes "signatures_recover c" "quorum_safe V" "engine_ok c V e"
    "enterPrecommitLocked c e polka box = (e', box', err)"
  shows "keeps c V e box e' box'"
  using assms(4)
proof (cases rule: enterPrecommit_cases)
  case sign
  then show ?thesis using assms(3) by (simp add: keeps_def)
next
  case (cast v)
  have V: "wf_vs V" using assms(2) by (simp add: quorum_safe_def)
  have "VerifyVote c v = None" "vtValidator v \<in> members V"
    using own_vote_ok [OF assms(1,3) cast(1)] by simp_all
  then have "engine_ok c V (fst (addPrecommitLocked (lockOn e polka) v))"
    using assms(3) by (intro engine_ok_addPrecommit [OF V]) simp_all
  from tryAfterPrecommit_keeps [OF assms(2) this cast(2)] show ?thesis
    by (simp add: keeps_def boxVote_def)
qed

lemma tryAfterPrevote_keeps:
  assumes "signatures_recover c" "quorum_safe V" "engine_ok c V e"
    "tryAfterPrevoteLocked c e box = (e', box', err)"
  shows "keeps c V e box e' box'"
  using assms enterPrecommit_keeps [OF assms(1-3)]
  by (auto simp: tryAfterPrevoteLocked_def keeps_refl split: if_splits option.splits)

lemma keeps_addPrevote:
  "keeps c V (fst (addPrevoteLocked e v)) box e' box' = keeps c V e box e' box'"
  "keeps c V (fst (addPrecommitLocked e v)) box e' box' = keeps c V e box e' box'"
  by (simp_all add: keeps_def)

lemma handleVote_keeps:
  assumes "signatures_recover c" "quorum_safe V" "engine_ok c V e"
    "handleVoteLocked c e v box = (e', box', err)"
  shows "keeps c V e box e' box'"
proof -
  have V: "wf_vs V" "eValSet e = V" using assms(2,3) by (simp_all add: quorum_safe_def engine_ok_def)
  show ?thesis
  proof (cases "vtHeight v = eHeight e \<and> VerifyVote c v = None \<and> vsGet V (vtValidator v) \<noteq> None")
    case False
    then have "e' = e" "box' = box"
      using assms(4) V by (auto simp: handleVoteLocked_def split: if_splits option.splits)
    then show ?thesis using assms(3) by (simp add: keeps_refl)
  next
    case True
    then have v: "VerifyVote c v = None" "vtValidator v \<in> members V"
      using vsGet_None [OF V(1)] by auto
    note ok = engine_ok_addPrevote [OF V(1) assms(3) v] engine_ok_addPrecommit [OF V(1) assms(3) v]
    consider "e' = e" "box' = box"
      | "e' = fst (addPrevoteLocked e v) \<or> e' = fst (addPrecommitLocked e v)" "box' = box"
      | "tryAfterPrevoteLocked c (fst (addPrevoteLocked e v)) box = (e', box', err)"
      | "tryAfterPrecommitLocked (fst (addPrecommitLocked e v)) box = (e', box', err)"
      using assms(4) True V
      by (auto simp: handleVoteLocked_def case_prod_beta Let_def split: if_splits)
    then show ?thesis
      using assms(3) ok tryAfterPrevote_keeps [OF assms(1,2) ok(1)] tryAfterPrecommit_keeps [OF assms(2) ok(2)]
      by cases (auto simp: keeps_addPrevote keeps_refl, auto simp: keeps_def)
  qed
qed


lemma enterPrevoteEnd_keeps:
  assumes "signatures_recover c" "quorum_safe V" "engine_ok c V e" "plKey pl = eKey e"
    "enterPrevoteEnd c valid e pl box = (e', box', err)"
  shows "keeps c V e box e' box'"
proof -
  have V: "wf_vs V" using assms(2) by (simp add: quorum_safe_def)
  let ?v0 = "\<lparr>vtType = VotePrevote, vtHeight = plHeight pl, vtRound = plRound pl,
    vtBlockHash = prevoteHash pl valid, vtValidator = plAddr pl, vtSignature = []\<rparr>"
  consider "e' = e" "box' = box"
    | v where "SignVote c ?v0 (plKey pl) = Inr v"
        "tryAfterPrevoteLocked c (fst (addPrevoteLocked e v)) (boxVote v box) = (e', box', err)"
    using assms(5) by (auto simp: enterPrevoteEnd_def split: sum.splits if_splits)
  then show ?thesis
  proof cases
    case 1 then show ?thesis using assms(3) by (simp add: keeps_refl)
  next
    case (2 v)
    have "VerifyVote c v = None" "vtValidator v \<in> members V"
      using own_vote_ok [OF assms(1,3) 2(1) assms(4)] by simp_all
    from tryAfterPrevote_keeps [OF assms(1,2) engine_ok_addPrevote [OF V assms(3) this] 2(2)]
    show ?thesis by (simp add: keeps_def boxVote_def)
  qed
qed

lemma enterPrevoteBegin_keeps:
  assumes "engine_ok c V e" "enterPrevoteBegin e = (e', l)"
  shows "engine_ok c V e' \<and> eKey e' = eKey e \<and> (\<forall>pl. l = Some pl \<longrightarrow> plKey pl = eKey e)"
  using assms by (auto simp: enterPrevoteBegin_def split: if_splits)

lemma engine_ok_proposal:
  assumes "engine_ok c V e" "\<forall>b. pBlock p = Some b \<longrightarrow> blockHash c b = pBlockHash p"
  shows "engine_ok c V (e\<lparr>eProposal := Some p\<rparr>)"
  using assms by (simp add: engine_ok_def)

lemma startRoundBuilt_keeps:
  assumes "engine_ok c V e" "startRoundBuilt c e l blk = (e', box, err, pl)"
  shows "engine_ok c V e' \<and> eKey e' = eKey e \<and> (\<forall>q. pl = Some q \<longrightarrow> plKey q = eKey e)"
proof -
  consider "e' = e" "pl = None"
    | p where "enterPrevoteBegin (e\<lparr>eProposal := Some p\<rparr>) = (e', pl)"
        "\<forall>b. pBlock p = Some b \<longrightarrow> blockHash c b = pBlockHash p"
    using assms(2)
    by (auto simp: startRoundBuilt_def SignProposal_def case_prod_beta Let_def
        split: if_splits option.splits sum.splits)
  then show ?thesis
  proof cases
    case (2 p)
    from enterPrevoteBegin_keeps [OF engine_ok_proposal [OF assms(1) 2(2)] 2(1)] show ?thesis by simp
  qed (simp add: assms(1))
qed

lemma HandleProposal_keeps:
  assumes "engine_ok c V e" "HandleProposal c e p = (e', err, pl)"
  shows "engine_ok c V e' \<and> eKey e' = eKey e \<and> (\<forall>q. pl = Some q \<longrightarrow> plKey q = eKey e)"
proof -
  consider "e' = e" "pl = None"
    | "enterPrevoteBegin (e\<lparr>eProposal := Some p\<rparr>) = (e', pl)"
        "\<forall>b. pBlock p = Some b \<longrightarrow> blockHash c b = pBlockHash p"
    using assms(2) by (auto simp: HandleProposal_def case_prod_beta Let_def split: if_splits option.splits)
  then show ?thesis
  proof cases
    case 2
    from enterPrevoteBegin_keeps [OF engine_ok_proposal [OF assms(1) 2(2)] 2(1)] show ?thesis by simp
  qed (simp add: assms(1))
qed

lemma ApplySyncedBlock_keeps:
  assumes "engine_ok c V e" "ApplySyncedBlock c e blk = (e', r)"
  shows "engine_ok c V e' \<and> eKey e' = eKey e"
proof (cases "e' = e")
  case False
  then show ?thesis
    using assms by (auto simp: ApplySyncedBlock_def Let_def engine_ok_def split: if_splits)
qed (simp add: assms(1))

definition sys_ok :: "('key, 'z) cryptoLib_scheme \<Rightarrow> ValidatorSet \<Rightarrow> 'key \<Rightarrow> ('key, 'tx) sys \<Rightarrow> bool" where
  "sys_ok c V key s \<longleftrightarrow> engine_ok c V (sEng s) \<and> eKey (sEng s) = key \<and>
     (\<forall>(pl, box)\<in>set (sPrevotes s). plKey pl = key \<and> obCommit box = None) \<and>
     (\<forall>ev\<in>set (sCommits s). cert_ok c V ev)"

lemma sys_ok_addPending:
  assumes "sys_ok c V key s" "engine_ok c V (sEng t)" "eKey (sEng t) = key" "sPrevotes t = sPrevotes s"
    "sCommits t = sCommits s" "\<forall>q. pl = Some q \<longrightarrow> plKey q = key" "obCommit box = None"
  shows "sys_ok c V key (addPending pl box t)"
  using assms by (cases pl) (auto simp: sys_ok_def addPending_def)

lemma estep_sys_ok:
  assumes "estep c False s s'" "sys_ok c V key s" "signatures_recover c" "quorum_safe V"
  shows "sys_ok c V key s'"
proof -
  have ok: "engine_ok c V (sEng s)" "eKey (sEng s) = key" using assms(2) by (simp_all add: sys_ok_def)
  from assms(1) show ?thesis
  proof (cases rule: estep.cases)
    case (start e l)
    then have "e = (resetVotes (sEng s))\<lparr>eStep := StepPropose\<rparr>"
      by (auto simp: startRoundBegin_def Let_def split: if_splits)
    then have "engine_ok c V e \<and> eKey e = key" using engine_ok_reset [OF ok(1), of "sEng s"] ok(2) by simp
    then show ?thesis using assms(2) start(1) by (simp add: sys_ok_def)
  next
    case (built xs l ys blk e box err pl)
    from startRoundBuilt_keeps [OF ok(1) built(3)] startRoundBuilt_stamp [OF built(3)] show ?thesis
      unfolding built(1) using ok by (intro sys_ok_addPending [OF assms(2)]) auto
  next
    case (proposal p e err pl)
    from HandleProposal_keeps [OF ok(1) proposal(2)] show ?thesis
      unfolding proposal(1) using ok by (intro sys_ok_addPending [OF assms(2)]) (auto simp: emptyBox_def)
  next
    case (prevote xs pl box ys valid e box' err)
    have pl: "plKey pl = eKey (sEng s)" "obCommit box = None"
      using assms(2) prevote(2) ok by (auto simp: sys_ok_def)
    from enterPrevoteEnd_keeps [OF assms(3,4) ok(1) pl(1) prevote(3)] show ?thesis
      unfolding prevote(1) using assms(2) prevote(2) pl(2) by (auto simp: sys_ok_def keeps_def)
  next
    case (vote v e box err)
    from handleVote_keeps [OF assms(3,4) ok(1) vote(2) [unfolded HandleVote_def]] show ?thesis
      unfolding vote(1) using assms(2) by (auto simp: sys_ok_def keeps_def emptyBox_def)
  next
    case timeout
    then show ?thesis
      using assms(2) engine_ok_next_round [OF ok(1)]
      by (simp add: sys_ok_def ForceTimeoutRound_def) (simp add: enterNextRoundLocked_def)
  next
    case (sync blk e r)
    from ApplySyncedBlock_keeps [OF ok(1) sync(2)] show ?thesis
      unfolding sync(1) using assms(2) by (auto simp: sys_ok_def)
  next
    case (setroot root)
    then show ?thesis using assms(2) by (auto simp: sys_ok_def SetProposeRoot_def engine_ok_def)
  qed simp
qed

lemma NewEngine_ok:
  assumes "wf_vs V" "NewEngine c key V parent root = Inr e"
  shows "engine_ok c V e \<and> eKey e = key"
  using assms vsGet_None [OF assms(1)]
  by (auto simp: NewEngine_def Let_def engine_ok_def split: if_splits)

lemma ereach_sys_ok:
  assumes "ereach c False e0 n s" "NewEngine c key V parent root = Inr e0" "signatures_recover c" "quorum_safe V"
  shows "sys_ok c V key s"
  using assms(1)
proof (induction rule: ereach.induct)
  case init
  have "engine_ok c V e0 \<and> eKey e0 = key"
    using assms(4) by (intro NewEngine_ok [OF _ assms(2)]) (simp add: quorum_safe_def)
  then show ?case by (simp add: sys_ok_def initSys_def)
next
  case (step n s s')
  then show ?case using assms(3,4) by (blast intro: estep_sys_ok)
qed


section \<open>One commit per height\<close>

lemma estep_commits:
  assumes "estep c False s s'" "sys_ok c V key s" "signatures_recover c" "quorum_safe V"
  shows "sCommits s' = sCommits s \<or>
    (\<exists>ev. sCommits s' = sCommits s @ [ev] \<and> ceHeight ev = eHeight (sEng s) \<and>
       eHeight (sEng s') = eHeight (sEng s) + 1)"
proof -
  have ok: "engine_ok c V (sEng s)" "eKey (sEng s) = key" using assms(2) by (simp_all add: sys_ok_def)
  from assms(1) show ?thesis
  proof (cases rule: estep.cases)
    case (built xs l ys blk e box err pl)
    from startRoundBuilt_stamp [OF built(3)] show ?thesis
      unfolding built(1) by (auto simp: addPending_def split: option.splits)
  next
    case (prevote xs pl box ys valid e box' err)
    have pl: "plKey pl = eKey (sEng s)" "obCommit box = None"
      using assms(2) prevote(2) ok by (auto simp: sys_ok_def)
    from enterPrevoteEnd_keeps [OF assms(3,4) ok(1) pl(1) prevote(3)] pl(2) show ?thesis
      unfolding prevote(1) by (auto simp: keeps_def)
  next
    case (vote v e box err)
    from handleVote_keeps [OF assms(3,4) ok(1) vote(2) [unfolded HandleVote_def]] show ?thesis
      unfolding vote(1) by (auto simp: keeps_def emptyBox_def)
  qed (auto simp: addPending_def emptyBox_def split: option.splits)
qed

lemma ereach_commit_heights:
  assumes "ereach c False e0 n s" "NewEngine c key V parent root = Inr e0" "signatures_recover c"
    "quorum_safe V" "short_run e0 n"
  shows "sorted_wrt (<) (map (unat \<circ> ceHeight) (sCommits s)) \<and>
    (\<forall>ev\<in>set (sCommits s). unat (ceHeight ev) < unat (eHeight (sEng s)))"
  using assms(1,5)
proof (induction rule: ereach.induct)
  case init
  then show ?case by (simp add: initSys_def)
next
  case (step n s s')
  then have short: "short_run e0 n" by (simp add: short_run_def)
  note IH = step.IH [OF short]
  have bnd: "unat (eRound (sEng s)) + 1 < 2 ^ 64" "unat (eHeight (sEng s)) + 1 < 2 ^ 64"
    using ereach_stamped [OF step.hyps(1) short] step.prems by (simp_all add: short_run_def)
  have unw: "unwrapped (sEng s)"
    using unat_succ [OF bnd(1)] unat_succ [OF bnd(2)] by (simp add: unwrapped_def)
  have mono: "unat (eHeight (sEng s)) \<le> unat (eHeight (sEng s'))"
    using estep_moves [OF step.hyps(2) unw] unat_succ [OF bnd(2)] by (auto simp: moves_def)
  from estep_commits [OF step.hyps(2) ereach_sys_ok [OF step.hyps(1) assms(2-4)] assms(3,4)]
  show ?case
    using IH mono unat_succ [OF bnd(2)] by (fastforce simp: sorted_wrt_append)
qed


section \<open>Certified commits and accountable safety\<close>

text \<open>C3: in a run that never replaces the validator set (no call of \<^verbatim>\<open>ReplaceValSet\<close>), and for an
  initial set whose tripled total power fits 64 bits, every commit of an engine, under every interleaving
  and every message, carries a certificate: verified precommits for the committed hash at that height and
  round from distinct members of the initial set that pass the quorum test, and a block body that hashes
  to the certified hash.  A run that rotates the set in the middle of a height is outside the claim: the
  votes counted before the rotation keep the power of the old set.\<close>

theorem commits_are_certified:
  assumes "NewEngine c key V parent root = Inr e0" "signatures_recover c" "quorum_safe V"
    "ereach c False e0 n s" "ev \<in> set (sCommits s)"
  shows "cert_ok c V ev"
  using ereach_sys_ok [OF assms(4,1,2,3)] assms(5) by (simp add: sys_ok_def)

text \<open>C4: in the same runs, too short to exhaust the height or round counter, an engine commits at most one
  block per height, under every interleaving and every message.\<close>

theorem one_commit_per_height:
  assumes "NewEngine c key V parent root = Inr e0" "signatures_recover c" "quorum_safe V"
    "ereach c False e0 n s" "short_run e0 n"
    "ev1 \<in> set (sCommits s)" "ev2 \<in> set (sCommits s)" "ceHeight ev1 = ceHeight ev2"
  shows "ev1 = ev2"
proof -
  have "distinct (map (unat \<circ> ceHeight) (sCommits s))"
    using ereach_commit_heights [OF assms(4,1,2,3,5)] by (simp add: strict_sorted_iff)
  then show ?thesis using assms(6-8) by (auto simp: distinct_map inj_on_def)
qed

text \<open>C2: for a validator set whose tripled total power fits 64 bits: if two commits of one height and
  round, both certified by that set, name different blocks, then members with more than a third of the
  power signed precommits in both certificates, and each of them is convicted by the double-sign
  check.\<close>

theorem conflicting_commits_are_slashable:
  assumes "quorum_safe V" "cert_ok c V ev1" "cert_ok c V ev2" "ceHeight ev1 = ceHeight ev2"
    "ceRound ev1 = ceRound ev2" "ceBlockHash ev1 \<noteq> ceBlockHash ev2"
  shows "\<exists>D. D \<subseteq> members V \<and> unat (vsTotalPower V) < 3 * (\<Sum>a\<in>D. memberPower V a) \<and>
    (\<forall>a\<in>D. \<exists>v\<in>set (cePrecommits ev1). \<exists>w\<in>set (cePrecommits ev2).
       VerifyDoubleSign c v w = None \<and> Offender \<lparr>evVoteA = v, evVoteB = w\<rparr> = a)"
proof -
  let ?A = "vtValidator ` set (cePrecommits ev1)" and ?B = "vtValidator ` set (cePrecommits ev2)"
  have sub: "?A \<subseteq> members V" "?B \<subseteq> members V"
    and q: "vsHasQuorum V (of_nat (\<Sum>a\<in>?A. memberPower V a))" "vsHasQuorum V (of_nat (\<Sum>a\<in>?B. memberPower V a))"
    using assms(2,3) by (auto simp: cert_ok_def)
  note overlap = vq.quorum_overlap [OF assms(1) sub q]
  have evid: "\<exists>v\<in>set (cePrecommits ev1). \<exists>w\<in>set (cePrecommits ev2).
      VerifyDoubleSign c v w = None \<and> Offender \<lparr>evVoteA = v, evVoteB = w\<rparr> = a" if "a \<in> ?A \<inter> ?B" for a
  proof -
    from that obtain v w where "v \<in> set (cePrecommits ev1)" "w \<in> set (cePrecommits ev2)"
      "vtValidator v = a" "vtValidator w = a" by auto
    moreover from this have "VerifyDoubleSign c v w = None"
      using assms(2-6) by (simp add: VerifyDoubleSign_None_iff cert_ok_def)
    ultimately show ?thesis by (auto simp: Offender_def)
  qed
  show ?thesis
    by (rule exI [of _ "?A \<inter> ?B"], intro conjI ballI, use sub in blast, rule overlap, erule evid)
qed


section \<open>The lock across rounds\<close>

lemma enterCommit_votes: "enterCommitLocked e bh box = (e', box', err) \<Longrightarrow> obVotes box' = obVotes box"
  by (auto simp: enterCommitLocked_def Let_def split: if_splits option.splits)

lemma tryAfterPrecommit_votes:
  "tryAfterPrecommitLocked e box = (e', box', err) \<Longrightarrow> obVotes box' = obVotes box"
  by (auto simp: tryAfterPrecommitLocked_def split: if_splits option.splits dest: enterCommit_votes)

lemma tryAfterPrevote_votes:
  assumes "tryAfterPrevoteLocked c e box = (e', box', err)"
  shows "\<exists>rest. obVotes box' = obVotes box @ rest"
proof -
  consider "box' = box" | polka where "enterPrecommitLocked c e polka box = (e', box', err)"
    using assms by (auto simp: tryAfterPrevoteLocked_def split: if_splits option.splits)
  then show ?thesis
  proof cases
    case (2 polka)
    then show ?thesis
      by (cases rule: enterPrecommit_cases) (auto simp: boxVote_def dest!: tryAfterPrecommit_votes)
  qed simp
qed

text \<open>C11: a round change discards the lock.  Whatever block the engine had locked, after a timeout it
  prevotes the next valid proposal of the height.\<close>

theorem timeout_discards_lock:
  assumes "VerifyProposal c p = None" "pBlock p = Some b" "blockHash c b = pBlockHash p"
    "pHeight p = eHeight e" "pRound p = eRound e + 1"
    "pProposer p = Proposer (eValSet e) (eHeight e) (eRound e + 1)"
    "valid (eHeight e) (eParent e) b"
    "ecSign c (VoteSignBytes c VotePrevote (eHeight e) (eRound e + 1) (pBlockHash p)) (eKey e) \<noteq> None"
    "runHandleProposal c valid (ForceTimeoutRound e) p = (e', box, err)"
  shows "\<exists>v rest. obVotes box = v # rest \<and> vtType v = VotePrevote \<and> vtHeight v = eHeight e \<and>
    vtRound v = eRound e + 1 \<and> vtBlockHash v = pBlockHash p"
proof -
  let ?e1 = "(ForceTimeoutRound e)\<lparr>eProposal := Some p, eStep := StepPrevote\<rparr>"
  let ?l = "\<lparr>plHeight = eHeight e, plRound = eRound e + 1, plParent = eParent e, plProp = Some p,
    plLockedRound = -1, plLockedHash = 0, plAddr = eAddress e, plKey = eKey e\<rparr>"
  have hp: "HandleProposal c (ForceTimeoutRound e) p = (?e1, None, Some ?l)"
    using assms(1-6)
    by (simp add: HandleProposal_def enterPrevoteBegin_def ForceTimeoutRound_def enterNextRoundLocked_def
        resetVotes_def)
  have ph: "prevoteHash ?l valid = pBlockHash p" using assms(2,7) by (simp add: prevoteHash_def)
  obtain v where v: "SignVote c \<lparr>vtType = VotePrevote, vtHeight = eHeight e, vtRound = eRound e + 1,
      vtBlockHash = pBlockHash p, vtValidator = eAddress e, vtSignature = []\<rparr> (eKey e) = Inr v"
    using assms(8) by (auto simp: SignVote_def split: option.splits)
  have "tryAfterPrevoteLocked c (fst (addPrevoteLocked ?e1 v)) (boxVote v emptyBox) = (e', box, err)"
    using assms(9) hp ph v
    by (simp add: runHandleProposal_def enterPrevoteEnd_def ForceTimeoutRound_def enterNextRoundLocked_def)
  from tryAfterPrevote_votes [OF this] show ?thesis
    using SignVote_fields [OF v] by (auto simp: boxVote_def emptyBox_def)
qed

end
