(* ===== verification/EngineRun.thy ===== *)
theory EngineRun
  imports EngineCommit
begin

text \<open>
  Concrete executions of the engine: the steps as functions, a run of the third
  of three validators from genesis to a commit, and the witnesses of the
  properties of EngineSafety and EngineCommit on it.
\<close>

text \<open>The steps as functions, for executions.\<close>

definition doVote :: "('key, 'z) cryptoLib_scheme \<Rightarrow> Vote \<Rightarrow> ('key, 'tx) sys \<Rightarrow> ('key, 'tx) sys" where
  "doVote c v s = (case HandleVote c (sEng s) v of (e, box, err) \<Rightarrow> flushBox box (s\<lparr>sEng := e\<rparr>))"

definition doProposal :: "('key, 'z) cryptoLib_scheme \<Rightarrow> 'tx Proposal \<Rightarrow> ('key, 'tx) sys \<Rightarrow> ('key, 'tx) sys" where
  "doProposal c p s =
    (case HandleProposal c (sEng s) p of (e, err, pl) \<Rightarrow> addPending pl emptyBox (s\<lparr>sEng := e\<rparr>))"

definition doPrevote :: "('key, 'z) cryptoLib_scheme \<Rightarrow> (u64 \<Rightarrow> Header \<Rightarrow> 'tx Block \<Rightarrow> bool)
    \<Rightarrow> ('key, 'tx) sys \<Rightarrow> ('key, 'tx) sys option" where
  "doPrevote c valid s =
    (case sPrevotes s of
       [] \<Rightarrow> None
     | (pl, box) # ys \<Rightarrow>
         (case enterPrevoteEnd c valid (sEng s) pl box of
            (e, box', err) \<Rightarrow> Some (flushBox box' (s\<lparr>sEng := e, sPrevotes := ys\<rparr>))))"

lemma estep_doVote: "estep c rot s (doVote c v s)"
  by (auto simp: doVote_def split: prod.splits intro: estep.vote)

lemma estep_doProposal: "estep c rot s (doProposal c p s)"
  by (auto simp: doProposal_def split: prod.splits intro: estep.proposal)

lemma estep_doPrevote: "doPrevote c valid s = Some s' \<Longrightarrow> estep c rot s s'"
  by (auto simp: doPrevote_def split: prod.splits list.splits
      intro: estep.prevote [where xs = "[]", simplified])

definition exParent :: Header where
  "exParent = \<lparr>hdParentHash = 0, hdStateRoot = 0, hdTxRoot = 0, hdReceiptRoot = 0, hdNumber = 4,
     hdTimestamp = 0, hdGasLimit = 0, hdGasUsed = 0, hdBaseFee = None, hdExtraData = [], hdProposer = 0\<rparr>"

definition exEngine :: "(address, unit) Engine" where
  "exEngine = \<lparr>eAddress = 13, eKey = 13, eValSet = exSet, eHeight = 5, eRound = 0,
     eStep = StepNewRound, eParent = exParent, eProposal = None,
     ePrevotes = newVoteSet VotePrevote 5 0, ePrecommits = newVoteSet VotePrecommit 5 0,
     eLockedRound = -1, eLockedHash = 0, eProposeRoot = 0, eCommitted = False, eLastCommit = None\<rparr>"

lemma exEngine_new: "NewEngine exCrypto 13 exSet exParent 0 = Inr exEngine"
  by (simp add: NewEngine_def exEngine_def exParent_def resetVotes_def Let_def exCrypto_def vsGet_def exSet_def)

definition exProposal :: "unit Proposal" where
  "exProposal = \<lparr>pHeight = 5, pRound = 0, pBlockHash = 77, pBlock = None, pProposer = 12,
     pSignature = addrBytes 12 @ replicate 13 0 @ hashBytes 77\<rparr>"

definition exRun :: "(address, unit) sys" where
  "exRun = doVote exCrypto (exVote VotePrecommit 77 11)
     (doVote exCrypto (exVote VotePrevote 77 12)
     (doVote exCrypto (exVote VotePrevote 77 11)
     (the (doPrevote exCrypto (\<lambda>_ _ _. True)
     (doProposal exCrypto exProposal (initSys exEngine))))))"


lemma exSet_lookup [simp]:
  "vsGet exSet 11 = Some \<lparr>vAddress = 11, vPower = 4\<rparr>" "vsGet exSet 12 = Some \<lparr>vAddress = 12, vPower = 3\<rparr>"
  "vsGet exSet 13 = Some \<lparr>vAddress = 13, vPower = 3\<rparr>" "vsTotalPower exSet = 10"
  by (simp_all add: vsGet_def exSet_def exVals_def)

lemma exVote_fields [simp]:
  "vtType (exVote typ bh a) = typ" "vtHeight (exVote typ bh a) = 5" "vtRound (exVote typ bh a) = 0"
  "vtBlockHash (exVote typ bh a) = bh" "vtValidator (exVote typ bh a) = a"
  by (simp_all add: exVote_def)

lemma exCrypto_ecSign:
  "length d = 32 \<Longrightarrow> ecSign exCrypto d k = Some (addrBytes k @ replicate 13 0 @ d)"
  by (simp add: exCrypto_def)

lemma exCrypto_SignVote [simp]:
  "SignVote exCrypto v k = Inr (v\<lparr>vtSignature := addrBytes k @ replicate 13 0 @ hashBytes (vtBlockHash v),
     vtValidator := k\<rparr>)"
proof -
  have "ecSign exCrypto (hashBytes (vtBlockHash v)) k = Some (addrBytes k @ replicate 13 0 @ hashBytes (vtBlockHash v))"
    "pubkeyAddress exCrypto k = k"
    by (simp_all add: exCrypto_def)
  then show ?thesis by (simp add: SignVote_def)
qed

lemma exCrypto_ProposalSignBytes [simp]: "ProposalSignBytes exCrypto h r bh = hashBytes bh"
proof -
  have "rlpEncode exCrypto (RList [RString proposalDomain, RUint (unat h), RUint (unat r), RBytes (hashBytes bh)])
      = [] @ hashBytes bh"
    by (simp add: exCrypto_def)
  then show ?thesis unfolding ProposalSignBytes_def by (simp only: exCrypto_keccak)
qed

lemma exProposal_verifies [simp]: "VerifyProposal exCrypto exProposal = None"
  by (simp add: VerifyProposal_def exProposal_def) (simp add: exCrypto_def pubkeyBytesToAddress_def)

lemma exProposer [simp]: "Proposer exSet 5 0 = 12"
  by (simp add: Proposer_def ProposerIndex_def exSet_def exVals_def)

lemmas engine_eval = HandleVote_def handleVoteLocked_def addPrevoteLocked_def addPrecommitLocked_def
  tryAfterPrevoteLocked_def tryAfterPrecommitLocked_def enterPrecommitLocked_def enterCommitLocked_def
  majorityHash_def HasQuorum_def PowerOf_def vsetAdd_def newVoteSet_def HandleProposal_def
  enterPrevoteBegin_def enterPrevoteEnd_def prevoteHash_def emptyBox_def boxVote_def flushBox_def
  addPending_def doVote_def doProposal_def doPrevote_def initSys_def Let_def resetVotes_def votesFor_def

lemma exProposal_fields [simp]:
  "pHeight exProposal = 5" "pRound exProposal = 0" "pBlockHash exProposal = 77"
  "pBlock exProposal = None" "pProposer exProposal = 12"
  by (simp_all add: exProposal_def)

lemma exRun_commits: "sCommits exRun =
    [\<lparr>ceHeight = 5, ceRound = 0, ceBlockHash = 77, ceBlock = None,
      cePrecommits = [exVote VotePrecommit 77 13, exVote VotePrecommit 77 11]\<rparr>]"
  and exRun_sent: "sSent exRun = [exVote VotePrevote 0 13, exVote VotePrecommit 77 13]"
  and exRun_height: "eHeight (sEng exRun) = 6"
  by (simp_all add: exRun_def exEngine_def exVote_verifies engine_eval)
    (simp_all add: exVote_def)

lemma exRun_reach: "ereach exCrypto rot exEngine 5 exRun"
proof -
  let ?s1 = "doProposal exCrypto exProposal (initSys exEngine)"
  obtain s2 where s2: "doPrevote exCrypto (\<lambda>_ _ _. True) ?s1 = Some s2"
    by (simp add: exEngine_def engine_eval)
  let ?s3 = "doVote exCrypto (exVote VotePrevote 77 11) s2"
  let ?s4 = "doVote exCrypto (exVote VotePrevote 77 12) ?s3"
  have "ereach exCrypto rot exEngine (Suc 0) ?s1" by (rule ereach.step [OF ereach.init estep_doProposal])
  then have "ereach exCrypto rot exEngine (Suc (Suc 0)) s2"
    by (rule ereach.step) (rule estep_doPrevote [OF s2])
  then have "ereach exCrypto rot exEngine (Suc (Suc (Suc (Suc (Suc 0)))))
      (doVote exCrypto (exVote VotePrecommit 77 11) ?s4)"
    by (rule ereach.step [OF ereach.step [OF ereach.step [OF _ estep_doVote] estep_doVote] estep_doVote])
  then show ?thesis by (simp add: exRun_def s2 numeral_eq_Suc)
qed

lemma exEngine_short: "short_run exEngine 5"
  by (simp add: short_run_def exEngine_def)


section \<open>Witnesses\<close>

theorem engine_never_equivocates_witness:
  "VerifyDoubleSign exCrypto (exVote VotePrevote 0 13) (exVote VotePrecommit 77 13) \<noteq> None"
  using engine_never_equivocates [OF exRun_reach [of True] exEngine_short, of "exVote VotePrevote 0 13"
      "exVote VotePrecommit 77 13" exCrypto] by (simp add: exRun_sent)

theorem commits_are_certified_witness:
  "sCommits exRun \<noteq> [] \<and> cert_ok exCrypto exSet (hd (sCommits exRun))"
  using commits_are_certified [OF exEngine_new exCrypto_recover exSet_safe exRun_reach,
      of "hd (sCommits exRun)"] by (simp add: exRun_commits)

theorem one_commit_per_height_witness:
  "sCommits exRun \<noteq> [] \<and> hd (sCommits exRun) = last (sCommits exRun)"
  using one_commit_per_height [OF exEngine_new exCrypto_recover exSet_safe exRun_reach exEngine_short,
      of "hd (sCommits exRun)" "last (sCommits exRun)"] by (simp add: exRun_commits)

text \<open>Two conflicting certificates: validator 11 precommitted both hashes.\<close>

definition exFork :: "hash \<Rightarrow> address \<Rightarrow> unit CommitEvent" where
  "exFork bh a = \<lparr>ceHeight = 5, ceRound = 0, ceBlockHash = bh, ceBlock = None,
     cePrecommits = [exVote VotePrecommit bh 11, exVote VotePrecommit bh a]\<rparr>"

lemma exFork_cert: "bh \<noteq> 0 \<Longrightarrow> a \<in> {12, 13} \<Longrightarrow> cert_ok exCrypto exSet (exFork bh a)"
  by (auto simp: cert_ok_def exFork_def exVote_verifies exSet_fields exVals_def vsHasQuorum_def HasQuorum_def)

theorem conflicting_commits_are_slashable_witness:
  "\<exists>v\<in>set (cePrecommits (exFork 7 12)). \<exists>w\<in>set (cePrecommits (exFork 8 13)).
     VerifyDoubleSign exCrypto v w = None"
proof -
  have "\<exists>D. D \<subseteq> members exSet \<and> unat (vsTotalPower exSet) < 3 * (\<Sum>a\<in>D. memberPower exSet a) \<and>
    (\<forall>a\<in>D. \<exists>v\<in>set (cePrecommits (exFork 7 12)). \<exists>w\<in>set (cePrecommits (exFork 8 13)).
       VerifyDoubleSign exCrypto v w = None \<and> Offender \<lparr>evVoteA = v, evVoteB = w\<rparr> = a)"
    by (rule conflicting_commits_are_slashable [OF exSet_safe exFork_cert exFork_cert])
      (simp_all add: exFork_def)
  then obtain D where D: "unat (vsTotalPower exSet) < 3 * (\<Sum>a\<in>D. memberPower exSet a)"
    and evid: "\<forall>a\<in>D. \<exists>v\<in>set (cePrecommits (exFork 7 12)). \<exists>w\<in>set (cePrecommits (exFork 8 13)).
       VerifyDoubleSign exCrypto v w = None \<and> Offender \<lparr>evVoteA = v, evVoteB = w\<rparr> = a"
    by (elim exE conjE)
  from D obtain a where "a \<in> D" by (cases "D = {}") auto
  with bspec [OF evid this] show ?thesis by (elim bexE conjE) (intro bexI)
qed

text \<open>An engine locked on block 77 in round 0, and the proposal of round 1 for another block.\<close>

definition exLocked :: "(address, unit) Engine" where
  "exLocked = exEngine\<lparr>eStep := StepPrecommit, eLockedRound := 0, eLockedHash := 77\<rparr>"

definition exBlock :: "unit Block" where
  "exBlock = \<lparr>bHeader = exParent\<lparr>hdNumber := 5, hdExtraData := replicate 12 0, hdProposer := 12\<rparr>,
     bTransactions = []\<rparr>"

definition exProposal1 :: "unit Proposal" where
  "exProposal1 = \<lparr>pHeight = 5, pRound = 1, pBlockHash = 12, pBlock = Some exBlock, pProposer = 12,
     pSignature = addrBytes 12 @ replicate 13 0 @ hashBytes 12\<rparr>"

lemma exBlock_hash: "blockHash exCrypto exBlock = 12"
proof -
  have eq: "replicate 12 0 @ addrBytes 12 = hashBytes 12"
    using beBytes_pad [of 12 20 12] by (simp add: hashBytes_def addrBytes_def)
  have "rlpEncode exCrypto (headerRLP (bHeader exBlock)) =
      (hashBytes 0 @ hashBytes 0 @ hashBytes 0 @ hashBytes 0) @ (replicate 12 0 @ addrBytes 12)"
    by (simp add: headerRLP_def exBlock_def exParent_def exCrypto_def)
  then show ?thesis
    unfolding blockHash_def headerHash_def Keccak256Hash_def by (simp only: eq exCrypto_keccak codec_dec_enc)
qed

lemma exProposal1_verifies: "VerifyProposal exCrypto exProposal1 = None"
  by (simp add: VerifyProposal_def exProposal1_def) (simp add: exCrypto_def pubkeyBytesToAddress_def)

theorem timeout_discards_lock_witness:
  "\<exists>v rest. obVotes (fst (snd (runHandleProposal exCrypto (\<lambda>_ _ _. True) (ForceTimeoutRound exLocked) exProposal1)))
     = v # rest \<and> vtBlockHash v = 12 \<and> eLockedHash exLocked = 77"
proof -
  obtain e' box err where r: "runHandleProposal exCrypto (\<lambda>_ _ _. True) (ForceTimeoutRound exLocked) exProposal1
      = (e', box, err)" by (metis prod_cases3)
  have "Proposer exSet 5 1 = 12"
    by (simp add: Proposer_def ProposerIndex_def exSet_def exVals_def)
  then have "\<exists>v rest. obVotes box = v # rest \<and> vtType v = VotePrevote \<and> vtHeight v = eHeight exLocked \<and>
      vtRound v = eRound exLocked + 1 \<and> vtBlockHash v = pBlockHash exProposal1"
    by (intro timeout_discards_lock [OF exProposal1_verifies, of exBlock exLocked "\<lambda>_ _ _. True" e' box err])
      (simp_all add: r exBlock_hash, simp_all add: exProposal1_def exLocked_def exEngine_def exCrypto_ecSign)
  then show ?thesis using r by (auto simp: exProposal1_def exLocked_def)
qed

end
