(* ===== verification/StateDB.thy ===== *)
theory StateDB
  imports Messages "HOL-Library.AList" "HOL-Library.List_Lexorder"
begin

text \<open>
  The flat state database of \<^verbatim>\<open>src/core/state\<close>: account, storage and code
  caches over a key-value store, the undo journal behind
  \<^verbatim>\<open>Snapshot\<close>/\<^verbatim>\<open>RevertToSnapshot\<close>, the EIP-2929 access list, transient storage,
  the read/write tracking of the parallel executor, \<^verbatim>\<open>Finalise\<close>, \<^verbatim>\<open>Copy\<close>,
  \<^verbatim>\<open>ApplyOverlay\<close> and \<^verbatim>\<open>Commit\<close>.

  A Go map that the code ranges over is an association list (or a list of
  distinct keys, when its values are empty structs); a map it only looks up is
  a function to options.  A method that can load a cache entry returns the
  updated state as well.  A store error other than a missing key is not
  modelled.  \<^verbatim>\<open>None\<close> is a Go panic.  RLP decoding of an account is the
  parameter \<^verbatim>\<open>rlpDecodeAccount\<close>.
\<close>

section \<open>Accounts and the key layout\<close>

record 'key stateLib = "'key cryptoLib" +
  rlpDecodeAccount :: "byte list \<Rightarrow> (u64 \<times> int \<times> byte list) option"

record Account =
  aNonce :: u64
  aBalance :: u256
  aCodeHash :: hash

definition EmptyCodeHash :: "('key, 'z) cryptoLib_scheme \<Rightarrow> hash" where
  "EmptyCodeHash c = Keccak256Hash c []"

definition NewAccount :: "('key, 'z) cryptoLib_scheme \<Rightarrow> Account" where
  "NewAccount c = \<lparr>aNonce = 0, aBalance = 0, aCodeHash = EmptyCodeHash c\<rparr>"

definition prefixAccount :: byte where "prefixAccount = 97"
definition prefixStorage :: byte where "prefixStorage = 115"
definition prefixCode :: byte where "prefixCode = 99"

definition accountKey :: "address \<Rightarrow> byte list" where
  "accountKey addr = prefixAccount # addrBytes addr"

definition storageKey :: "address \<Rightarrow> hash \<Rightarrow> byte list" where
  "storageKey addr slot = prefixStorage # addrBytes addr @ hashBytes slot"

definition codeKey :: "hash \<Rightarrow> byte list" where
  "codeKey codeHash = prefixCode # hashBytes codeHash"

definition encodeAccount :: "('key, 'z) cryptoLib_scheme \<Rightarrow> Account \<Rightarrow> byte list" where
  "encodeAccount c acc = rlpEncode c (RList [
     RUint (unat (aNonce acc)), RBig (Some (uint (aBalance acc))), RBytes (hashBytes (aCodeHash acc))])"

definition decodeAccount :: "('key, 'z) stateLib_scheme \<Rightarrow> byte list \<Rightarrow> Account option" where
  "decodeAccount c blob = (case rlpDecodeAccount c blob of
     None \<Rightarrow> None
   | Some (nonce, bal, ch) \<Rightarrow>
       Some \<lparr>aNonce = nonce, aBalance = word_of_int bal, aCodeHash = BytesToHash ch\<rparr>)"


section \<open>Access tracking of the parallel executor\<close>

type_synonym AccessKey = "byte list"

definition AccountKey :: "address \<Rightarrow> AccessKey" where
  "AccountKey addr = 97 # addrBytes addr"

definition StorageKeyAccess :: "address \<Rightarrow> hash \<Rightarrow> AccessKey" where
  "StorageKeyAccess addr slot = 115 # addrBytes addr @ hashBytes slot"

record AccessSet =
  Reads :: "AccessKey list"
  Writes :: "AccessKey list"

definition NewAccessSet :: AccessSet where
  "NewAccessSet = \<lparr>Reads = [], Writes = []\<rparr>"

definition RecordRead :: "AccessKey \<Rightarrow> AccessSet \<Rightarrow> AccessSet" where
  "RecordRead k a = (if k \<in> set (Writes a) then a else a\<lparr>Reads := List.insert k (Reads a)\<rparr>)"

definition RecordWrite :: "AccessKey \<Rightarrow> AccessSet \<Rightarrow> AccessSet" where
  "RecordWrite k a = a\<lparr>Reads := removeAll k (Reads a), Writes := List.insert k (Writes a)\<rparr>"

definition ConflictsWith :: "AccessSet option \<Rightarrow> AccessKey list \<Rightarrow> bool" where
  "ConflictsWith ao earlier = (case ao of None \<Rightarrow> False | Some a \<Rightarrow>
     (\<exists>k\<in>set (Reads a). k \<in> set earlier) \<or> (\<exists>k\<in>set (Writes a). k \<in> set earlier))"

definition MergeWrites :: "AccessSet option \<Rightarrow> AccessKey list \<Rightarrow> AccessKey list" where
  "MergeWrites ao dst = (case ao of None \<Rightarrow> dst | Some a \<Rightarrow> fold List.insert (Writes a) dst)"


section \<open>Access list and transient storage\<close>

record accessList =
  alAddresses :: "address \<rightharpoonup> int"
  alSlots :: "hash list list"

definition newAccessList :: accessList where
  "newAccessList = \<lparr>alAddresses = Map.empty, alSlots = []\<rparr>"

definition ContainsAddress :: "accessList \<Rightarrow> address \<Rightarrow> bool" where
  "ContainsAddress a addr = (alAddresses a addr \<noteq> None)"

definition alContains :: "accessList \<Rightarrow> address \<Rightarrow> hash \<Rightarrow> bool \<times> bool" where
  "alContains a addr slot = (case alAddresses a addr of
     None \<Rightarrow> (False, False)
   | Some idx \<Rightarrow> if idx = - 1 then (True, False)
                else (True, slot \<in> set (alSlots a ! nat idx)))"

definition AddAddress :: "accessList \<Rightarrow> address \<Rightarrow> bool \<times> accessList" where
  "AddAddress a addr = (case alAddresses a addr of
     Some _ \<Rightarrow> (False, a)
   | None \<Rightarrow> (True, a\<lparr>alAddresses := (alAddresses a)(addr \<mapsto> - 1)\<rparr>))"

definition AddSlot :: "accessList \<Rightarrow> address \<Rightarrow> hash \<Rightarrow> bool \<times> bool \<times> accessList" where
  "AddSlot a addr slot =
     (let fresh = a\<lparr>alAddresses := (alAddresses a)(addr \<mapsto> int (length (alSlots a))),
                    alSlots := alSlots a @ [[slot]]\<rparr>
      in case alAddresses a addr of
        None \<Rightarrow> (True, True, fresh)
      | Some idx \<Rightarrow>
          if idx = - 1 then (False, True, fresh)
          else if slot \<in> set (alSlots a ! nat idx) then (False, False, a)
          else (False, True, a\<lparr>alSlots := (alSlots a)[nat idx := slot # alSlots a ! nat idx]\<rparr>))"

definition DeleteAddress :: "accessList \<Rightarrow> address \<Rightarrow> accessList" where
  "DeleteAddress a addr = a\<lparr>alAddresses := (alAddresses a)(addr := None)\<rparr>"

definition DeleteSlot :: "accessList \<Rightarrow> address \<Rightarrow> hash \<Rightarrow> accessList" where
  "DeleteSlot a addr slot = (case alAddresses a addr of
     None \<Rightarrow> a
   | Some idx \<Rightarrow>
       if idx = - 1 then a
       else let sl = removeAll slot (alSlots a ! nat idx);
                a' = a\<lparr>alSlots := (alSlots a)[nat idx := sl]\<rparr>
            in if sl = [] then a'\<lparr>alAddresses := (alAddresses a')(addr \<mapsto> - 1)\<rparr> else a')"

type_synonym transientStorage = "address \<rightharpoonup> (hash \<rightharpoonup> hash)"

definition tsSet :: "transientStorage \<Rightarrow> address \<Rightarrow> hash \<Rightarrow> hash \<Rightarrow> transientStorage" where
  "tsSet t addr key val =
     (let m = (case t addr of None \<Rightarrow> Map.empty | Some m \<Rightarrow> m) in t(addr \<mapsto> m(key \<mapsto> val)))"

definition tsGet :: "transientStorage \<Rightarrow> address \<Rightarrow> hash \<Rightarrow> hash" where
  "tsGet t addr key = (case t addr of
     None \<Rightarrow> 0 | Some m \<Rightarrow> (case m key of None \<Rightarrow> 0 | Some v \<Rightarrow> v))"


section \<open>The state database and its accessors\<close>

record Log =
  lgAddress :: address
  lgTopics :: "hash list"
  lgData :: "byte list"

datatype journalEntry =
    balanceChange address u256
  | nonceChange address u64
  | codeChange address hash "byte list"
  | storageChange address hash hash
  | createObjectChange address
  | suicideChange address bool u256
  | refundChange u64
  | addLogChange
  | accessListAddAccountChange address
  | accessListAddSlotChange address hash
  | transientStorageChange address hash hash
  | touchChange address

type_synonym storageID = "address \<times> hash"

record StateDB =
  sdDb :: "(byte list \<times> byte list) list"
  sdAccounts :: "(address \<times> Account) list"
  sdStorage :: "(storageID \<times> hash) list"
  sdCode :: "hash \<rightharpoonup> byte list"
  sdAccountDirty :: "address list"
  sdStorageDirty :: "storageID list"
  sdSuicides :: "address list"
  sdJournal :: "journalEntry list"
  sdDirties :: "(address \<times> nat) list"
  sdValidRevisions :: "(nat \<times> nat) list"
  sdNextRevisionID :: nat
  sdRefund :: u64
  sdLogs :: "Log list"
  sdAccessList :: accessList
  sdTransient :: transientStorage
  sdNewContracts :: "address list"
  sdStorageOrigin :: "storageID \<rightharpoonup> hash"
  sdTrackAccess :: bool
  sdAccessSet :: "AccessSet option"

definition New :: "(byte list \<times> byte list) list \<Rightarrow> StateDB" where
  "New database = \<lparr>sdDb = database, sdAccounts = [], sdStorage = [], sdCode = Map.empty,
     sdAccountDirty = [], sdStorageDirty = [], sdSuicides = [], sdJournal = [], sdDirties = [],
     sdValidRevisions = [], sdNextRevisionID = 0, sdRefund = 0, sdLogs = [],
     sdAccessList = newAccessList, sdTransient = Map.empty, sdNewContracts = [],
     sdStorageOrigin = Map.empty, sdTrackAccess = False, sdAccessSet = None\<rparr>"

definition StartAccessTracking :: "StateDB \<Rightarrow> StateDB" where
  "StartAccessTracking s = s\<lparr>sdTrackAccess := True, sdAccessSet := Some NewAccessSet\<rparr>"

definition TakeAccessSet :: "StateDB \<Rightarrow> AccessSet option \<times> StateDB" where
  "TakeAccessSet s = (sdAccessSet s, s\<lparr>sdTrackAccess := False, sdAccessSet := None\<rparr>)"

definition noteRead :: "AccessKey \<Rightarrow> StateDB \<Rightarrow> StateDB" where
  "noteRead k s = (if sdTrackAccess s then s\<lparr>sdAccessSet := map_option (RecordRead k) (sdAccessSet s)\<rparr> else s)"

definition noteWrite :: "AccessKey \<Rightarrow> StateDB \<Rightarrow> StateDB" where
  "noteWrite k s = (if sdTrackAccess s then s\<lparr>sdAccessSet := map_option (RecordWrite k) (sdAccessSet s)\<rparr> else s)"

definition putAccount :: "address \<Rightarrow> Account \<Rightarrow> StateDB \<Rightarrow> StateDB" where
  "putAccount addr acc s = s\<lparr>sdAccounts := AList.update addr acc (sdAccounts s)\<rparr>"

definition markAccount :: "address \<Rightarrow> StateDB \<Rightarrow> StateDB" where
  "markAccount addr s = s\<lparr>sdAccountDirty := List.insert addr (sdAccountDirty s)\<rparr>"

definition putStorage :: "storageID \<Rightarrow> hash \<Rightarrow> StateDB \<Rightarrow> StateDB" where
  "putStorage i v s = s\<lparr>sdStorage := AList.update i v (sdStorage s),
     sdStorageDirty := List.insert i (sdStorageDirty s)\<rparr>"

definition Exist :: "StateDB \<Rightarrow> address \<Rightarrow> bool \<times> StateDB" where
  "Exist s0 addr =
     (let s = noteRead (AccountKey addr) s0
      in if addr \<in> set (sdSuicides s) then (False, s)
         else if map_of (sdAccounts s) addr \<noteq> None then (True, s)
         else (map_of (sdDb s) (accountKey addr) \<noteq> None, s))"

definition getAccount :: "('key, 'z) stateLib_scheme \<Rightarrow> StateDB \<Rightarrow> address \<Rightarrow> Account option \<times> StateDB" where
  "getAccount c s addr =
     (if addr \<in> set (sdSuicides s) then (None, s)
      else case map_of (sdAccounts s) addr of
        Some acc \<Rightarrow> (Some acc, s)
      | None \<Rightarrow> (case map_of (sdDb s) (accountKey addr) of
          None \<Rightarrow> (None, s)
        | Some blob \<Rightarrow> (case decodeAccount c blob of
            None \<Rightarrow> (None, s)
          | Some acc \<Rightarrow> (Some acc, putAccount addr acc s))))"

definition GetOrNewAccount :: "('key, 'z) stateLib_scheme \<Rightarrow> StateDB \<Rightarrow> address \<Rightarrow> Account \<times> StateDB" where
  "GetOrNewAccount c s addr = (case getAccount c s addr of
     (Some acc, s1) \<Rightarrow> (acc, s1)
   | (None, s1) \<Rightarrow> (NewAccount c, markAccount addr (putAccount addr (NewAccount c) s1)))"

definition GetBalance :: "('key, 'z) stateLib_scheme \<Rightarrow> StateDB \<Rightarrow> address \<Rightarrow> u256 \<times> StateDB" where
  "GetBalance c s addr = (case getAccount c (noteRead (AccountKey addr) s) addr of
     (None, s1) \<Rightarrow> (0, s1) | (Some acc, s1) \<Rightarrow> (aBalance acc, s1))"

definition SetBalance :: "('key, 'z) stateLib_scheme \<Rightarrow> StateDB \<Rightarrow> address \<Rightarrow> u256 \<Rightarrow> StateDB" where
  "SetBalance c s addr bal =
     (let (acc, s1) = GetOrNewAccount c (noteWrite (AccountKey addr) s) addr
      in markAccount addr (putAccount addr (acc\<lparr>aBalance := bal\<rparr>) s1))"

definition SetBalanceRaw :: "('key, 'z) stateLib_scheme \<Rightarrow> StateDB \<Rightarrow> address \<Rightarrow> u256 \<Rightarrow> StateDB" where
  "SetBalanceRaw c s addr bal =
     (let (acc, s1) = GetOrNewAccount c s addr
      in markAccount addr (putAccount addr (acc\<lparr>aBalance := bal\<rparr>) s1))"

definition GetNonce :: "('key, 'z) stateLib_scheme \<Rightarrow> StateDB \<Rightarrow> address \<Rightarrow> u64 \<times> StateDB" where
  "GetNonce c s addr = (case getAccount c (noteRead (AccountKey addr) s) addr of
     (None, s1) \<Rightarrow> (0, s1) | (Some acc, s1) \<Rightarrow> (aNonce acc, s1))"

definition SetNonce :: "('key, 'z) stateLib_scheme \<Rightarrow> StateDB \<Rightarrow> address \<Rightarrow> u64 \<Rightarrow> StateDB" where
  "SetNonce c s addr nonce =
     (let (acc, s1) = GetOrNewAccount c (noteWrite (AccountKey addr) s) addr
      in markAccount addr (putAccount addr (acc\<lparr>aNonce := nonce\<rparr>) s1))"

definition GetCodeHash :: "('key, 'z) stateLib_scheme \<Rightarrow> StateDB \<Rightarrow> address \<Rightarrow> hash \<times> StateDB" where
  "GetCodeHash c s addr = (case getAccount c (noteRead (AccountKey addr) s) addr of
     (None, s1) \<Rightarrow> (EmptyCodeHash c, s1) | (Some acc, s1) \<Rightarrow> (aCodeHash acc, s1))"

definition GetCode :: "('key, 'z) stateLib_scheme \<Rightarrow> StateDB \<Rightarrow> address \<Rightarrow> byte list \<times> StateDB" where
  "GetCode c s addr =
     (let (h, s1) = GetCodeHash c (noteRead (AccountKey addr) s) addr
      in if h = EmptyCodeHash c then ([], s1)
         else case sdCode s1 h of
           Some code \<Rightarrow> (code, s1)
         | None \<Rightarrow> (case map_of (sdDb s1) (codeKey h) of
             None \<Rightarrow> ([], s1)
           | Some blob \<Rightarrow> (blob, s1\<lparr>sdCode := (sdCode s1)(h \<mapsto> blob)\<rparr>)))"

definition SetCode :: "('key, 'z) stateLib_scheme \<Rightarrow> StateDB \<Rightarrow> address \<Rightarrow> byte list \<Rightarrow> StateDB" where
  "SetCode c s addr code =
     (let (acc, s1) = GetOrNewAccount c (noteWrite (AccountKey addr) s) addr
      in if code = [] then markAccount addr (putAccount addr (acc\<lparr>aCodeHash := EmptyCodeHash c\<rparr>) s1)
         else let h = Keccak256Hash c code;
                  s2 = putAccount addr (acc\<lparr>aCodeHash := h\<rparr>) s1
              in markAccount addr (s2\<lparr>sdCode := (sdCode s2)(h \<mapsto> code)\<rparr>))"

definition GetState :: "StateDB \<Rightarrow> address \<Rightarrow> hash \<Rightarrow> hash \<times> StateDB" where
  "GetState s0 addr slot =
     (let s = noteRead (StorageKeyAccess addr slot) s0
      in case map_of (sdStorage s) (addr, slot) of
        Some v \<Rightarrow> (v, s)
      | None \<Rightarrow> (case map_of (sdDb s) (storageKey addr slot) of
          None \<Rightarrow> (0, s)
        | Some blob \<Rightarrow> (let v = BytesToHash blob
             in (v, s\<lparr>sdStorage := AList.update (addr, slot) v (sdStorage s)\<rparr>))))"

definition SetState :: "('key, 'z) stateLib_scheme \<Rightarrow> StateDB \<Rightarrow> address \<Rightarrow> hash \<Rightarrow> hash \<Rightarrow> StateDB" where
  "SetState c s addr slot val =
     (let (_, s1) = GetOrNewAccount c (noteWrite (StorageKeyAccess addr slot) s) addr
      in putStorage (addr, slot) val s1)"


section \<open>The journal\<close>

fun entryDirtyAddress :: "journalEntry \<Rightarrow> address option" where
  "entryDirtyAddress (balanceChange a _) = Some a"
| "entryDirtyAddress (nonceChange a _) = Some a"
| "entryDirtyAddress (codeChange a _ _) = Some a"
| "entryDirtyAddress (storageChange a _ _) = Some a"
| "entryDirtyAddress (createObjectChange a) = Some a"
| "entryDirtyAddress (suicideChange a _ _) = Some a"
| "entryDirtyAddress (touchChange a) = Some a"
| "entryDirtyAddress (transientStorageChange a _ _) = Some a"
| "entryDirtyAddress (refundChange _) = None"
| "entryDirtyAddress addLogChange = None"
| "entryDirtyAddress (accessListAddAccountChange _) = None"
| "entryDirtyAddress (accessListAddSlotChange _ _) = None"

definition journalAppend :: "journalEntry \<Rightarrow> StateDB \<Rightarrow> StateDB" where
  "journalAppend e s =
     (let s1 = s\<lparr>sdJournal := sdJournal s @ [e]\<rparr>
      in case entryDirtyAddress e of
        None \<Rightarrow> s1
      | Some a \<Rightarrow> s1\<lparr>sdDirties := AList.update a
          (case map_of (sdDirties s) a of None \<Rightarrow> 1 | Some n \<Rightarrow> n + 1) (sdDirties s)\<rparr>)"

fun revertEntry :: "('key, 'z) stateLib_scheme \<Rightarrow> journalEntry \<Rightarrow> StateDB \<Rightarrow> StateDB" where
  "revertEntry c (balanceChange a prev) s =
     (let (acc, s1) = GetOrNewAccount c s a
      in markAccount a (putAccount a (acc\<lparr>aBalance := prev\<rparr>) s1))"
| "revertEntry c (nonceChange a prev) s =
     (let (acc, s1) = GetOrNewAccount c s a
      in markAccount a (putAccount a (acc\<lparr>aNonce := prev\<rparr>) s1))"
| "revertEntry c (codeChange a prevHash prevCode) s =
     (let (acc, s1) = GetOrNewAccount c s a;
          s2 = putAccount a (acc\<lparr>aCodeHash := prevHash\<rparr>) s1;
          s3 = (if prevHash \<noteq> EmptyCodeHash c \<and> prevCode \<noteq> []
                then s2\<lparr>sdCode := (sdCode s2)(prevHash \<mapsto> prevCode)\<rparr> else s2)
      in markAccount a s3)"
| "revertEntry c (storageChange a key prevalue) s = putStorage (a, key) prevalue s"
| "revertEntry c (createObjectChange a) s =
     s\<lparr>sdAccounts := AList.delete a (sdAccounts s),
       sdAccountDirty := removeAll a (sdAccountDirty s),
       sdNewContracts := removeAll a (sdNewContracts s)\<rparr>"
| "revertEntry c (suicideChange a prev prevBalance) s =
     (let s1 = s\<lparr>sdSuicides := (if prev then List.insert a (sdSuicides s) else removeAll a (sdSuicides s))\<rparr>
      in case getAccount c s1 a of
        (None, s2) \<Rightarrow> s2
      | (Some acc, s2) \<Rightarrow> markAccount a (putAccount a (acc\<lparr>aBalance := prevBalance\<rparr>) s2))"
| "revertEntry c (refundChange prev) s = s\<lparr>sdRefund := prev\<rparr>"
| "revertEntry c addLogChange s = s\<lparr>sdLogs := butlast (sdLogs s)\<rparr>"
| "revertEntry c (accessListAddAccountChange a) s =
     s\<lparr>sdAccessList := DeleteAddress (sdAccessList s) a\<rparr>"
| "revertEntry c (accessListAddSlotChange a slot) s =
     s\<lparr>sdAccessList := DeleteSlot (sdAccessList s) a slot\<rparr>"
| "revertEntry c (transientStorageChange a key prevalue) s =
     s\<lparr>sdTransient := tsSet (sdTransient s) a key prevalue\<rparr>"
| "revertEntry c (touchChange a) s = s"

definition journalRevert :: "('key, 'z) stateLib_scheme \<Rightarrow> StateDB \<Rightarrow> nat \<Rightarrow> StateDB" where
  "journalRevert c s snapshot =
     (let s1 = fold (revertEntry c) (rev (drop snapshot (sdJournal s))) s
      in s1\<lparr>sdJournal := take snapshot (sdJournal s1)\<rparr>)"


section \<open>Journaled operations\<close>

definition CreateAccount :: "('key, 'z) stateLib_scheme \<Rightarrow> StateDB \<Rightarrow> address \<Rightarrow> StateDB" where
  "CreateAccount c s addr =
     (let (prev, s1) = getAccount c (noteWrite (AccountKey addr) s) addr;
          s2 = journalAppend (createObjectChange addr) s1;
          acc = (case prev of None \<Rightarrow> NewAccount c | Some p \<Rightarrow> (NewAccount c)\<lparr>aBalance := aBalance p\<rparr>)
      in markAccount addr (putAccount addr acc s2))"

definition CreateContract :: "StateDB \<Rightarrow> address \<Rightarrow> StateDB" where
  "CreateContract s addr = s\<lparr>sdNewContracts := List.insert addr (sdNewContracts s)\<rparr>"

definition IsNewContract :: "StateDB \<Rightarrow> address \<Rightarrow> bool" where
  "IsNewContract s addr = (addr \<in> set (sdNewContracts s))"

definition SubBalance :: "('key, 'z) stateLib_scheme \<Rightarrow> StateDB \<Rightarrow> address \<Rightarrow> u256 \<Rightarrow> u256 \<times> StateDB" where
  "SubBalance c s addr amount =
     (let (acc, s1) = GetOrNewAccount c (noteWrite (AccountKey addr) s) addr;
          prev = aBalance acc;
          s2 = journalAppend (balanceChange addr prev) s1;
          s3 = (if amount \<noteq> 0 then putAccount addr (acc\<lparr>aBalance := prev - amount\<rparr>) s2 else s2)
      in (prev, markAccount addr s3))"

definition AddBalancePrev :: "('key, 'z) stateLib_scheme \<Rightarrow> StateDB \<Rightarrow> address \<Rightarrow> u256 \<Rightarrow> u256 \<times> StateDB" where
  "AddBalancePrev c s addr amount =
     (let (acc, s1) = GetOrNewAccount c (noteWrite (AccountKey addr) s) addr;
          prev = aBalance acc;
          s2 = journalAppend (balanceChange addr prev) s1;
          s3 = (if amount \<noteq> 0 then putAccount addr (acc\<lparr>aBalance := prev + amount\<rparr>) s2 else s2)
      in (prev, markAccount addr s3))"

definition AddBalance :: "('key, 'z) stateLib_scheme \<Rightarrow> StateDB \<Rightarrow> address \<Rightarrow> u256 \<Rightarrow> StateDB" where
  "AddBalance c s addr amount = snd (AddBalancePrev c s addr amount)"

definition SetBalanceJournaled :: "('key, 'z) stateLib_scheme \<Rightarrow> StateDB \<Rightarrow> address \<Rightarrow> u256 \<Rightarrow> StateDB" where
  "SetBalanceJournaled c s addr bal =
     (let (acc, s1) = GetOrNewAccount c (noteWrite (AccountKey addr) s) addr;
          s2 = journalAppend (balanceChange addr (aBalance acc)) s1
      in markAccount addr (putAccount addr (acc\<lparr>aBalance := bal\<rparr>) s2))"

definition SetNonceJournaled :: "('key, 'z) stateLib_scheme \<Rightarrow> StateDB \<Rightarrow> address \<Rightarrow> u64 \<Rightarrow> StateDB" where
  "SetNonceJournaled c s addr nonce =
     (let (acc, s1) = GetOrNewAccount c (noteWrite (AccountKey addr) s) addr;
          s2 = journalAppend (nonceChange addr (aNonce acc)) s1
      in markAccount addr (putAccount addr (acc\<lparr>aNonce := nonce\<rparr>) s2))"

definition SetCodeJournaled :: "('key, 'z) stateLib_scheme \<Rightarrow> StateDB \<Rightarrow> address \<Rightarrow> byte list \<Rightarrow> StateDB" where
  "SetCodeJournaled c s addr code =
     (let (acc, s1) = GetOrNewAccount c (noteWrite (AccountKey addr) s) addr;
          prevHash = aCodeHash acc;
          (prevCode, s2) = (if prevHash \<noteq> EmptyCodeHash c then GetCode c s1 addr else ([], s1));
          s3 = journalAppend (codeChange addr prevHash prevCode) s2;
          s4 = (if code = [] then putAccount addr (acc\<lparr>aCodeHash := EmptyCodeHash c\<rparr>) s3
                else let h = Keccak256Hash c code;
                         s' = putAccount addr (acc\<lparr>aCodeHash := h\<rparr>) s3
                     in s'\<lparr>sdCode := (sdCode s')(h \<mapsto> code)\<rparr>)
      in markAccount addr s4)"

definition SetStateJournaled ::
    "('key, 'z) stateLib_scheme \<Rightarrow> StateDB \<Rightarrow> address \<Rightarrow> hash \<Rightarrow> hash \<Rightarrow> hash \<times> StateDB" where
  "SetStateJournaled c s addr key val =
     (let (prev, s1) = GetState s addr key
      in if prev = val then (prev, s1)
         else let s2 = noteWrite (StorageKeyAccess addr key) s1;
                  s3 = (if sdStorageOrigin s2 (addr, key) = None
                        then s2\<lparr>sdStorageOrigin := (sdStorageOrigin s2)((addr, key) \<mapsto> prev)\<rparr> else s2);
                  s4 = journalAppend (storageChange addr key prev) s3;
                  s5 = snd (GetOrNewAccount c s4 addr)
              in (prev, putStorage (addr, key) val s5))"

definition GetCommittedState :: "StateDB \<Rightarrow> address \<Rightarrow> hash \<Rightarrow> hash" where
  "GetCommittedState s addr key = (case sdStorageOrigin s (addr, key) of
     Some v \<Rightarrow> v
   | None \<Rightarrow> (case map_of (sdDb s) (storageKey addr key) of
       None \<Rightarrow> 0 | Some blob \<Rightarrow> BytesToHash blob))"

definition Empty :: "('key, 'z) stateLib_scheme \<Rightarrow> StateDB \<Rightarrow> address \<Rightarrow> bool \<times> StateDB" where
  "Empty c s addr = (case getAccount c s addr of
     (None, s1) \<Rightarrow> (True, s1)
   | (Some acc, s1) \<Rightarrow>
       (aNonce acc = 0 \<and> aBalance acc = 0 \<and> aCodeHash acc = EmptyCodeHash c, s1))"

definition ExistEVM :: "StateDB \<Rightarrow> address \<Rightarrow> bool \<times> StateDB" where
  "ExistEVM s addr = (if addr \<in> set (sdSuicides s) then (True, s) else Exist s addr)"

definition SelfDestruct :: "('key, 'z) stateLib_scheme \<Rightarrow> StateDB \<Rightarrow> address \<Rightarrow> u256 \<times> StateDB" where
  "SelfDestruct c s addr = (case getAccount c s addr of
     (None, s1) \<Rightarrow> (0, s1)
   | (Some acc, s1) \<Rightarrow>
       (let prevBal = aBalance acc;
            s2 = journalAppend (suicideChange addr (addr \<in> set (sdSuicides s1)) prevBal) s1;
            s3 = s2\<lparr>sdSuicides := List.insert addr (sdSuicides s2)\<rparr>
        in (prevBal, markAccount addr (putAccount addr (acc\<lparr>aBalance := 0\<rparr>) s3))))"

definition HasSelfDestructed :: "StateDB \<Rightarrow> address \<Rightarrow> bool" where
  "HasSelfDestructed s addr = (addr \<in> set (sdSuicides s))"

definition SelfDestruct6780 ::
    "('key, 'z) stateLib_scheme \<Rightarrow> StateDB \<Rightarrow> address \<Rightarrow> (u256 \<times> bool) \<times> StateDB" where
  "SelfDestruct6780 c s addr =
     (if addr \<in> set (sdNewContracts s) then
        (let (bal, s1) = SelfDestruct c s addr in ((bal, True), s1))
      else case getAccount c s addr of
        (None, s1) \<Rightarrow> ((0, False), s1)
      | (Some acc, s1) \<Rightarrow>
          (let prev = aBalance acc;
               s2 = journalAppend (balanceChange addr prev) s1
           in ((prev, False), markAccount addr (putAccount addr (acc\<lparr>aBalance := 0\<rparr>) s2))))"

definition AddRefund :: "StateDB \<Rightarrow> u64 \<Rightarrow> StateDB" where
  "AddRefund s gas =
     (let s1 = journalAppend (refundChange (sdRefund s)) s in s1\<lparr>sdRefund := sdRefund s1 + gas\<rparr>)"

definition SubRefund :: "StateDB \<Rightarrow> u64 \<Rightarrow> StateDB option" where
  "SubRefund s gas =
     (let s1 = journalAppend (refundChange (sdRefund s)) s
      in if gas > sdRefund s1 then None else Some (s1\<lparr>sdRefund := sdRefund s1 - gas\<rparr>))"

definition Snapshot :: "StateDB \<Rightarrow> nat \<times> StateDB" where
  "Snapshot s =
     (let i = sdNextRevisionID s
      in (i, s\<lparr>sdNextRevisionID := i + 1,
              sdValidRevisions := sdValidRevisions s @ [(i, length (sdJournal s))]\<rparr>))"

fun lastRevision :: "(nat \<times> nat) list \<Rightarrow> nat \<Rightarrow> nat \<Rightarrow> nat option" where
  "lastRevision vs revid 0 = None"
| "lastRevision vs revid (Suc i) =
     (if fst (vs ! i) = revid then Some i else lastRevision vs revid i)"

definition RevertToSnapshot :: "('key, 'z) stateLib_scheme \<Rightarrow> StateDB \<Rightarrow> nat \<Rightarrow> StateDB option" where
  "RevertToSnapshot c s revid =
     (case lastRevision (sdValidRevisions s) revid (length (sdValidRevisions s)) of
        None \<Rightarrow> None
      | Some idx \<Rightarrow>
          (let snapshot = snd (sdValidRevisions s ! idx);
               s1 = journalRevert c s snapshot
           in Some (s1\<lparr>sdValidRevisions := take idx (sdValidRevisions s1)\<rparr>)))"

definition AddLog :: "StateDB \<Rightarrow> Log \<Rightarrow> StateDB" where
  "AddLog s lg = (let s1 = journalAppend addLogChange s in s1\<lparr>sdLogs := sdLogs s1 @ [lg]\<rparr>)"

definition ClearLogs :: "StateDB \<Rightarrow> StateDB" where
  "ClearLogs s = s\<lparr>sdLogs := []\<rparr>"

definition GetTransientState :: "StateDB \<Rightarrow> address \<Rightarrow> hash \<Rightarrow> hash" where
  "GetTransientState s addr key = tsGet (sdTransient s) addr key"

definition SetTransientState :: "StateDB \<Rightarrow> address \<Rightarrow> hash \<Rightarrow> hash \<Rightarrow> StateDB" where
  "SetTransientState s addr key val =
     (let s1 = journalAppend (transientStorageChange addr key (tsGet (sdTransient s) addr key)) s
      in s1\<lparr>sdTransient := tsSet (sdTransient s1) addr key val\<rparr>)"

definition AddAddressToAccessList :: "StateDB \<Rightarrow> address \<Rightarrow> StateDB" where
  "AddAddressToAccessList s addr =
     (let (added, al) = AddAddress (sdAccessList s) addr; s1 = s\<lparr>sdAccessList := al\<rparr>
      in if added then journalAppend (accessListAddAccountChange addr) s1 else s1)"

definition AddSlotToAccessList :: "StateDB \<Rightarrow> address \<Rightarrow> hash \<Rightarrow> StateDB" where
  "AddSlotToAccessList s addr slot =
     (let (addrMod, slotMod, al) = AddSlot (sdAccessList s) addr slot;
          s1 = s\<lparr>sdAccessList := al\<rparr>;
          s2 = (if addrMod then journalAppend (accessListAddAccountChange addr) s1 else s1)
      in if slotMod then journalAppend (accessListAddSlotChange addr slot) s2 else s2)"

definition Prepare :: "StateDB \<Rightarrow> address \<Rightarrow> address \<Rightarrow> address option \<Rightarrow> address list \<Rightarrow> StateDB" where
  "Prepare s sender coinbase dest precompiles =
     (let s1 = s\<lparr>sdAccessList := newAccessList, sdTransient := Map.empty\<rparr>;
          s2 = AddAddressToAccessList s1 sender;
          s3 = (case dest of None \<Rightarrow> s2 | Some d \<Rightarrow> AddAddressToAccessList s2 d);
          s4 = fold (\<lambda>a t. AddAddressToAccessList t a) precompiles s3;
          s5 = AddAddressToAccessList s4 coinbase
      in s5\<lparr>sdNewContracts := [], sdRefund := 0\<rparr>)"


section \<open>Finalise, flush, copy and overlay\<close>

definition wipeStorage :: "address \<Rightarrow> StateDB \<Rightarrow> StateDB" where
  "wipeStorage addr s =
     fold (\<lambda>i t. if fst i = addr then putStorage i 0 t else t) (map fst (sdStorage s)) s"

definition deleteAccount :: "address \<Rightarrow> StateDB \<Rightarrow> StateDB" where
  "deleteAccount addr s = markAccount addr (s\<lparr>sdAccounts := AList.delete addr (sdAccounts s)\<rparr>)"

definition finaliseSuicides :: "StateDB \<Rightarrow> StateDB" where
  "finaliseSuicides s = fold (\<lambda>addr t. wipeStorage addr (deleteAccount addr t)) (sdSuicides s) s"

definition finaliseEmpty :: "('key, 'z) stateLib_scheme \<Rightarrow> StateDB \<Rightarrow> StateDB" where
  "finaliseEmpty c s = fold (\<lambda>addr t.
     (let (e, t1) = Empty c t addr in if e then deleteAccount addr t1 else t1)) (map fst (sdDirties s)) s"

definition Finalise :: "('key, 'z) stateLib_scheme \<Rightarrow> StateDB \<Rightarrow> bool \<Rightarrow> StateDB" where
  "Finalise c s deleteEmptyObjects =
     (let s1 = finaliseSuicides s;
          s2 = (if deleteEmptyObjects then finaliseEmpty c s1 else s1)
      in s2\<lparr>sdJournal := [], sdDirties := [], sdValidRevisions := [], sdSuicides := [],
            sdNewContracts := [], sdStorageOrigin := Map.empty, sdRefund := 0,
            sdTransient := Map.empty\<rparr>)"

definition flushAccount ::
    "('key, 'z) stateLib_scheme \<Rightarrow> StateDB \<Rightarrow> address \<Rightarrow> (byte list \<times> byte list) list \<Rightarrow> (byte list \<times> byte list) list" where
  "flushAccount c s addr w =
     (if addr \<in> set (sdSuicides s) then AList.delete (accountKey addr) w
      else case map_of (sdAccounts s) addr of
        None \<Rightarrow> w
      | Some acc \<Rightarrow>
          (let w1 = AList.update (accountKey addr) (encodeAccount c acc) w
           in if aCodeHash acc \<noteq> EmptyCodeHash c then
                (case sdCode s (aCodeHash acc) of
                   None \<Rightarrow> w1
                 | Some code \<Rightarrow> AList.update (codeKey (aCodeHash acc)) code w1)
              else w1))"

definition flushStorage :: "StateDB \<Rightarrow> storageID \<Rightarrow> (byte list \<times> byte list) list \<Rightarrow> (byte list \<times> byte list) list" where
  "flushStorage s i w =
     (let val = (case map_of (sdStorage s) i of None \<Rightarrow> 0 | Some v \<Rightarrow> v)
      in if val = 0 then AList.delete (storageKey (fst i) (snd i)) w
         else AList.update (storageKey (fst i) (snd i)) (hashBytes val) w)"

definition FlushDirtyTo ::
    "('key, 'z) stateLib_scheme \<Rightarrow> StateDB \<Rightarrow> (byte list \<times> byte list) list \<Rightarrow> (byte list \<times> byte list) list" where
  "FlushDirtyTo c s w =
     fold (flushStorage s) (sdStorageDirty s) (fold (flushAccount c s) (sdAccountDirty s) w)"

definition ClearDirty :: "StateDB \<Rightarrow> StateDB" where
  "ClearDirty s = s\<lparr>sdAccountDirty := [], sdStorageDirty := [], sdSuicides := []\<rparr>"

definition Copy :: "StateDB \<Rightarrow> StateDB" where
  "Copy s = (New (sdDb s))\<lparr>sdAccounts := sdAccounts s, sdStorage := sdStorage s, sdCode := sdCode s\<rparr>"

definition overlayAccount :: "('key, 'z) stateLib_scheme \<Rightarrow> StateDB \<Rightarrow> address \<Rightarrow> StateDB \<Rightarrow> StateDB" where
  "overlayAccount c src addr s =
     (if addr \<in> set (sdSuicides src) then wipeStorage addr (deleteAccount addr s)
      else case map_of (sdAccounts src) addr of
        None \<Rightarrow> deleteAccount addr s
      | Some acc \<Rightarrow>
          (let s1 = markAccount addr (putAccount addr acc s)
           in if aCodeHash acc \<noteq> EmptyCodeHash c then
                (case sdCode src (aCodeHash acc) of
                   None \<Rightarrow> s1
                 | Some code \<Rightarrow> s1\<lparr>sdCode := (sdCode s1)(aCodeHash acc \<mapsto> code)\<rparr>)
              else s1))"

definition overlayStorage :: "StateDB \<Rightarrow> storageID \<Rightarrow> StateDB \<Rightarrow> StateDB" where
  "overlayStorage src i s =
     (if fst i \<in> set (sdSuicides src) then putStorage i 0 s
      else if fst i \<in> set (sdAccountDirty src) \<and> map_of (sdAccounts src) (fst i) = None then putStorage i 0 s
      else putStorage i (case map_of (sdStorage src) i of None \<Rightarrow> 0 | Some v \<Rightarrow> v) s)"

definition overlayStorageAccount :: "StateDB \<Rightarrow> storageID \<Rightarrow> StateDB \<Rightarrow> StateDB" where
  "overlayStorageAccount src i s = (case map_of (sdAccounts src) (fst i) of
     None \<Rightarrow> s
   | Some acc \<Rightarrow> (if map_of (sdAccounts s) (fst i) = None
                  then markAccount (fst i) (putAccount (fst i) acc s) else s))"

definition ApplyOverlay :: "('key, 'z) stateLib_scheme \<Rightarrow> StateDB \<Rightarrow> StateDB \<Rightarrow> StateDB" where
  "ApplyOverlay c s src =
     (let s1 = fold (overlayAccount c src) (sdAccountDirty src) s;
          s2 = fold (overlayStorage src) (sdStorageDirty src) s1
      in fold (overlayStorageAccount src) (sdStorageDirty src) s2)"

end
