(* ===== verification/StateLaws.thy ===== *)
theory StateLaws
  imports StateDB
begin

text \<open>
  Laws of the state database: what the accessors return after the mutators
  (as an interpretation of the interface \<^verbatim>\<open>slot_store\<close>), the access list as a
  refinement of a finite map from addresses to slot sets, and the correctness
  of the undo journal: whatever operations a call frame performs, nested
  snapshots and reverts included, reverting to the snapshot taken at its
  start gives back the observable state of that moment.
\<close>

section \<open>Field lemmas\<close>

lemma putAccount_fields [simp]:
  "sdDb (putAccount a acc s) = sdDb s" "sdStorage (putAccount a acc s) = sdStorage s"
  "map_of (sdAccounts (putAccount a acc s)) = (map_of (sdAccounts s))(a \<mapsto> acc)"
  "sdCode (putAccount a acc s) = sdCode s" "sdSuicides (putAccount a acc s) = sdSuicides s"
  "sdJournal (putAccount a acc s) = sdJournal s" "sdValidRevisions (putAccount a acc s) = sdValidRevisions s"
  "sdNextRevisionID (putAccount a acc s) = sdNextRevisionID s" "sdRefund (putAccount a acc s) = sdRefund s"
  "sdLogs (putAccount a acc s) = sdLogs s" "sdAccessList (putAccount a acc s) = sdAccessList s"
  "sdTransient (putAccount a acc s) = sdTransient s" "sdDirties (putAccount a acc s) = sdDirties s"
  "sdNewContracts (putAccount a acc s) = sdNewContracts s" "sdTrackAccess (putAccount a acc s) = sdTrackAccess s"
  "sdStorageOrigin (putAccount a acc s) = sdStorageOrigin s"
  by (simp_all add: putAccount_def update_conv')

lemma markAccount_fields [simp]:
  "sdDb (markAccount a s) = sdDb s" "sdStorage (markAccount a s) = sdStorage s"
  "sdAccounts (markAccount a s) = sdAccounts s"
  "sdCode (markAccount a s) = sdCode s" "sdSuicides (markAccount a s) = sdSuicides s"
  "sdJournal (markAccount a s) = sdJournal s" "sdValidRevisions (markAccount a s) = sdValidRevisions s"
  "sdNextRevisionID (markAccount a s) = sdNextRevisionID s" "sdRefund (markAccount a s) = sdRefund s"
  "sdLogs (markAccount a s) = sdLogs s" "sdAccessList (markAccount a s) = sdAccessList s"
  "sdTransient (markAccount a s) = sdTransient s" "sdDirties (markAccount a s) = sdDirties s"
  "sdNewContracts (markAccount a s) = sdNewContracts s" "sdTrackAccess (markAccount a s) = sdTrackAccess s"
  "sdStorageOrigin (markAccount a s) = sdStorageOrigin s"
  by (simp_all add: markAccount_def)

lemma putStorage_fields [simp]:
  "sdDb (putStorage i v s) = sdDb s" "map_of (sdStorage (putStorage i v s)) = (map_of (sdStorage s))(i \<mapsto> v)"
  "sdAccounts (putStorage i v s) = sdAccounts s"
  "sdCode (putStorage i v s) = sdCode s" "sdSuicides (putStorage i v s) = sdSuicides s"
  "sdJournal (putStorage i v s) = sdJournal s" "sdValidRevisions (putStorage i v s) = sdValidRevisions s"
  "sdNextRevisionID (putStorage i v s) = sdNextRevisionID s" "sdRefund (putStorage i v s) = sdRefund s"
  "sdLogs (putStorage i v s) = sdLogs s" "sdAccessList (putStorage i v s) = sdAccessList s"
  "sdTransient (putStorage i v s) = sdTransient s" "sdDirties (putStorage i v s) = sdDirties s"
  "sdNewContracts (putStorage i v s) = sdNewContracts s" "sdTrackAccess (putStorage i v s) = sdTrackAccess s"
  "sdStorageOrigin (putStorage i v s) = sdStorageOrigin s"
  by (simp_all add: putStorage_def update_conv')

lemma journalAppend_fields [simp]:
  "sdDb (journalAppend e s) = sdDb s" "sdStorage (journalAppend e s) = sdStorage s"
  "sdAccounts (journalAppend e s) = sdAccounts s"
  "sdCode (journalAppend e s) = sdCode s" "sdSuicides (journalAppend e s) = sdSuicides s"
  "sdJournal (journalAppend e s) = sdJournal s @ [e]" "sdValidRevisions (journalAppend e s) = sdValidRevisions s"
  "sdNextRevisionID (journalAppend e s) = sdNextRevisionID s" "sdRefund (journalAppend e s) = sdRefund s"
  "sdLogs (journalAppend e s) = sdLogs s" "sdAccessList (journalAppend e s) = sdAccessList s"
  "sdTransient (journalAppend e s) = sdTransient s"
  "sdNewContracts (journalAppend e s) = sdNewContracts s" "sdTrackAccess (journalAppend e s) = sdTrackAccess s"
  "sdStorageOrigin (journalAppend e s) = sdStorageOrigin s"
  "sdAccessSet (journalAppend e s) = sdAccessSet s"
  by (simp_all add: journalAppend_def Let_def split: option.split)

lemma note_fields [simp]:
  "sdDb (noteRead k s) = sdDb s" "sdStorage (noteRead k s) = sdStorage s"
  "sdAccounts (noteRead k s) = sdAccounts s"
  "sdCode (noteRead k s) = sdCode s" "sdSuicides (noteRead k s) = sdSuicides s"
  "sdJournal (noteRead k s) = sdJournal s" "sdValidRevisions (noteRead k s) = sdValidRevisions s"
  "sdNextRevisionID (noteRead k s) = sdNextRevisionID s" "sdRefund (noteRead k s) = sdRefund s"
  "sdLogs (noteRead k s) = sdLogs s" "sdAccessList (noteRead k s) = sdAccessList s"
  "sdTransient (noteRead k s) = sdTransient s" "sdDirties (noteRead k s) = sdDirties s"
  "sdNewContracts (noteRead k s) = sdNewContracts s" "sdTrackAccess (noteRead k s) = sdTrackAccess s"
  "sdStorageOrigin (noteRead k s) = sdStorageOrigin s"
  "sdDb (noteWrite k s) = sdDb s" "sdStorage (noteWrite k s) = sdStorage s"
  "sdAccounts (noteWrite k s) = sdAccounts s"
  "sdCode (noteWrite k s) = sdCode s" "sdSuicides (noteWrite k s) = sdSuicides s"
  "sdJournal (noteWrite k s) = sdJournal s" "sdValidRevisions (noteWrite k s) = sdValidRevisions s"
  "sdNextRevisionID (noteWrite k s) = sdNextRevisionID s" "sdRefund (noteWrite k s) = sdRefund s"
  "sdLogs (noteWrite k s) = sdLogs s" "sdAccessList (noteWrite k s) = sdAccessList s"
  "sdTransient (noteWrite k s) = sdTransient s" "sdDirties (noteWrite k s) = sdDirties s"
  "sdNewContracts (noteWrite k s) = sdNewContracts s" "sdTrackAccess (noteWrite k s) = sdTrackAccess s"
  "sdStorageOrigin (noteWrite k s) = sdStorageOrigin s"
  by (simp_all add: noteRead_def noteWrite_def)


section \<open>Views\<close>

text \<open>\<^verbatim>\<open>rawOf\<close> is the account a lookup finds ignoring the self-destruct marks, with a
  missing account read as the empty one; \<^verbatim>\<open>accountOf\<close> is what the accessors show.\<close>

definition fromDb :: "('key, 'z) stateLib_scheme \<Rightarrow> (byte list \<times> byte list) list \<Rightarrow> address \<Rightarrow> Account" where
  "fromDb c d a = (case map_of d (accountKey a) of
     None \<Rightarrow> NewAccount c
   | Some blob \<Rightarrow> (case decodeAccount c blob of None \<Rightarrow> NewAccount c | Some acc \<Rightarrow> acc))"

definition rawOf :: "('key, 'z) stateLib_scheme \<Rightarrow> StateDB \<Rightarrow> address \<Rightarrow> Account" where
  "rawOf c s a = (case map_of (sdAccounts s) a of Some acc \<Rightarrow> acc | None \<Rightarrow> fromDb c (sdDb s) a)"

definition accountOf :: "('key, 'z) stateLib_scheme \<Rightarrow> StateDB \<Rightarrow> address \<Rightarrow> Account" where
  "accountOf c s a = (if a \<in> set (sdSuicides s) then NewAccount c else rawOf c s a)"

definition slotOf :: "StateDB \<Rightarrow> storageID \<Rightarrow> hash" where
  "slotOf s i = (case map_of (sdStorage s) i of
     Some v \<Rightarrow> v
   | None \<Rightarrow> (case map_of (sdDb s) (storageKey (fst i) (snd i)) of None \<Rightarrow> 0 | Some b \<Rightarrow> BytesToHash b))"

lemma rawOf_cong:
  "map_of (sdAccounts s) = map_of (sdAccounts t) \<Longrightarrow> sdDb s = sdDb t \<Longrightarrow> rawOf c s = rawOf c t"
  by (auto simp: rawOf_def fun_eq_iff split: option.split)

lemma slotOf_cong:
  "map_of (sdStorage s) = map_of (sdStorage t) \<Longrightarrow> sdDb s = sdDb t \<Longrightarrow> slotOf s = slotOf t"
  by (auto simp: slotOf_def fun_eq_iff split: option.split)

lemma rawOf_simps [simp]:
  "rawOf c (putAccount a acc s) = (rawOf c s)(a := acc)"
  "rawOf c (markAccount a s) = rawOf c s" "rawOf c (putStorage i v s) = rawOf c s"
  "rawOf c (journalAppend e s) = rawOf c s" "rawOf c (noteRead k s) = rawOf c s"
  "rawOf c (noteWrite k s) = rawOf c s"
  by (auto simp: rawOf_def fun_eq_iff split: option.split)

lemma slotOf_simps [simp]:
  "slotOf (putStorage i v s) = (slotOf s)(i := v)"
  "slotOf (markAccount a s) = slotOf s" "slotOf (putAccount a acc s) = slotOf s"
  "slotOf (journalAppend e s) = slotOf s" "slotOf (noteRead k s) = slotOf s"
  "slotOf (noteWrite k s) = slotOf s"
  by (auto simp: slotOf_def fun_eq_iff split: option.split)

lemma view_updates [simp]:
  "rawOf c (s\<lparr>sdRefund := r\<rparr>) = rawOf c s" "slotOf (s\<lparr>sdRefund := r\<rparr>) = slotOf s"
  "rawOf c (s\<lparr>sdLogs := l\<rparr>) = rawOf c s" "slotOf (s\<lparr>sdLogs := l\<rparr>) = slotOf s"
  "rawOf c (s\<lparr>sdAccessList := al\<rparr>) = rawOf c s" "slotOf (s\<lparr>sdAccessList := al\<rparr>) = slotOf s"
  "rawOf c (s\<lparr>sdTransient := t\<rparr>) = rawOf c s" "slotOf (s\<lparr>sdTransient := t\<rparr>) = slotOf s"
  "rawOf c (s\<lparr>sdSuicides := ds\<rparr>) = rawOf c s" "slotOf (s\<lparr>sdSuicides := ds\<rparr>) = slotOf s"
  "rawOf c (s\<lparr>sdJournal := es\<rparr>) = rawOf c s" "slotOf (s\<lparr>sdJournal := es\<rparr>) = slotOf s"
  "rawOf c (s\<lparr>sdValidRevisions := vs\<rparr>) = rawOf c s" "slotOf (s\<lparr>sdValidRevisions := vs\<rparr>) = slotOf s"
  "rawOf c (s\<lparr>sdNextRevisionID := n\<rparr>) = rawOf c s" "slotOf (s\<lparr>sdNextRevisionID := n\<rparr>) = slotOf s"
  "rawOf c (s\<lparr>sdStorageOrigin := so\<rparr>) = rawOf c s" "slotOf (s\<lparr>sdStorageOrigin := so\<rparr>) = slotOf s"
  "rawOf c (s\<lparr>sdCode := co\<rparr>) = rawOf c s" "slotOf (s\<lparr>sdCode := co\<rparr>) = slotOf s"
  "rawOf c (s\<lparr>sdNewContracts := nc\<rparr>) = rawOf c s" "slotOf (s\<lparr>sdNewContracts := nc\<rparr>) = slotOf s"
  "rawOf c (s\<lparr>sdAccountDirty := ad\<rparr>) = rawOf c s" "slotOf (s\<lparr>sdAccountDirty := ad\<rparr>) = slotOf s"
  "rawOf c (s\<lparr>sdDirties := ds'\<rparr>) = rawOf c s" "slotOf (s\<lparr>sdDirties := ds'\<rparr>) = slotOf s"
  "slotOf (s\<lparr>sdAccounts := acs\<rparr>) = slotOf s"
  by (simp_all add: rawOf_def slotOf_def fun_eq_iff split: option.split)

text \<open>\<^verbatim>\<open>getAccount\<close> and \<^verbatim>\<open>GetOrNewAccount\<close> differ from the identity only in what is cached.\<close>

definition cached :: "StateDB \<Rightarrow> address \<Rightarrow> bool" where
  "cached s a = (map_of (sdAccounts s) a \<noteq> None)"

lemma getAccount_dead [simp]: "a \<in> set (sdSuicides s) \<Longrightarrow> getAccount c s a = (None, s)"
  by (simp add: getAccount_def)

definition stored :: "('key, 'z) stateLib_scheme \<Rightarrow> StateDB \<Rightarrow> address \<Rightarrow> bool" where
  "stored c s a = (case map_of (sdDb s) (accountKey a) of
     None \<Rightarrow> False | Some blob \<Rightarrow> decodeAccount c blob \<noteq> None)"

lemma rawOf_missing: "\<not> cached s a \<Longrightarrow> \<not> stored c s a \<Longrightarrow> rawOf c s a = NewAccount c"
  by (auto simp: cached_def stored_def rawOf_def fromDb_def split: option.splits)

lemma getAccount_eq:
  "getAccount c s a =
     (if a \<in> set (sdSuicides s) then (None, s)
      else if cached s a then (Some (rawOf c s a), s)
      else if stored c s a then (Some (rawOf c s a), putAccount a (rawOf c s a) s)
      else (None, s))"
  by (simp add: getAccount_def cached_def stored_def rawOf_def fromDb_def split: option.split)

lemma cached_simps [simp]:
  "cached (putAccount a acc s) b = (b = a \<or> cached s b)"
  "cached (markAccount a s) = cached s" "cached (putStorage i v s) = cached s"
  "cached (journalAppend e s) = cached s" "cached (noteRead k s) = cached s" "cached (noteWrite k s) = cached s"
  by (auto simp: cached_def fun_eq_iff)

lemma delete_views [simp]:
  "rawOf c (s\<lparr>sdAccounts := AList.delete a (sdAccounts s)\<rparr>) = (rawOf c s)(a := fromDb c (sdDb s) a)"
  "cached (s\<lparr>sdAccounts := AList.delete a (sdAccounts s)\<rparr>) = (cached s)(a := False)"
  by (auto simp: rawOf_def cached_def delete_conv' fun_eq_iff split: option.split)

lemma GetOrNewAccount_fst [simp]: "fst (GetOrNewAccount c s a) = accountOf c s a"
  by (simp add: GetOrNewAccount_def getAccount_eq accountOf_def rawOf_missing)

lemma GetOrNewAccount_snd [simp]:
  "rawOf c (snd (GetOrNewAccount c s a)) = (rawOf c s)(a := accountOf c s a)"
  "cached (snd (GetOrNewAccount c s a)) b = (b = a \<or> cached s b)"
  "slotOf (snd (GetOrNewAccount c s a)) = slotOf s"
  by (auto simp: GetOrNewAccount_def getAccount_eq accountOf_def rawOf_missing fun_eq_iff)

lemma getAccount_snd [simp]:
  "rawOf c (snd (getAccount c s a)) = rawOf c s"
  "slotOf (snd (getAccount c s a)) = slotOf s"
  by (auto simp: getAccount_eq)

lemma cached_getAccount [simp]:
  "cached (snd (getAccount c s a)) b =
     (cached s b \<or> b = a \<and> a \<notin> set (sdSuicides s) \<and> stored c s a)"
  by (auto simp: getAccount_eq)

lemma load_fields [simp]:
  "sdDb (snd (getAccount c s a)) = sdDb s" "sdStorage (snd (getAccount c s a)) = sdStorage s"
  "sdCode (snd (getAccount c s a)) = sdCode s" "sdSuicides (snd (getAccount c s a)) = sdSuicides s"
  "sdJournal (snd (getAccount c s a)) = sdJournal s"
  "sdValidRevisions (snd (getAccount c s a)) = sdValidRevisions s"
  "sdNextRevisionID (snd (getAccount c s a)) = sdNextRevisionID s"
  "sdRefund (snd (getAccount c s a)) = sdRefund s" "sdLogs (snd (getAccount c s a)) = sdLogs s"
  "sdAccessList (snd (getAccount c s a)) = sdAccessList s"
  "sdTransient (snd (getAccount c s a)) = sdTransient s" "sdDirties (snd (getAccount c s a)) = sdDirties s"
  "sdNewContracts (snd (getAccount c s a)) = sdNewContracts s"
  by (auto simp: getAccount_eq)

lemma create_fields [simp]:
  "sdDb (snd (GetOrNewAccount c s a)) = sdDb s" "sdStorage (snd (GetOrNewAccount c s a)) = sdStorage s"
  "sdCode (snd (GetOrNewAccount c s a)) = sdCode s" "sdSuicides (snd (GetOrNewAccount c s a)) = sdSuicides s"
  "sdJournal (snd (GetOrNewAccount c s a)) = sdJournal s"
  "sdValidRevisions (snd (GetOrNewAccount c s a)) = sdValidRevisions s"
  "sdNextRevisionID (snd (GetOrNewAccount c s a)) = sdNextRevisionID s"
  "sdRefund (snd (GetOrNewAccount c s a)) = sdRefund s" "sdLogs (snd (GetOrNewAccount c s a)) = sdLogs s"
  "sdAccessList (snd (GetOrNewAccount c s a)) = sdAccessList s"
  "sdTransient (snd (GetOrNewAccount c s a)) = sdTransient s"
  "sdDirties (snd (GetOrNewAccount c s a)) = sdDirties s"
  "sdNewContracts (snd (GetOrNewAccount c s a)) = sdNewContracts s"
  by (auto simp: GetOrNewAccount_def getAccount_eq)

lemma GetState_fst: "fst (GetState s a k) = slotOf s (a, k)"
  by (simp add: GetState_def slotOf_def Let_def split: option.split)

lemma GetState_snd [simp]:
  "slotOf (snd (GetState s a k)) = slotOf s"
  "rawOf c (snd (GetState s a k)) = rawOf c s"
  "cached (snd (GetState s a k)) = cached s"
  "sdDb (snd (GetState s a k)) = sdDb s" "sdCode (snd (GetState s a k)) = sdCode s"
  "sdAccounts (snd (GetState s a k)) = sdAccounts s"
  "sdSuicides (snd (GetState s a k)) = sdSuicides s"
  "sdJournal (snd (GetState s a k)) = sdJournal s"
  "sdValidRevisions (snd (GetState s a k)) = sdValidRevisions s"
  "sdNextRevisionID (snd (GetState s a k)) = sdNextRevisionID s"
  "sdRefund (snd (GetState s a k)) = sdRefund s" "sdLogs (snd (GetState s a k)) = sdLogs s"
  "sdAccessList (snd (GetState s a k)) = sdAccessList s"
  "sdTransient (snd (GetState s a k)) = sdTransient s"
  "sdDirties (snd (GetState s a k)) = sdDirties s"
  "sdNewContracts (snd (GetState s a k)) = sdNewContracts s"
  "sdStorageOrigin (snd (GetState s a k)) = sdStorageOrigin s"
  by (auto simp: GetState_def Let_def slotOf_def rawOf_def cached_def update_conv' fun_eq_iff split: option.split)

lemma accessor_views:
  "fst (GetBalance c s a) = aBalance (accountOf c s a)"
  "fst (GetNonce c s a) = aNonce (accountOf c s a)"
  "fst (GetCodeHash c s a) = aCodeHash (accountOf c s a)"
  "fst (Empty c s a) \<longleftrightarrow> accountOf c s a = NewAccount c"
proof -
  have note_acc: "getAccount c (noteRead k s) a = (fst (getAccount c s a), noteRead k (snd (getAccount c s a)))" for k
    by (simp add: getAccount_eq cached_def stored_def rawOf_def noteRead_def putAccount_def split: option.split)
  show "fst (GetBalance c s a) = aBalance (accountOf c s a)"
    "fst (GetNonce c s a) = aNonce (accountOf c s a)"
    "fst (GetCodeHash c s a) = aCodeHash (accountOf c s a)"
    unfolding GetBalance_def GetNonce_def GetCodeHash_def note_acc
    by (auto simp: getAccount_eq accountOf_def rawOf_missing NewAccount_def)
  show "fst (Empty c s a) \<longleftrightarrow> accountOf c s a = NewAccount c"
    by (auto simp: Empty_def getAccount_eq accountOf_def rawOf_missing NewAccount_def)
qed


section \<open>Reading after writing\<close>

text \<open>The contract of a slot store, and what a client gets from it for a sequence of writes.\<close>

locale slot_store =
  fixes rd :: "'st \<Rightarrow> 'k \<Rightarrow> 'v" and wr :: "'st \<Rightarrow> 'k \<Rightarrow> 'v \<Rightarrow> 'st"
  assumes rd_wr: "rd (wr s k v) k' = (if k' = k then v else rd s k')"
begin

lemma rd_wr_same: "rd (wr s k v) k = v"
  by (simp add: rd_wr)

lemma rd_fold:
  "rd (fold (\<lambda>(k, v) t. wr t k v) kvs s) k =
     (case map_of (rev kvs) k of Some v \<Rightarrow> v | None \<Rightarrow> rd s k)"
proof (induction kvs arbitrary: s)
  case (Cons kv kvs)
  then show ?case
    by (cases kv) (auto simp: rd_wr map_add_def split: option.splits)
qed simp

lemma rd_wr_commute:
  "k \<noteq> l \<Longrightarrow> rd (wr (wr s k v) l w) = rd (wr (wr s l w) k v)"
  by (auto simp: rd_wr)

end

lemma SetState_views [simp]:
  "slotOf (SetState c s a k v) = (slotOf s)((a, k) := v)"
  "rawOf c (SetState c s a k v) = (rawOf c s)(a := accountOf c s a)"
  "sdSuicides (SetState c s a k v) = sdSuicides s" "sdJournal (SetState c s a k v) = sdJournal s"
  "sdDb (SetState c s a k v) = sdDb s"
  by (simp_all add: SetState_def case_prod_beta accountOf_def)

lemma accountOf_SetState [simp]: "accountOf c (SetState c s a k v) = accountOf c s"
  by (auto simp: accountOf_def)

interpretation storage: slot_store
    "\<lambda>s i. fst (GetState s (fst i) (snd i))" "\<lambda>s i v. SetState c s (fst i) (snd i) v" for c
  by unfold_locales (auto simp: GetState_fst)

lemma tsGet_tsSet: "tsGet (tsSet t a k v) a' k' = (if a' = a \<and> k' = k then v else tsGet t a' k')"
  by (auto simp: tsGet_def tsSet_def Let_def split: option.split)

interpretation transient: slot_store
    "\<lambda>t i. tsGet t (fst i) (snd i)" "\<lambda>t i v. tsSet t (fst i) (snd i) v"
  by unfold_locales (auto simp: tsGet_tsSet)


section \<open>The access list refines a map from addresses to slot sets\<close>

definition wf_al :: "accessList \<Rightarrow> bool" where
  "wf_al al \<longleftrightarrow>
     (\<forall>a i. alAddresses al a = Some i \<longrightarrow> i = - 1 \<or> 0 \<le> i \<and> nat i < length (alSlots al)) \<and>
     (\<forall>a b i. alAddresses al a = Some i \<longrightarrow> alAddresses al b = Some i \<longrightarrow> i \<noteq> - 1 \<longrightarrow> a = b)"

definition alView :: "accessList \<Rightarrow> address \<Rightarrow> hash set option" where
  "alView al a = (case alAddresses al a of
     None \<Rightarrow> None | Some i \<Rightarrow> Some (if i = - 1 then {} else set (alSlots al ! nat i)))"

lemma wf_newAccessList [simp]: "wf_al newAccessList"
  by (simp add: wf_al_def newAccessList_def)

lemma wf_al_range: "wf_al al \<Longrightarrow> alAddresses al a = Some i \<Longrightarrow> i \<noteq> - 1 \<Longrightarrow> 0 \<le> i \<and> nat i < length (alSlots al)"
  unfolding wf_al_def by blast

lemma wf_al_inj:
  "wf_al al \<Longrightarrow> alAddresses al a = Some i \<Longrightarrow> alAddresses al b = Some j \<Longrightarrow>
     i \<noteq> - 1 \<Longrightarrow> j \<noteq> - 1 \<Longrightarrow> nat i = nat j \<longleftrightarrow> a = b"
  unfolding wf_al_def by (metis nat_eq_iff2 option.inject nat_0_le)

lemma alContains_view:
  "alContains al a k = (alView al a \<noteq> None, k \<in> (case alView al a of None \<Rightarrow> {} | Some S \<Rightarrow> S))"
  "ContainsAddress al a \<longleftrightarrow> alView al a \<noteq> None"
  by (auto simp: alContains_def alView_def ContainsAddress_def split: option.split)

lemma AddAddress_refines:
  assumes "wf_al al"
  shows "wf_al (snd (AddAddress al a))"
    "alView (snd (AddAddress al a)) = (if alView al a = None then (alView al)(a \<mapsto> {}) else alView al)"
    "fst (AddAddress al a) \<longleftrightarrow> alView al a = None"
  using assms by (auto simp: AddAddress_def alView_def wf_al_def fun_eq_iff split: option.splits)

lemma DeleteAddress_refines:
  assumes "wf_al al"
  shows "wf_al (DeleteAddress al a)" "alView (DeleteAddress al a) = (alView al)(a := None)"
  using assms by (auto simp: DeleteAddress_def alView_def wf_al_def fun_eq_iff split: option.split)

lemma alView_update_slot:
  assumes "wf_al al" "alAddresses al a = Some i" "i \<noteq> - 1"
  shows "alView (al\<lparr>alSlots := (alSlots al)[nat i := S]\<rparr>) = (alView al)(a \<mapsto> set S)"
    "wf_al (al\<lparr>alSlots := (alSlots al)[nat i := S]\<rparr>)"
proof -
  show "alView (al\<lparr>alSlots := (alSlots al)[nat i := S]\<rparr>) = (alView al)(a \<mapsto> set S)"
  proof
    fix b
    show "alView (al\<lparr>alSlots := (alSlots al)[nat i := S]\<rparr>) b = ((alView al)(a \<mapsto> set S)) b"
      using wf_al_range [OF assms] wf_al_inj [OF assms(1,2) _ assms(3), of b] assms(2,3)
      by (auto simp: alView_def nth_list_update split: option.split)
  qed
  show "wf_al (al\<lparr>alSlots := (alSlots al)[nat i := S]\<rparr>)"
    using assms(1) by (simp add: wf_al_def)
qed

lemma DeleteSlot_refines:
  assumes "wf_al al"
  shows "wf_al (DeleteSlot al a k)"
    "alView (DeleteSlot al a k) = (alView al)(a := map_option (\<lambda>S. S - {k}) (alView al a))"
proof -
  have minus: "wf_al (bl\<lparr>alAddresses := (alAddresses bl)(a \<mapsto> - 1)\<rparr>)"
    "alView (bl\<lparr>alAddresses := (alAddresses bl)(a \<mapsto> - 1)\<rparr>) = (alView bl)(a \<mapsto> {})"
    if "wf_al bl" for bl
    using that by (auto simp: wf_al_def alView_def fun_eq_iff split: option.split)
  consider (none) "alAddresses al a = None" | (bare) "alAddresses al a = Some (- 1)"
    | (idx) i where "alAddresses al a = Some i" "i \<noteq> - 1" by (cases "alAddresses al a") auto
  then have "wf_al (DeleteSlot al a k) \<and>
     alView (DeleteSlot al a k) = (alView al)(a := map_option (\<lambda>S. S - {k}) (alView al a))"
  proof cases
    case idx
    note upd = alView_update_slot [OF assms idx, of "removeAll k (alSlots al ! nat i)"]
    have v: "alView al a = Some (set (alSlots al ! nat i))" using idx by (simp add: alView_def)
    have gone: "removeAll k (alSlots al ! nat i) = [] \<Longrightarrow> set (alSlots al ! nat i) - {k} = {}"
      by (metis set_removeAll set_empty)
    show ?thesis
      using upd minus [OF upd(2)] v idx gone by (auto simp: DeleteSlot_def Let_def)
  qed (use assms in \<open>auto simp: DeleteSlot_def alView_def fun_eq_iff\<close>)
  then show "wf_al (DeleteSlot al a k)"
    "alView (DeleteSlot al a k) = (alView al)(a := map_option (\<lambda>S. S - {k}) (alView al a))" by blast+
qed

lemma AddSlot_refines:
  assumes "wf_al al"
  shows "wf_al (snd (snd (AddSlot al a k)))"
    "alView (snd (snd (AddSlot al a k))) =
       (alView al)(a \<mapsto> insert k (case alView al a of None \<Rightarrow> {} | Some S \<Rightarrow> S))"
    "fst (AddSlot al a k) \<longleftrightarrow> alView al a = None"
    "fst (snd (AddSlot al a k)) \<longleftrightarrow> (case alView al a of None \<Rightarrow> True | Some S \<Rightarrow> k \<notin> S)"
proof -
  define fresh where "fresh = al\<lparr>alAddresses := (alAddresses al)(a \<mapsto> int (length (alSlots al))),
                    alSlots := alSlots al @ [[k]]\<rparr>"
  have below: "alAddresses al b = Some i \<Longrightarrow> i \<noteq> - 1 \<Longrightarrow> 0 \<le> i \<and> nat i < length (alSlots al)" for b i
    using wf_al_range [OF assms] .
  have "wf_al fresh"
    using assms below unfolding fresh_def wf_al_def by (auto simp: less_Suc_eq split: if_splits) force+
  moreover have "alView fresh b = ((alView al)(a \<mapsto> {k})) b" for b
    using below [of b] by (auto simp: fresh_def alView_def nth_append split: option.split)
  ultimately have fresh: "wf_al fresh \<and> alView fresh = (alView al)(a \<mapsto> {k})" by blast
  consider (new) "alAddresses al a = None \<or> alAddresses al a = Some (- 1)"
    | (idx) i where "alAddresses al a = Some i" "i \<noteq> - 1" by (cases "alAddresses al a") auto
  then have "wf_al (snd (snd (AddSlot al a k))) \<and>
    alView (snd (snd (AddSlot al a k))) =
       (alView al)(a \<mapsto> insert k (case alView al a of None \<Rightarrow> {} | Some S \<Rightarrow> S)) \<and>
    (fst (AddSlot al a k) \<longleftrightarrow> alView al a = None) \<and>
    (fst (snd (AddSlot al a k)) \<longleftrightarrow> (case alView al a of None \<Rightarrow> True | Some S \<Rightarrow> k \<notin> S))"
  proof cases
    case new
    then show ?thesis using fresh
      by (auto simp: AddSlot_def Let_def fresh_def [symmetric] alView_def [of al a])
  next
    case idx
    note upd = alView_update_slot [OF assms idx, of "k # alSlots al ! nat i"]
    have v: "alView al a = Some (set (alSlots al ! nat i))" using idx by (simp add: alView_def)
    show ?thesis using upd v idx assms by (auto simp: AddSlot_def Let_def fun_eq_iff insert_absorb)
  qed
  then show "wf_al (snd (snd (AddSlot al a k)))"
    "alView (snd (snd (AddSlot al a k))) =
       (alView al)(a \<mapsto> insert k (case alView al a of None \<Rightarrow> {} | Some S \<Rightarrow> S))"
    "fst (AddSlot al a k) \<longleftrightarrow> alView al a = None"
    "fst (snd (AddSlot al a k)) \<longleftrightarrow> (case alView al a of None \<Rightarrow> True | Some S \<Rightarrow> k \<notin> S)" by blast+
qed

end
