(* ===== verification/StateUndo.thy ===== *)
theory StateUndo
  imports StateLaws
begin

text \<open>
  Correctness of \<^verbatim>\<open>Snapshot\<close>/\<^verbatim>\<open>RevertToSnapshot\<close>.  \<^verbatim>\<open>stateOp\<close> lists what a call frame
  may do to the state database; \<^verbatim>\<open>undo_rel\<close> relates a state to a later one with the
  same observable contents (the later one may have more accounts cached); the
  invariant \<^verbatim>\<open>frame_inv\<close> says that undoing the journal down to the frame's start gives
  back the frame's initial contents.
\<close>

section \<open>The operations of a call frame\<close>

datatype stateOp =
    OSubBalance address u256
  | OAddBalance address u256
  | OSetBalance address u256
  | OSetNonce address u64
  | OSetCode address "byte list"
  | OSetState address hash hash
  | OSetTransient address hash hash
  | OAddRefund u64
  | OSubRefund u64
  | OAddLog Log
  | OAddAddress address
  | OAddSlot address hash
  | OCreateAccount address
  | OCreateContract address
  | OSelfDestruct address
  | OSelfDestruct6780 address
  | OGetBalance address
  | OGetState address hash
  | OSnapshot
  | ORevert nat

fun applyOp :: "('key, 'z) stateLib_scheme \<Rightarrow> stateOp \<Rightarrow> StateDB \<Rightarrow> StateDB option" where
  "applyOp c (OSubBalance a v) s = Some (snd (SubBalance c s a v))"
| "applyOp c (OAddBalance a v) s = Some (snd (AddBalancePrev c s a v))"
| "applyOp c (OSetBalance a v) s = Some (SetBalanceJournaled c s a v)"
| "applyOp c (OSetNonce a n) s = Some (SetNonceJournaled c s a n)"
| "applyOp c (OSetCode a code) s = Some (SetCodeJournaled c s a code)"
| "applyOp c (OSetState a k v) s = Some (snd (SetStateJournaled c s a k v))"
| "applyOp c (OSetTransient a k v) s = Some (SetTransientState s a k v)"
| "applyOp c (OAddRefund g) s = Some (AddRefund s g)"
| "applyOp c (OSubRefund g) s = SubRefund s g"
| "applyOp c (OAddLog l) s = Some (AddLog s l)"
| "applyOp c (OAddAddress a) s = Some (AddAddressToAccessList s a)"
| "applyOp c (OAddSlot a k) s = Some (AddSlotToAccessList s a k)"
| "applyOp c (OCreateAccount a) s = Some (CreateAccount c s a)"
| "applyOp c (OCreateContract a) s = Some (CreateContract s a)"
| "applyOp c (OSelfDestruct a) s = Some (snd (SelfDestruct c s a))"
| "applyOp c (OSelfDestruct6780 a) s = Some (snd (SelfDestruct6780 c s a))"
| "applyOp c (OGetBalance a) s = Some (snd (GetBalance c s a))"
| "applyOp c (OGetState a k) s = Some (snd (GetState s a k))"
| "applyOp c OSnapshot s = Some (snd (Snapshot s))"
| "applyOp c (ORevert n) s = RevertToSnapshot c s n"

text \<open>The conditions under which the undo is exact: no account is written while it is marked
  self-destructed, an account is created only where none exists, and a frame reverts to its own
  snapshots only.\<close>

fun opAllowed :: "nat \<Rightarrow> stateOp \<Rightarrow> StateDB \<Rightarrow> bool" where
  "opAllowed b (OSubBalance a v) s = (\<not> HasSelfDestructed s a)"
| "opAllowed b (OAddBalance a v) s = (\<not> HasSelfDestructed s a)"
| "opAllowed b (OSetBalance a v) s = (\<not> HasSelfDestructed s a)"
| "opAllowed b (OSetNonce a n) s = (\<not> HasSelfDestructed s a)"
| "opAllowed b (OSetCode a code) s = (\<not> HasSelfDestructed s a)"
| "opAllowed b (OSetState a k v) s = (\<not> HasSelfDestructed s a)"
| "opAllowed b (OCreateAccount a) s = (\<not> fst (ExistEVM s a))"
| "opAllowed b (ORevert n) s = (b < n)"
| "opAllowed b _ s = True"

fun runFrame :: "('key, 'z) stateLib_scheme \<Rightarrow> nat \<Rightarrow> stateOp list \<Rightarrow> StateDB \<Rightarrow> StateDB option" where
  "runFrame c b [] s = Some s"
| "runFrame c b (op # ops) s =
     (if opAllowed b op s then (case applyOp c op s of None \<Rightarrow> None | Some s1 \<Rightarrow> runFrame c b ops s1) else None)"


section \<open>Related states\<close>

definition undo_rel :: "('key, 'z) stateLib_scheme \<Rightarrow> StateDB \<Rightarrow> StateDB \<Rightarrow> bool" where
  "undo_rel c s t \<longleftrightarrow> sdDb t = sdDb s \<and> rawOf c t = rawOf c s \<and> slotOf t = slotOf s \<and>
     tsGet (sdTransient t) = tsGet (sdTransient s) \<and> sdRefund t = sdRefund s \<and> sdLogs t = sdLogs s \<and>
     alView (sdAccessList t) = alView (sdAccessList s) \<and> wf_al (sdAccessList s) \<and> wf_al (sdAccessList t) \<and>
     set (sdSuicides t) = set (sdSuicides s) \<and> (\<forall>a. cached s a \<longrightarrow> cached t a)"

lemma undo_rel_refl: "wf_al (sdAccessList s) \<Longrightarrow> undo_rel c s s"
  by (simp add: undo_rel_def)

lemma undo_rel_trans: "undo_rel c s t \<Longrightarrow> undo_rel c t u \<Longrightarrow> undo_rel c s u"
  by (auto simp: undo_rel_def)

fun entryOk :: "journalEntry \<Rightarrow> StateDB \<Rightarrow> bool" where
  "entryOk (suicideChange a prev bal) s = (\<not> prev \<longrightarrow> cached s a)"
| "entryOk _ s = True"

lemma entryOk_mono: "entryOk e s \<Longrightarrow> undo_rel c s t \<Longrightarrow> entryOk e t"
  by (cases e) (auto simp: undo_rel_def)

fun undoable :: "('key, 'z) stateLib_scheme \<Rightarrow> journalEntry list \<Rightarrow> StateDB \<Rightarrow> bool" where
  "undoable c [] s = True"
| "undoable c (e # es) s = (entryOk e s \<and> undoable c es (revertEntry c e s))"

lemma undoable_append:
  "undoable c (es @ fs) s \<longleftrightarrow> undoable c es s \<and> undoable c fs (fold (revertEntry c) es s)"
  by (induction es arbitrary: s) auto

lemma accountOf_rel: "undo_rel c s t \<Longrightarrow> accountOf c t = accountOf c s"
  by (auto simp: undo_rel_def accountOf_def fun_eq_iff)

lemma cached_updates [simp]:
  "cached (s\<lparr>sdSuicides := ds\<rparr>) = cached s" "cached (s\<lparr>sdCode := co\<rparr>) = cached s"
  "cached (s\<lparr>sdRefund := r\<rparr>) = cached s" "cached (s\<lparr>sdLogs := l\<rparr>) = cached s"
  "cached (s\<lparr>sdAccessList := al\<rparr>) = cached s" "cached (s\<lparr>sdTransient := t\<rparr>) = cached s"
  "cached (s\<lparr>sdStorageOrigin := so\<rparr>) = cached s" "cached (s\<lparr>sdNewContracts := nc\<rparr>) = cached s"
  "cached (s\<lparr>sdJournal := es\<rparr>) = cached s" "cached (s\<lparr>sdValidRevisions := vs\<rparr>) = cached s"
  "cached (s\<lparr>sdNextRevisionID := n\<rparr>) = cached s" "cached (s\<lparr>sdAccountDirty := ad\<rparr>) = cached s"
  by (simp_all add: cached_def fun_eq_iff)

lemma accountOf_simps:
  "accountOf c (s\<lparr>sdCode := co\<rparr>) = accountOf c s"
  "accountOf c (noteWrite k s) = accountOf c s" "accountOf c (noteRead k s) = accountOf c s"
  "accountOf c (journalAppend e s) = accountOf c s" "accountOf c (markAccount a s) = accountOf c s"
  "accountOf c (putStorage i v s) = accountOf c s"
  by (simp_all add: accountOf_def fun_eq_iff)

lemma tsGet_tsSet_cong:
  "tsGet t = tsGet u \<Longrightarrow> tsGet (tsSet t a k v) = tsGet (tsSet u a k v)"
  by (simp add: fun_eq_iff tsGet_tsSet)

lemma undo_relI:
  assumes "sdDb t = sdDb s" "rawOf c t = rawOf c s" "slotOf t = slotOf s"
    "tsGet (sdTransient t) = tsGet (sdTransient s)" "sdRefund t = sdRefund s" "sdLogs t = sdLogs s"
    "alView (sdAccessList t) = alView (sdAccessList s)" "wf_al (sdAccessList s)" "wf_al (sdAccessList t)"
    "set (sdSuicides t) = set (sdSuicides s)" "\<And>a. cached s a \<Longrightarrow> cached t a"
  shows "undo_rel c s t"
  using assms by (simp add: undo_rel_def)

lemma undo_relD:
  assumes "undo_rel c s t"
  shows "sdDb t = sdDb s" "rawOf c t = rawOf c s" "slotOf t = slotOf s"
    "tsGet (sdTransient t) = tsGet (sdTransient s)" "sdRefund t = sdRefund s" "sdLogs t = sdLogs s"
    "alView (sdAccessList t) = alView (sdAccessList s)" "wf_al (sdAccessList s)" "wf_al (sdAccessList t)"
    "set (sdSuicides t) = set (sdSuicides s)" "\<And>a. cached s a \<Longrightarrow> cached t a"
  using assms by (auto simp: undo_rel_def)

lemma revert_suicide:
  "entryOk (suicideChange a prev bal) s \<Longrightarrow>
   revertEntry c (suicideChange a prev bal) s =
     (if prev then s\<lparr>sdSuicides := List.insert a (sdSuicides s)\<rparr>
      else markAccount a (putAccount a ((rawOf c s a)\<lparr>aBalance := bal\<rparr>)
             (s\<lparr>sdSuicides := removeAll a (sdSuicides s)\<rparr>)))"
  by (simp add: getAccount_eq)

lemma revertEntry_cong:
  assumes "undo_rel c s t" "entryOk e s"
  shows "undo_rel c (revertEntry c e s) (revertEntry c e t)"
proof -
  note rel = undo_relD [OF assms(1)] accountOf_rel [OF assms(1)]
  show ?thesis
  proof (cases e)
    case (suicideChange a prev bal)
    have ok: "entryOk (suicideChange a prev bal) s" "entryOk (suicideChange a prev bal) t"
      using assms entryOk_mono [OF assms(2,1)] suicideChange by auto
    show ?thesis
      unfolding suicideChange revert_suicide [OF ok(1)] revert_suicide [OF ok(2)]
      by (rule undo_relI) (auto simp: rel)
  next
    case (transientStorageChange a k v)
    then show ?thesis using tsGet_tsSet_cong [OF rel(4)]
      by simp (rule undo_relI; simp add: rel)
  qed (simp, rule undo_relI; auto simp: rel case_prod_beta Let_def DeleteAddress_refines DeleteSlot_refines)+
qed

lemma fold_revert_cong:
  "undo_rel c s t \<Longrightarrow> undoable c es s \<Longrightarrow>
   undo_rel c (fold (revertEntry c) es s) (fold (revertEntry c) es t) \<and> undoable c es t"
  by (induction es arbitrary: s t) (auto dest: revertEntry_cong entryOk_mono)


section \<open>Every operation is undone by its journal entries\<close>

definition undone :: "('key, 'z) stateLib_scheme \<Rightarrow> StateDB \<Rightarrow> StateDB \<Rightarrow> bool" where
  "undone c s t \<longleftrightarrow> sdValidRevisions t = sdValidRevisions s \<and> sdNextRevisionID t = sdNextRevisionID s \<and>
     wf_al (sdAccessList t) \<and>
     (\<exists>es. sdJournal t = sdJournal s @ es \<and> undoable c (rev es) t \<and>
           undo_rel c s (fold (revertEntry c) (rev es) t))"

lemma undoneI0:
  "sdJournal t = sdJournal s \<Longrightarrow> undo_rel c s t \<Longrightarrow> sdValidRevisions t = sdValidRevisions s \<Longrightarrow>
   sdNextRevisionID t = sdNextRevisionID s \<Longrightarrow> undone c s t"
  by (auto simp: undone_def undo_relD intro!: exI [of _ "[]"])

lemma undoneI1:
  "sdJournal t = sdJournal s @ [e] \<Longrightarrow> entryOk e t \<Longrightarrow> undo_rel c s (revertEntry c e t) \<Longrightarrow>
   sdValidRevisions t = sdValidRevisions s \<Longrightarrow> sdNextRevisionID t = sdNextRevisionID s \<Longrightarrow>
   wf_al (sdAccessList t) \<Longrightarrow> undone c s t"
  by (auto simp: undone_def intro!: exI [of _ "[e]"])

lemmas op_simps = undo_rel_def case_prod_beta Let_def accountOf_def HasSelfDestructed_def

lemma undone_balance:
  assumes "wf_al (sdAccessList s)" "\<not> HasSelfDestructed s a"
  shows "undone c s (snd (SubBalance c s a v))" "undone c s (snd (AddBalancePrev c s a v))"
    "undone c s (SetBalanceJournaled c s a v)"
  using assms
  by (intro undoneI1 [where e = "balanceChange a (aBalance (rawOf c s a))"];
      simp add: op_simps SubBalance_def AddBalancePrev_def SetBalanceJournaled_def)+

lemma undone_nonce:
  assumes "wf_al (sdAccessList s)" "\<not> HasSelfDestructed s a"
  shows "undone c s (SetNonceJournaled c s a n)"
  using assms
  by (intro undoneI1 [where e = "nonceChange a (aNonce (rawOf c s a))"]; simp add: op_simps SetNonceJournaled_def)

lemma undone_state:
  assumes "wf_al (sdAccessList s)" "\<not> HasSelfDestructed s a"
  shows "undone c s (snd (SetStateJournaled c s a k v))"
proof (cases "slotOf s (a, k) = v")
  case True
  then show ?thesis using assms(1)
    by (intro undoneI0) (auto simp: op_simps SetStateJournaled_def GetState_fst)
next
  case False
  then show ?thesis using assms
    by (intro undoneI1 [where e = "storageChange a k (slotOf s (a, k))"])
      (auto simp: op_simps SetStateJournaled_def GetState_fst)
qed

lemma undone_simple:
  assumes "wf_al (sdAccessList s)"
  shows "undone c s (SetTransientState s a k v)" "undone c s (AddRefund s g)" "undone c s (AddLog s l)"
    "SubRefund s g = Some t \<Longrightarrow> undone c s t" "undone c s (CreateContract s a)"
    "undone c s (snd (GetState s a k))"
proof -
  show "undone c s (SetTransientState s a k v)" using assms
    by (intro undoneI1 [where e = "transientStorageChange a k (tsGet (sdTransient s) a k)"];
        simp add: op_simps SetTransientState_def fun_eq_iff tsGet_tsSet)
  show "undone c s (AddRefund s g)" using assms
    by (intro undoneI1 [where e = "refundChange (sdRefund s)"]; simp add: op_simps AddRefund_def)
  show "undone c s (AddLog s l)" using assms
    by (intro undoneI1 [where e = addLogChange]; simp add: op_simps AddLog_def)
  show "undone c s t" if "SubRefund s g = Some t" using assms that
    by (intro undoneI1 [where e = "refundChange (sdRefund s)"])
      (auto simp: op_simps SubRefund_def split: if_splits)
  show "undone c s (CreateContract s a)" "undone c s (snd (GetState s a k))" using assms
    by (intro undoneI0; simp add: op_simps CreateContract_def)+
qed

lemma undone_access:
  assumes "wf_al (sdAccessList s)"
  shows "undone c s (AddAddressToAccessList s a)" "undone c s (AddSlotToAccessList s a k)"
proof -
  note refines = AddAddress_refines [OF assms] AddSlot_refines [OF assms]
    DeleteAddress_refines DeleteSlot_refines
  show "undone c s (AddAddressToAccessList s a)"
  proof (cases "alView (sdAccessList s) a = None")
    case True
    then show ?thesis using assms
      by (intro undoneI1 [where e = "accessListAddAccountChange a"])
        (auto simp: op_simps AddAddressToAccessList_def refines fun_eq_iff)
  next
    case False
    then show ?thesis using assms
      by (intro undoneI0) (auto simp: op_simps AddAddressToAccessList_def refines)
  qed
  let ?t = "AddSlotToAccessList s a k"
  show "undone c s ?t"
  proof (cases "alView (sdAccessList s) a")
    case None
    have "undo_rel c s (fold (revertEntry c) (rev [accessListAddAccountChange a, accessListAddSlotChange a k]) ?t)"
      using assms None by (auto simp: op_simps AddSlotToAccessList_def refines fun_eq_iff)
    moreover have "sdJournal ?t = sdJournal s @ [accessListAddAccountChange a, accessListAddSlotChange a k]"
      using None by (simp add: AddSlotToAccessList_def case_prod_beta Let_def refines)
    ultimately show ?thesis using None
      by (auto simp: undone_def AddSlotToAccessList_def case_prod_beta Let_def refines
          intro!: exI [of _ "[accessListAddAccountChange a, accessListAddSlotChange a k]"])
  next
    case (Some S)
    show ?thesis
    proof (cases "k \<in> S")
      case True
      then show ?thesis using assms Some
        by (intro undoneI0) (auto simp: op_simps AddSlotToAccessList_def refines insert_absorb fun_eq_iff)
    next
      case False
      then show ?thesis using assms Some
        by (intro undoneI1 [where e = "accessListAddSlotChange a k"])
          (auto simp: op_simps AddSlotToAccessList_def refines fun_eq_iff)
    qed
  qed
qed


lemma reader_snd [simp]:
  "snd (GetBalance c s a) = snd (getAccount c (noteRead (AccountKey a) s) a)"
  "snd (GetNonce c s a) = snd (getAccount c (noteRead (AccountKey a) s) a)"
  "snd (GetCodeHash c s a) = snd (getAccount c (noteRead (AccountKey a) s) a)"
  by (simp_all add: GetBalance_def GetNonce_def GetCodeHash_def case_prod_beta split: option.split)

lemma GetCode_snd:
  "\<exists>co. snd (GetCode c s a) =
     (snd (getAccount c (noteRead (AccountKey a) (noteRead (AccountKey a) s)) a))\<lparr>sdCode := co\<rparr>"
proof -
  let ?t = "snd (getAccount c (noteRead (AccountKey a) (noteRead (AccountKey a) s)) a)"
  have "?t = ?t\<lparr>sdCode := sdCode ?t\<rparr>" by simp
  then have "\<exists>co. ?t = ?t\<lparr>sdCode := co\<rparr>" by blast
  then show ?thesis
    by (simp add: GetCode_def case_prod_beta Let_def split: option.split) blast
qed

lemma undone_code:
  assumes "wf_al (sdAccessList s)" "\<not> HasSelfDestructed s a"
  shows "undone c s (SetCodeJournaled c s a code)"
proof -
  define s1 where "s1 = snd (GetOrNewAccount c (noteWrite (AccountKey a) s) a)"
  define ps where "ps = (if aCodeHash (rawOf c s a) \<noteq> EmptyCodeHash c then GetCode c s1 a else ([], s1))"
  obtain co where "snd (GetCode c s1 a) =
      (snd (getAccount c (noteRead (AccountKey a) (noteRead (AccountKey a) s1)) a))\<lparr>sdCode := co\<rparr>"
    using GetCode_snd [of c s1 a] by blast
  then have ps: "rawOf c (snd ps) = rawOf c s" "slotOf (snd ps) = slotOf s" "\<And>b. cached s b \<Longrightarrow> cached (snd ps) b"
    "sdDb (snd ps) = sdDb s" "sdJournal (snd ps) = sdJournal s" "sdSuicides (snd ps) = sdSuicides s"
    "sdTransient (snd ps) = sdTransient s" "sdRefund (snd ps) = sdRefund s" "sdLogs (snd ps) = sdLogs s"
    "sdAccessList (snd ps) = sdAccessList s" "sdValidRevisions (snd ps) = sdValidRevisions s"
    "sdNextRevisionID (snd ps) = sdNextRevisionID s"
    using assms(2) by (auto simp: ps_def s1_def accountOf_def HasSelfDestructed_def)
  let ?e = "codeChange a (aCodeHash (rawOf c s a)) (fst ps)"
  have "\<exists>h co. SetCodeJournaled c s a code =
      markAccount a ((putAccount a ((rawOf c s a)\<lparr>aCodeHash := h\<rparr>) (journalAppend ?e (snd ps)))\<lparr>sdCode := co\<rparr>)"
  proof (cases "code = []")
    case True
    have "SetCodeJournaled c s a code =
      markAccount a ((putAccount a ((rawOf c s a)\<lparr>aCodeHash := EmptyCodeHash c\<rparr>) (journalAppend ?e (snd ps))))"
      using True assms(2)
      by (simp add: SetCodeJournaled_def case_prod_beta s1_def ps_def Let_def accountOf_def HasSelfDestructed_def)
    also have "\<dots> = markAccount a ((putAccount a ((rawOf c s a)\<lparr>aCodeHash := EmptyCodeHash c\<rparr>)
        (journalAppend ?e (snd ps)))\<lparr>sdCode := sdCode (snd ps)\<rparr>)"
      by (simp add: markAccount_def putAccount_def journalAppend_def)
    finally show ?thesis by blast
  next
    case False
    have "SetCodeJournaled c s a code =
      markAccount a ((putAccount a ((rawOf c s a)\<lparr>aCodeHash := Keccak256Hash c code\<rparr>)
        (journalAppend ?e (snd ps)))\<lparr>sdCode := (sdCode (snd ps))(Keccak256Hash c code \<mapsto> code)\<rparr>)"
      using False assms(2)
      by (simp add: SetCodeJournaled_def case_prod_beta s1_def ps_def Let_def accountOf_def HasSelfDestructed_def)
    then show ?thesis by blast
  qed
  then show ?thesis
  proof (elim exE, goal_cases)
    case (1 h co)
    show ?case unfolding 1
      by (rule undoneI1 [where e = ?e])
        (use assms ps in \<open>auto simp: Let_def case_prod_beta accountOf_def HasSelfDestructed_def intro!: undo_relI\<close>)
  qed
qed

lemma undone_destruct:
  assumes "wf_al (sdAccessList s)"
  shows "undone c s (snd (SelfDestruct c s a))" "undone c s (snd (SelfDestruct6780 c s a))"
    "undone c s (snd (GetBalance c s a))"
proof -
  show g: "undone c s (snd (GetBalance c s a))"
    using assms by (intro undoneI0) (auto intro!: undo_relI)
  have load: "undone c s (snd (getAccount c s a))"
    using assms by (intro undoneI0) (auto intro!: undo_relI)
  let ?acc = "getAccount c s a"
  have found: "a \<notin> set (sdSuicides s) \<and> x = rawOf c s a" if "fst ?acc = Some x" for x
    using that by (auto simp: getAccount_eq split: if_splits)
  show sd: "undone c s (snd (SelfDestruct c s a))"
  proof (cases "fst ?acc")
    case None
    then show ?thesis using load by (simp add: SelfDestruct_def case_prod_beta)
  next
    case (Some x)
    have ok: "entryOk (suicideChange a False (aBalance x)) (snd (SelfDestruct c s a))"
      using Some by (simp add: SelfDestruct_def case_prod_beta Let_def)
    show ?thesis
    proof (rule undoneI1 [OF _ ok], goal_cases)
      case 2
      show ?case unfolding revert_suicide [OF ok]
        by (rule undo_relI)
          (use Some found [OF Some] assms in \<open>auto simp: SelfDestruct_def case_prod_beta Let_def\<close>)
    qed (use Some found [OF Some] assms in \<open>simp_all add: SelfDestruct_def case_prod_beta Let_def\<close>)
  qed
  show "undone c s (snd (SelfDestruct6780 c s a))"
  proof (cases "a \<in> set (sdNewContracts s)")
    case True
    then show ?thesis using sd by (simp add: SelfDestruct6780_def case_prod_beta Let_def)
  next
    case new: False
    show ?thesis
    proof (cases "fst ?acc")
      case None
      then show ?thesis using load new by (simp add: SelfDestruct6780_def case_prod_beta)
    next
      case (Some x)
      show ?thesis
        by (rule undoneI1 [where e = "balanceChange a (aBalance x)"])
          (use Some found [OF Some] new assms in
            \<open>auto simp: SelfDestruct6780_def case_prod_beta Let_def accountOf_def intro!: undo_relI\<close>)
    qed
  qed
qed

lemma undone_create:
  assumes "wf_al (sdAccessList s)" "\<not> fst (ExistEVM s a)"
  shows "undone c s (CreateAccount c s a)"
proof -
  have fresh: "a \<notin> set (sdSuicides s)" "\<not> cached s a" "map_of (sdDb s) (accountKey a) = None"
    using assms(2) by (auto simp: ExistEVM_def Exist_def Let_def cached_def split: if_splits)
  then have raw: "rawOf c s a = fromDb c (sdDb s) a" "\<not> stored c (noteWrite k s) a" for k
    by (auto simp: rawOf_def cached_def stored_def split: option.split)
  show ?thesis
    by (rule undoneI1 [where e = "createObjectChange a"])
      (use assms(1) fresh raw in \<open>auto simp: CreateAccount_def case_prod_beta Let_def getAccount_eq intro!: undo_relI\<close>,
       auto simp: rawOf_def cached_def delete_conv' fun_eq_iff split: option.split)
qed

lemmas undone_ops = undone_balance undone_nonce undone_state undone_simple undone_access undone_code
  undone_destruct undone_create

lemma op_undone:
  assumes "applyOp c op s = Some t" "opAllowed b op s" "wf_al (sdAccessList s)"
    "op \<noteq> OSnapshot" "\<And>n. op \<noteq> ORevert n"
  shows "undone c s t"
  using assms by (cases op) (auto intro: undone_ops simp del: reader_snd)


section \<open>The frame invariant\<close>

definition undoTo :: "('key, 'z) stateLib_scheme \<Rightarrow> nat \<Rightarrow> StateDB \<Rightarrow> StateDB" where
  "undoTo c k s = fold (revertEntry c) (rev (drop k (sdJournal s))) s"

definition frame_revs :: "StateDB \<Rightarrow> nat \<Rightarrow> StateDB \<Rightarrow> bool" where
  "frame_revs base b s \<longleftrightarrow>
     (\<exists>inner. sdValidRevisions s = sdValidRevisions base @ (b, length (sdJournal base)) # inner \<and>
        sorted (map snd inner) \<and>
        (\<forall>(i, n) \<in> set inner. b < i \<and> length (sdJournal base) \<le> n \<and> n \<le> length (sdJournal s))) \<and>
     (\<forall>(i, n) \<in> set (sdValidRevisions base). i < b) \<and> b < sdNextRevisionID s"

definition frame_inv :: "('key, 'z) stateLib_scheme \<Rightarrow> StateDB \<Rightarrow> nat \<Rightarrow> StateDB \<Rightarrow> bool" where
  "frame_inv c base b s \<longleftrightarrow>
     length (sdJournal base) \<le> length (sdJournal s) \<and>
     undoable c (rev (drop (length (sdJournal base)) (sdJournal s))) s \<and>
     undo_rel c base (undoTo c (length (sdJournal base)) s) \<and> wf_al (sdAccessList s) \<and>
     frame_revs base b s"

lemma frame_revsE:
  assumes "frame_revs base b s"
  obtains inner where "sdValidRevisions s = sdValidRevisions base @ (b, length (sdJournal base)) # inner"
    "sorted (map snd inner)"
    "\<And>i n. (i, n) \<in> set inner \<Longrightarrow> b < i \<and> length (sdJournal base) \<le> n \<and> n \<le> length (sdJournal s)"
    "\<And>i n. (i, n) \<in> set (sdValidRevisions base) \<Longrightarrow> i < b" "b < sdNextRevisionID s"
  using assms unfolding frame_revs_def by fast

lemma frame_revsI:
  assumes "sdValidRevisions s = sdValidRevisions base @ (b, length (sdJournal base)) # inner"
    "sorted (map snd inner)"
    "\<And>i n. (i, n) \<in> set inner \<Longrightarrow> b < i \<and> length (sdJournal base) \<le> n \<and> n \<le> length (sdJournal s)"
    "\<And>i n. (i, n) \<in> set (sdValidRevisions base) \<Longrightarrow> i < b" "b < sdNextRevisionID s"
  shows "frame_revs base b s"
  using assms unfolding frame_revs_def by fast

lemma revertEntry_journal [simp]:
  "sdJournal (revertEntry c e s) = sdJournal s"
  "sdValidRevisions (revertEntry c e s) = sdValidRevisions s"
  "sdNextRevisionID (revertEntry c e s) = sdNextRevisionID s"
  by (cases e; simp add: case_prod_beta Let_def split: option.split)+

lemma fold_revert_journal [simp]:
  "sdJournal (fold (revertEntry c) es s) = sdJournal s"
  "sdValidRevisions (fold (revertEntry c) es s) = sdValidRevisions s"
  "sdNextRevisionID (fold (revertEntry c) es s) = sdNextRevisionID s"
  by (induction es arbitrary: s) auto

lemma undo_rel_ignores [simp]:
  "undo_rel c s (t\<lparr>sdJournal := J\<rparr>) = undo_rel c s t"
  "undo_rel c s (t\<lparr>sdValidRevisions := vs\<rparr>) = undo_rel c s t"
  "undo_rel c s (t\<lparr>sdNextRevisionID := n\<rparr>) = undo_rel c s t"
  by (simp_all add: undo_rel_def)

lemma frame_inv_op:
  assumes inv: "frame_inv c base b s" and op: "undone c s t"
  shows "frame_inv c base b t"
proof -
  let ?k = "length (sdJournal base)"
  from op obtain es where J: "sdJournal t = sdJournal s @ es" and un: "undoable c (rev es) t"
    and rel: "undo_rel c s (fold (revertEntry c) (rev es) t)"
    and vs: "sdValidRevisions t = sdValidRevisions s" "sdNextRevisionID t = sdNextRevisionID s"
    and al: "wf_al (sdAccessList t)"
    by (auto simp: undone_def)
  have k: "?k \<le> length (sdJournal s)" and us: "undoable c (rev (drop ?k (sdJournal s))) s"
    and base: "undo_rel c base (undoTo c ?k s)" and revs: "frame_revs base b s"
    using inv by (auto simp: frame_inv_def)
  from k have drop_t: "rev (drop ?k (sdJournal t)) = rev es @ rev (drop ?k (sdJournal s))" by (simp add: J)
  note step = fold_revert_cong [OF rel us]
  have "undo_rel c base (undoTo c ?k t)"
    using undo_rel_trans [OF base] step by (simp add: undoTo_def drop_t)
  moreover have "undoable c (rev (drop ?k (sdJournal t))) t"
    using un step by (simp add: drop_t undoable_append)
  moreover have "frame_revs base b t"
    using revs by (elim frame_revsE, intro frame_revsI) (auto simp: vs J trans_le_add1)
  ultimately show ?thesis using k al by (auto simp: frame_inv_def J)
qed

lemma lastRevision_bound: "lastRevision vs r n = Some i \<Longrightarrow> i < n \<and> fst (vs ! i) = r"
  by (induction n) (auto split: if_splits)

lemma lastRevision_hit:
  "i < n \<Longrightarrow> fst (vs ! i) = r \<Longrightarrow> (\<And>j. i < j \<Longrightarrow> j < n \<Longrightarrow> fst (vs ! j) \<noteq> r) \<Longrightarrow> lastRevision vs r n = Some i"
  by (induction n) (auto simp: less_Suc_eq)


lemma frame_inv_snapshot:
  assumes inv: "frame_inv c base b s"
  shows "frame_inv c base b (snd (Snapshot s))"
proof -
  let ?k = "length (sdJournal base)" and ?t = "snd (Snapshot s)"
  have same: "sdJournal ?t = sdJournal s" "sdAccessList ?t = sdAccessList s"
    "sdNextRevisionID ?t = Suc (sdNextRevisionID s)"
    "sdValidRevisions ?t = sdValidRevisions s @ [(sdNextRevisionID s, length (sdJournal s))]"
    by (simp_all add: Snapshot_def Let_def)
  have k: "?k \<le> length (sdJournal s)" and us: "undoable c (rev (drop ?k (sdJournal s))) s"
    and al: "wf_al (sdAccessList s)" and base: "undo_rel c base (undoTo c ?k s)"
    and revs: "frame_revs base b s"
    using inv by (auto simp: frame_inv_def)
  have "undo_rel c s ?t" using undo_rel_refl [OF al] by (simp add: Snapshot_def Let_def)
  note step = fold_revert_cong [OF this us]
  have "frame_revs base b ?t"
    using revs
  proof (rule frame_revsE, goal_cases)
    case (1 inner)
    show ?case
      by (rule frame_revsI [where inner = "inner @ [(sdNextRevisionID s, length (sdJournal s))]"])
        (use 1 k in \<open>force simp: same sorted_append\<close>)+
  qed
  moreover have "undo_rel c base (undoTo c ?k ?t)"
    using undo_rel_trans [OF base] step by (simp add: undoTo_def same)
  ultimately show ?thesis using step k al unfolding frame_inv_def same by blast
qed

lemma RevertToSnapshot_Some:
  assumes "RevertToSnapshot c s r = Some t"
  obtains i n where "lastRevision (sdValidRevisions s) r (length (sdValidRevisions s)) = Some i"
    "n = snd (sdValidRevisions s ! i)" "t = (undoTo c n s)\<lparr>sdJournal := take n (sdJournal s),
      sdValidRevisions := take i (sdValidRevisions s)\<rparr>"
  using assms
  by (auto simp: RevertToSnapshot_def Let_def journalRevert_def undoTo_def split: option.splits)

lemma frame_inv_revert:
  assumes inv: "frame_inv c base b s" and r: "b < r" and rev_t: "RevertToSnapshot c s r = Some t"
  shows "frame_inv c base b t"
proof -
  let ?k = "length (sdJournal base)" and ?J = "sdJournal s" and ?V = "sdValidRevisions s"
  let ?m = "length (sdValidRevisions base)"
  from rev_t obtain i n where last: "lastRevision ?V r (length ?V) = Some i" and n: "n = snd (?V ! i)"
    and t: "t = (undoTo c n s)\<lparr>sdJournal := take n ?J, sdValidRevisions := take i ?V\<rparr>"
    by (rule RevertToSnapshot_Some)
  have i: "i < length ?V" "fst (?V ! i) = r" using lastRevision_bound [OF last] by auto
  have us: "undoable c (rev (drop ?k ?J)) s" and al: "wf_al (sdAccessList s)"
    and base: "undo_rel c base (undoTo c ?k s)" and revs: "frame_revs base b s"
    using inv by (auto simp: frame_inv_def)
  from revs obtain inner where vs: "?V = sdValidRevisions base @ (b, ?k) # inner"
    and sorted: "sorted (map snd inner)"
    and inner: "\<And>i n. (i, n) \<in> set inner \<Longrightarrow> b < i \<and> ?k \<le> n \<and> n \<le> length ?J"
    and outer: "\<And>i n. (i, n) \<in> set (sdValidRevisions base) \<Longrightarrow> i < b" and nb: "b < sdNextRevisionID s"
    by (rule frame_revsE) (rule that)
  have "?m < i"
  proof (rule ccontr)
    assume "\<not> ?m < i"
    then have "fst (?V ! i) \<le> b"
      using outer [of "fst (?V ! i)" "snd (?V ! i)"] nth_mem [of i "sdValidRevisions base"]
      by (cases "i = ?m") (auto simp: vs nth_append)
    with i(2) r show False by simp
  qed
  define q where "q = i - Suc ?m"
  have q: "?V ! i = inner ! q" "q < length inner" "take i ?V = sdValidRevisions base @ (b, ?k) # take q inner"
    using \<open>?m < i\<close> i(1) by (auto simp: vs q_def nth_append nth_Cons' take_Cons' diff_Suc split: nat.split)
  have kn: "?k \<le> n" "n \<le> length ?J"
    using inner [of "fst (inner ! q)" "snd (inner ! q)"] nth_mem [OF q(2)] by (auto simp: n q(1))
  have low: "m \<le> n" if "(j, m) \<in> set (take q inner)" for j m
    using that sorted q(1,2) n sorted_nth_mono [OF sorted, of _ q]
    by (auto simp: in_set_conv_nth) (metis less_imp_le_nat order.strict_trans nth_map length_map snd_conv)
  have split_J: "rev (drop ?k ?J) = rev (drop n ?J) @ rev (drop ?k (take n ?J))"
    using kn by (metis append_take_drop_id drop_append length_take min_absorb2 rev_append
        diff_is_0_eq drop0)
  then have un: "undoable c (rev (drop n ?J)) s" "undoable c (rev (drop ?k (take n ?J))) (undoTo c n s)"
    using us by (auto simp: undoable_append undoTo_def)
  have self: "undo_rel c (undoTo c n s) (undoTo c n s)"
    using fold_revert_cong [OF undo_rel_refl [OF al] un(1)] by (simp add: undoTo_def)
  then have "undo_rel c (undoTo c n s) t" by (simp add: t)
  note step = fold_revert_cong [OF this un(2)]
  have "undoTo c ?k s = fold (revertEntry c) (rev (drop ?k (take n ?J))) (undoTo c n s)"
    by (simp add: undoTo_def split_J)
  then have "undo_rel c base (undoTo c ?k t)"
    using undo_rel_trans [OF base] step by (simp add: undoTo_def t)
  moreover have "frame_revs base b t"
    by (rule frame_revsI [where inner = "take q inner"])
      (use q(3) sorted inner low kn outer nb in \<open>auto simp: t undoTo_def take_map [symmetric] sorted_wrt_take dest: in_set_takeD\<close>)
  ultimately show ?thesis
    using step kn self by (auto simp: frame_inv_def t undo_rel_def)
qed


lemma runFrame_inv:
  "runFrame c b ops s = Some t \<Longrightarrow> frame_inv c base b s \<Longrightarrow> frame_inv c base b t"
proof (induction ops arbitrary: s)
  case (Cons op ops)
  from Cons.prems(1) obtain u where u: "opAllowed b op s" "applyOp c op s = Some u" "runFrame c b ops u = Some t"
    by (auto split: if_splits option.splits)
  consider (snap) "op = OSnapshot" | (rev) n where "op = ORevert n" | (plain) "op \<noteq> OSnapshot" "\<And>n. op \<noteq> ORevert n"
    by blast
  then have "frame_inv c base b u"
  proof cases
    case snap
    then show ?thesis using u(2) frame_inv_snapshot [OF Cons.prems(2)] by auto
  next
    case rev
    then show ?thesis using u(1,2) frame_inv_revert [OF Cons.prems(2)] by auto
  next
    case plain
    have "wf_al (sdAccessList s)" using Cons.prems(2) by (simp add: frame_inv_def)
    then show ?thesis using frame_inv_op [OF Cons.prems(2) op_undone [OF u(2,1)]] plain by blast
  qed
  then show ?case by (rule Cons.IH [OF u(3)])
qed simp

definition wf_state :: "StateDB \<Rightarrow> bool" where
  "wf_state s \<longleftrightarrow> wf_al (sdAccessList s) \<and> (\<forall>(i, n) \<in> set (sdValidRevisions s). i < sdNextRevisionID s)"

lemma wf_state_New [simp]: "wf_state (New d)"
  by (simp add: wf_state_def New_def)

lemma frame_inv_start:
  assumes "wf_state s" "Snapshot s = (b, s0)"
  shows "frame_inv c s b s0"
proof -
  have s0: "s0 = s\<lparr>sdNextRevisionID := b + 1, sdValidRevisions := sdValidRevisions s @ [(b, length (sdJournal s))]\<rparr>"
    "b = sdNextRevisionID s" using assms(2) by (auto simp: Snapshot_def Let_def)
  have "frame_revs s b s0"
    by (rule frame_revsI [where inner = "[]"]) (use assms(1) s0 in \<open>auto simp: wf_state_def\<close>)
  then show ?thesis using assms(1)
    by (simp add: frame_inv_def s0(1) undoTo_def wf_state_def undo_rel_refl)
qed

lemma revert_frame:
  assumes "frame_inv c base b s"
  shows "\<exists>t. RevertToSnapshot c s b = Some t \<and> undo_rel c base t"
proof -
  let ?V = "sdValidRevisions s" and ?m = "length (sdValidRevisions base)"
  have "frame_revs base b s" and rel: "undo_rel c base (undoTo c (length (sdJournal base)) s)"
    using assms by (auto simp: frame_inv_def)
  from this(1) obtain inner where vs: "?V = sdValidRevisions base @ (b, length (sdJournal base)) # inner"
    and inner: "\<And>i n. (i, n) \<in> set inner \<Longrightarrow> b < i \<and> length (sdJournal base) \<le> n \<and> n \<le> length (sdJournal s)"
    by (rule frame_revsE) (rule that)
  have "lastRevision ?V b (length ?V) = Some ?m"
  proof (rule lastRevision_hit)
    fix j assume "?m < j" "j < length ?V"
    then have "?V ! j \<in> set inner" by (auto simp: vs nth_append nth_Cons')
    then show "fst (?V ! j) \<noteq> b" using inner [of "fst (?V ! j)" "snd (?V ! j)"] by auto
  qed (simp_all add: vs)
  then show ?thesis using rel
    by (simp add: RevertToSnapshot_def journalRevert_def Let_def undoTo_def vs)
qed

text \<open>C12: take a call frame that changes balances, nonces, code, storage, transient storage, refunds,
  logs and access lists, creates accounts only at addresses where none exists, self-destructs accounts but
  writes none that is marked self-destructed, and takes nested snapshots and reverts to them.  Then
  \<^verbatim>\<open>RevertToSnapshot\<close> on the snapshot taken at its start does not panic and gives back the balance, nonce,
  code hash and self-destruct mark of every account, every storage and transient slot, the slots of the
  access list, the refund counter and the logs.  \<^verbatim>\<open>Exist\<close> and \<^verbatim>\<open>IsNewContract\<close> are not among them: an
  account touched by the frame stays in the cache.\<close>

theorem RevertToSnapshot_undoes_frame:
  assumes "wf_state s" "Snapshot s = (b, s0)" "runFrame c b ops s0 = Some s1"
  shows "\<exists>s2. RevertToSnapshot c s1 b = Some s2 \<and>
     (\<forall>a. fst (GetBalance c s2 a) = fst (GetBalance c s a) \<and> fst (GetNonce c s2 a) = fst (GetNonce c s a) \<and>
          fst (GetCodeHash c s2 a) = fst (GetCodeHash c s a) \<and>
          HasSelfDestructed s2 a = HasSelfDestructed s a) \<and>
     (\<forall>a k. fst (GetState s2 a k) = fst (GetState s a k) \<and>
          GetTransientState s2 a k = GetTransientState s a k \<and>
          alContains (sdAccessList s2) a k = alContains (sdAccessList s) a k) \<and>
     sdRefund s2 = sdRefund s \<and> sdLogs s2 = sdLogs s"
proof -
  obtain s2 where s2: "RevertToSnapshot c s1 b = Some s2" "undo_rel c s s2"
    using revert_frame [OF runFrame_inv [OF assms(3) frame_inv_start [OF assms(1,2)]]] by blast
  show ?thesis
    by (rule exI [of _ s2])
      (simp add: s2(1) accessor_views accountOf_rel [OF s2(2)] GetState_fst GetTransientState_def
        alContains_view HasSelfDestructed_def undo_relD [OF s2(2)])
qed

end
