(* ===== verification/StateFinal.thy ===== *)
theory StateFinal
  imports StateUndo Evidence
begin

text \<open>
  The end of a transaction and the durable store: what \<^verbatim>\<open>Finalise\<close> leaves of every account and
  slot, that no snapshot survives it, that the key layout keeps accounts, slots and code apart, and
  that a flushed database reads back what the cache showed.  Concrete instances of the
  parameters (\<^verbatim>\<open>exLib\<close>) serve the witnesses.
\<close>

section \<open>A concrete instance of the parameters\<close>

fun exAccRlp :: "rlp \<Rightarrow> byte list" where
  "exAccRlp (RList [RUint n, RBig (Some v), RBytes h]) = beBytes 8 n @ beBytes 32 (nat v) @ h"
| "exAccRlp _ = []"

definition exLib :: "address stateLib" where
  "exLib = cryptoLib.extend (exCrypto\<lparr>rlpEncode := exAccRlp\<rparr>)
     \<lparr>rlpDecodeAccount = (\<lambda>b. if length b = 72
        then Some (of_nat (beNat (take 8 b)), int (beNat (take 32 (drop 8 b))), drop 40 b) else None)\<rparr>"

text \<open>The RLP codec of an account decodes what it encodes.\<close>

definition account_codec :: "('key, 'z) stateLib_scheme \<Rightarrow> bool" where
  "account_codec c \<longleftrightarrow> (\<forall>n v h. rlpDecodeAccount c (rlpEncode c (RList [RUint (unat n),
     RBig (Some (uint (v :: u256))), RBytes (hashBytes h)])) = Some (n, uint v, hashBytes h))"

lemma exLib_fields:
  "keccak exLib = keccak exCrypto" "rlpEncode exLib = exAccRlp"
  "rlpDecodeAccount exLib = (\<lambda>b. if length b = 72
        then Some (of_nat (beNat (take 8 b)), int (beNat (take 32 (drop 8 b))), drop 40 b) else None)"
  by (simp_all add: exLib_def cryptoLib.extend_def)

lemma exLib_codec: "account_codec exLib"
proof -
  have "unat v < 256 ^ 32" for v :: u256 using unat_less_pow [of v] by (simp add: power_mult [symmetric])
  moreover have "unat n < 256 ^ 8" for n :: u64 using unat_less_pow [of n] by (simp add: power_mult [symmetric])
  ultimately show ?thesis by (simp add: account_codec_def exLib_fields beNat_beBytes)
qed

lemma account_roundtrip:
  "account_codec c \<Longrightarrow> decodeAccount c (encodeAccount c acc) = Some acc"
  by (simp add: decodeAccount_def encodeAccount_def account_codec_def)


section \<open>Key layout\<close>

text \<open>No two objects of the state share a database key: the three key families are pairwise
  disjoint, and within a family the key determines the account, the slot or the code hash.\<close>

lemma state_keys_injective:
  "(accountKey a = accountKey b \<longleftrightarrow> a = b) \<and> (storageKey a k = storageKey b l \<longleftrightarrow> a = b \<and> k = l) \<and>
   (codeKey h = codeKey g \<longleftrightarrow> h = g) \<and>
   accountKey a \<noteq> storageKey b k \<and> accountKey a \<noteq> codeKey h \<and> storageKey a k \<noteq> codeKey h"
  by (simp_all add: accountKey_def storageKey_def codeKey_def prefixAccount_def prefixStorage_def prefixCode_def)

lemmas key_simps = accountKey_def storageKey_def codeKey_def prefixAccount_def prefixStorage_def prefixCode_def


section \<open>Finalise\<close>

lemma deleteAccount_views [simp]:
  "rawOf c (deleteAccount a s) = (rawOf c s)(a := fromDb c (sdDb s) a)"
  "slotOf (deleteAccount a s) = slotOf s" "sdDb (deleteAccount a s) = sdDb s"
  "sdSuicides (deleteAccount a s) = sdSuicides s" "sdDirties (deleteAccount a s) = sdDirties s"
  "sdStorage (deleteAccount a s) = sdStorage s"
  by (simp_all add: deleteAccount_def)

lemma wipe_fold:
  fixes ids :: "storageID list" and a :: address
  defines "w \<equiv> fold (\<lambda>i t. if fst i = a then putStorage i 0 t else t)"
  shows "rawOf c (w ids s) = rawOf c s" "sdDb (w ids s) = sdDb s" "sdSuicides (w ids s) = sdSuicides s"
    "sdDirties (w ids s) = sdDirties s"
    "slotOf (w ids s) = (\<lambda>i. if fst i = a \<and> i \<in> set ids then 0 else slotOf s i)"
    "dom (map_of (sdStorage (w ids s))) = dom (map_of (sdStorage s)) \<union> {i \<in> set ids. fst i = a}"
  unfolding w_def by (induction ids arbitrary: s) (auto simp: fun_eq_iff)

lemma wipeStorage_views [simp]:
  "rawOf c (wipeStorage a s) = rawOf c s" "sdDb (wipeStorage a s) = sdDb s"
  "sdSuicides (wipeStorage a s) = sdSuicides s" "sdDirties (wipeStorage a s) = sdDirties s"
  "dom (map_of (sdStorage (wipeStorage a s))) = dom (map_of (sdStorage s))"
  "slotOf (wipeStorage a s) = (\<lambda>i. if fst i = a \<and> i \<in> dom (map_of (sdStorage s)) then 0 else slotOf s i)"
  unfolding wipeStorage_def wipe_fold by (auto simp: dom_map_of_conv_image_fst)

lemma suicides_fold:
  fixes as :: "address list"
  defines "w \<equiv> fold (\<lambda>a t. wipeStorage a (deleteAccount a t))"
  shows "rawOf c (w as s) = (\<lambda>a. if a \<in> set as then fromDb c (sdDb s) a else rawOf c s a)"
    "sdDb (w as s) = sdDb s" "sdSuicides (w as s) = sdSuicides s" "sdDirties (w as s) = sdDirties s"
    "dom (map_of (sdStorage (w as s))) = dom (map_of (sdStorage s))"
    "slotOf (w as s) = (\<lambda>i. if fst i \<in> set as \<and> i \<in> dom (map_of (sdStorage s)) then 0 else slotOf s i)"
  unfolding w_def by (induction as arbitrary: s) (auto simp: fun_eq_iff)

lemma Empty_snd [simp]:
  "snd (Empty c s a) = snd (getAccount c s a)"
  by (simp add: Empty_def case_prod_beta split: option.split)

lemma empty_fold:
  fixes as :: "address list" and c :: "('key, 'z) stateLib_scheme"
  defines "w \<equiv> fold (\<lambda>a t. (let (e, t1) = Empty c t a in if e then deleteAccount a t1 else t1))"
  shows "sdDb (w as s) = sdDb s" "sdSuicides (w as s) = sdSuicides s" "slotOf (w as s) = slotOf s"
    "a \<notin> set (sdSuicides s) \<Longrightarrow>
     rawOf c (w as s) a = (if a \<in> set as \<and> rawOf c s a = NewAccount c then fromDb c (sdDb s) a else rawOf c s a)"
    "a \<in> set (sdSuicides s) \<Longrightarrow> rawOf c s a = fromDb c (sdDb s) a \<Longrightarrow> rawOf c (w as s) a = fromDb c (sdDb s) a"
  unfolding w_def
  by (induction as arbitrary: s) (auto simp: Let_def case_prod_beta accessor_views accountOf_def split: if_splits)

lemmas finaliseSuicides_views = suicides_fold [where as = "sdSuicides s" and s = s for s, folded finaliseSuicides_def]

lemmas finaliseEmpty_views = empty_fold [where as = "map fst (sdDirties s)" and s = s for s, folded finaliseEmpty_def]

lemma Finalise_views:
  "accountOf c (Finalise c s d) a =
     (if a \<in> set (sdSuicides s) \<or> d \<and> a \<in> fst ` set (sdDirties s) \<and> accountOf c s a = NewAccount c
      then fromDb c (sdDb s) a else accountOf c s a)"
  "slotOf (Finalise c s d) i =
     (if fst i \<in> set (sdSuicides s) \<and> i \<in> dom (map_of (sdStorage s)) then 0 else slotOf s i)"
  by (auto simp: Finalise_def Let_def finaliseEmpty_views finaliseSuicides_views accountOf_def)

text \<open>The exact effect of \<^verbatim>\<open>Finalise(true)\<close> on what the accessors read.  An account that was
  destroyed, or that was touched and is empty, is dropped from the cache only, so it reads as its
  last committed value; every other account keeps its value.  A slot reads zero when its account was
  destroyed and the slot was cached, and keeps its value otherwise.\<close>

lemma Finalise_effect:
  "fst (GetBalance c (Finalise c s True) a) =
     (if HasSelfDestructed s a \<or> a \<in> fst ` set (sdDirties s) \<and> fst (Empty c s a)
      then aBalance (fromDb c (sdDb s) a) else fst (GetBalance c s a)) \<and>
   fst (GetNonce c (Finalise c s True) a) =
     (if HasSelfDestructed s a \<or> a \<in> fst ` set (sdDirties s) \<and> fst (Empty c s a)
      then aNonce (fromDb c (sdDb s) a) else fst (GetNonce c s a)) \<and>
   fst (GetState (Finalise c s True) a k) =
     (if HasSelfDestructed s a \<and> (a, k) \<in> fst ` set (sdStorage s) then 0 else fst (GetState s a k))"
  by (auto simp: accessor_views GetState_fst Finalise_views HasSelfDestructed_def dom_map_of_conv_image_fst)

text \<open>C14: an account that owns a committed balance and no nonce or code (a module escrow) and
  that a transaction empties gets its committed balance back when the transaction is finalised.\<close>

theorem emptied_account_resurrects:
  assumes "sdSuicides s = []" "accountOf c s a = \<lparr>aNonce = 0, aBalance = v, aCodeHash = EmptyCodeHash c\<rparr>"
    "fromDb c (sdDb s) a = \<lparr>aNonce = 0, aBalance = w, aCodeHash = EmptyCodeHash c\<rparr>"
  shows "fst (GetBalance c (snd (SubBalance c s a v)) a) = 0 \<and>
         fst (GetBalance c (Finalise c (snd (SubBalance c s a v)) True) a) = w"
proof -
  let ?t = "snd (SubBalance c s a v)"
  have acc: "accountOf c ?t a = NewAccount c"
    using assms(1,2) by (auto simp: SubBalance_def case_prod_beta Let_def accountOf_def NewAccount_def)
  have db: "sdDb ?t = sdDb s" by (simp add: SubBalance_def case_prod_beta Let_def)
  have "map_of (sdDirties ?t) a \<noteq> None"
    by (simp add: SubBalance_def case_prod_beta Let_def journalAppend_def update_conv')
  then have "a \<in> fst ` set (sdDirties ?t)" by (metis map_of_eq_None_iff)
  then show ?thesis
    using acc db assms(3) by (simp add: accessor_views Finalise_views NewAccount_def)
qed

text \<open>No snapshot survives \<^verbatim>\<open>Finalise\<close>: reverting to any identifier afterwards panics.\<close>

lemma RevertToSnapshot_after_Finalise_panics:
  "RevertToSnapshot c (Finalise c s d) revid = None"
  by (simp add: RevertToSnapshot_def Finalise_def Let_def)

text \<open>C15: a contract that self-destructs and then receives value in a call frame that is reverted
  keeps its balance but loses its nonce and its code hash.\<close>

theorem reverted_selfdestruct_loses_code:
  assumes "\<not> HasSelfDestructed s a" "cached s a"
    "Snapshot s = (b, s0)" "s1 = snd (AddBalancePrev c (snd (SelfDestruct c s0 a)) a v)"
  shows "\<exists>s2. RevertToSnapshot c s1 b = Some s2 \<and> \<not> HasSelfDestructed s2 a \<and>
     fst (GetBalance c s2 a) = fst (GetBalance c s a) \<and>
     fst (GetNonce c s2 a) = 0 \<and> fst (GetCodeHash c s2 a) = EmptyCodeHash c"
proof -
  have s0: "s0 = s\<lparr>sdNextRevisionID := b + 1, sdValidRevisions := sdValidRevisions s @ [(b, length (sdJournal s))]\<rparr>"
    using assms(3) by (auto simp: Snapshot_def Let_def)
  let ?bal = "aBalance (rawOf c s a)" and ?d = "snd (SelfDestruct c s0 a)"
  have d: "rawOf c ?d a = (rawOf c s a)\<lparr>aBalance := 0\<rparr>" "a \<in> set (sdSuicides ?d)" "cached ?d a"
    "sdJournal ?d = sdJournal s @ [suicideChange a False ?bal]"
    "sdValidRevisions ?d = sdValidRevisions s @ [(b, length (sdJournal s))]"
    using assms(1,2) by (simp_all add: s0 SelfDestruct_def getAccount_eq Let_def HasSelfDestructed_def)
  have s1: "a \<in> set (sdSuicides s1)" "sdValidRevisions s1 = sdValidRevisions s @ [(b, length (sdJournal s))]"
    "sdJournal s1 = sdJournal s @ [suicideChange a False ?bal, balanceChange a 0]"
    using d by (simp_all add: assms(4) AddBalancePrev_def case_prod_beta Let_def accountOf_def NewAccount_def)
  let ?w = "revertEntry c (balanceChange a 0) s1"
  have w: "cached ?w a" "rawOf c ?w a = NewAccount c" "entryOk (suicideChange a False ?bal) ?w"
    using s1(1) by (simp_all add: case_prod_beta Let_def accountOf_def NewAccount_def)
  have undo: "undoTo c (length (sdJournal s)) s1 = revertEntry c (suicideChange a False ?bal) ?w"
    by (simp add: undoTo_def s1(3))
  have "lastRevision (sdValidRevisions s1) b (length (sdValidRevisions s1)) = Some (length (sdValidRevisions s))"
    by (simp add: s1(2) nth_append)
  then have "RevertToSnapshot c s1 b = Some ((undoTo c (length (sdJournal s)) s1)
      \<lparr>sdJournal := sdJournal s, sdValidRevisions := sdValidRevisions s\<rparr>)"
    by (simp add: RevertToSnapshot_def journalRevert_def undoTo_def s1 Let_def nth_append)
  then show ?thesis
    unfolding undo revert_suicide [OF w(3)]
    using w assms(1) by (simp add: HasSelfDestructed_def accessor_views accountOf_def NewAccount_def)
qed


section \<open>Witnesses\<close>

definition exFrame :: "stateOp list" where
  "exFrame = [OCreateAccount 11, OAddBalance 11 5, OSetNonce 11 2, OSetState 11 7 9, OSnapshot, OSelfDestruct 11,
     ORevert 1, OAddSlot 11 7, OSetTransient 11 3 4, OAddRefund 6, OSubRefund 2]"

theorem RevertToSnapshot_undoes_frame_witness:
  "\<exists>s1 s2. runFrame exLib 0 exFrame (snd (Snapshot (New []))) = Some s1 \<and> fst (GetBalance exLib s1 11) = 5 \<and>
     RevertToSnapshot exLib s1 0 = Some s2 \<and> fst (GetBalance exLib s2 11) = 0 \<and> sdRefund s2 = 0"
proof -
  have "case runFrame exLib 0 exFrame (snd (Snapshot (New []))) of None \<Rightarrow> False
      | Some s1 \<Rightarrow> fst (GetBalance exLib s1 11) = 5" by code_simp
  then obtain s1 where s1: "runFrame exLib 0 exFrame (snd (Snapshot (New []))) = Some s1"
    "fst (GetBalance exLib s1 11) = 5" by (auto split: option.splits)
  have "Snapshot (New []) = (0, snd (Snapshot (New [])))" by (simp add: Snapshot_def New_def)
  moreover have "fst (GetBalance exLib (New []) 11) = 0" "sdRefund (New []) = 0"
    by (simp_all add: New_def accessor_views accountOf_def rawOf_def fromDb_def NewAccount_def)
  ultimately show ?thesis
    using RevertToSnapshot_undoes_frame [OF wf_state_New _ s1(1)] s1 by metis
qed

definition exEscrow :: StateDB where
  "exEscrow = New [(accountKey 257, encodeAccount exLib
     \<lparr>aNonce = 0, aBalance = 100, aCodeHash = EmptyCodeHash exLib\<rparr>)]"

theorem emptied_account_resurrects_witness:
  "fst (GetBalance exLib (snd (SubBalance exLib exEscrow 257 100)) 257) = 0 \<and>
   fst (GetBalance exLib (Finalise exLib (snd (SubBalance exLib exEscrow 257 100)) True) 257) = 100"
  by (rule emptied_account_resurrects)
    (simp_all add: exEscrow_def New_def accountOf_def rawOf_def fromDb_def account_roundtrip [OF exLib_codec])

theorem reverted_selfdestruct_loses_code_witness:
  "\<exists>s2. RevertToSnapshot exLib (snd (AddBalancePrev exLib (snd (SelfDestruct exLib
       (snd (Snapshot (putAccount 11 \<lparr>aNonce = 1, aBalance = 7, aCodeHash = 5\<rparr> (New [])))) 11)) 11 3)) 0 = Some s2 \<and>
     fst (GetBalance exLib s2 11) = 7 \<and> fst (GetNonce exLib s2 11) = 0 \<and>
     fst (GetCodeHash exLib s2 11) = EmptyCodeHash exLib"
proof -
  let ?s = "putAccount 11 \<lparr>aNonce = 1, aBalance = 7, aCodeHash = 5\<rparr> (New [])"
  have "\<not> HasSelfDestructed ?s 11" "cached ?s 11" "Snapshot ?s = (0, snd (Snapshot ?s))"
    "fst (GetBalance exLib ?s 11) = 7"
    by (simp_all add: HasSelfDestructed_def New_def Snapshot_def accessor_views accountOf_def)
  then show ?thesis
    using reverted_selfdestruct_loses_code [of ?s 11 0 "snd (Snapshot ?s)" _ exLib 3] by auto
qed

end
