(* ===== verification/StateFlush.thy ===== *)
theory StateFlush
  imports StateFinal
begin

text \<open>
  Durability.  A session is what a node does with one state database between two commits; the
  invariant \<^verbatim>\<open>coherent\<close> says that whatever the cache holds beyond the store is marked dirty, so that
  \<^verbatim>\<open>FlushDirtyTo\<close> followed by opening the store again shows the same accounts and slots.
\<close>

section \<open>Cache coherence\<close>

definition coherentAcc :: "('key, 'z) stateLib_scheme \<Rightarrow> address set \<Rightarrow> StateDB \<Rightarrow> bool" where
  "coherentAcc c X s \<longleftrightarrow> (\<forall>a acc. map_of (sdAccounts s) a = Some acc \<longrightarrow>
     a \<in> X \<or> a \<in> set (sdAccountDirty s) \<or> acc = fromDb c (sdDb s) a)"

definition coherentSlots :: "StateDB \<Rightarrow> bool" where
  "coherentSlots s \<longleftrightarrow> (\<forall>i v. map_of (sdStorage s) i = Some v \<longrightarrow>
     i \<in> set (sdStorageDirty s) \<or>
     v = (case map_of (sdDb s) (storageKey (fst i) (snd i)) of None \<Rightarrow> 0 | Some b \<Rightarrow> BytesToHash b)) \<and>
     (\<forall>i \<in> set (sdStorageDirty s). map_of (sdStorage s) i \<noteq> None)"

abbreviation coherent :: "('key, 'z) stateLib_scheme \<Rightarrow> StateDB \<Rightarrow> bool" where
  "coherent c s \<equiv> coherentAcc c {} s \<and> coherentSlots s"

lemma coherentAcc_weaken: "coherentAcc c {} s \<Longrightarrow> coherentAcc c X s"
  by (auto simp: coherentAcc_def)

lemma dirty_fields [simp]:
  "sdAccountDirty (putAccount a acc s) = sdAccountDirty s" "sdStorageDirty (putAccount a acc s) = sdStorageDirty s"
  "sdStorageDirty (markAccount a s) = sdStorageDirty s"
  "set (sdAccountDirty (markAccount a s)) = insert a (set (sdAccountDirty s))"
  "sdAccountDirty (putStorage i v s) = sdAccountDirty s"
  "set (sdStorageDirty (putStorage i v s)) = insert i (set (sdStorageDirty s))"
  "sdAccountDirty (journalAppend e s) = sdAccountDirty s" "sdStorageDirty (journalAppend e s) = sdStorageDirty s"
  "sdAccountDirty (noteRead k s) = sdAccountDirty s" "sdStorageDirty (noteRead k s) = sdStorageDirty s"
  "sdAccountDirty (noteWrite k s) = sdAccountDirty s" "sdStorageDirty (noteWrite k s) = sdStorageDirty s"
  by (simp_all add: putAccount_def markAccount_def putStorage_def journalAppend_def noteRead_def noteWrite_def
      Let_def split: option.split)

lemma coherent_simps [simp]:
  "coherentAcc c X (journalAppend e s) = coherentAcc c X s" "coherentSlots (journalAppend e s) = coherentSlots s"
  "coherentAcc c X (noteRead k s) = coherentAcc c X s" "coherentSlots (noteRead k s) = coherentSlots s"
  "coherentAcc c X (noteWrite k s) = coherentAcc c X s" "coherentSlots (noteWrite k s) = coherentSlots s"
  "coherentAcc c X (putStorage i v s) = coherentAcc c X s" "coherentSlots (putAccount a acc s) = coherentSlots s"
  "coherentSlots (markAccount a s) = coherentSlots s"
  "coherentAcc c X (s\<lparr>sdCode := co\<rparr>) = coherentAcc c X s" "coherentSlots (s\<lparr>sdCode := co\<rparr>) = coherentSlots s"
  "coherentAcc c X (s\<lparr>sdRefund := r\<rparr>) = coherentAcc c X s" "coherentSlots (s\<lparr>sdRefund := r\<rparr>) = coherentSlots s"
  "coherentAcc c X (s\<lparr>sdLogs := l\<rparr>) = coherentAcc c X s" "coherentSlots (s\<lparr>sdLogs := l\<rparr>) = coherentSlots s"
  "coherentAcc c X (s\<lparr>sdAccessList := al\<rparr>) = coherentAcc c X s" "coherentSlots (s\<lparr>sdAccessList := al\<rparr>) = coherentSlots s"
  "coherentAcc c X (s\<lparr>sdTransient := t\<rparr>) = coherentAcc c X s" "coherentSlots (s\<lparr>sdTransient := t\<rparr>) = coherentSlots s"
  "coherentAcc c X (s\<lparr>sdSuicides := ds\<rparr>) = coherentAcc c X s" "coherentSlots (s\<lparr>sdSuicides := ds\<rparr>) = coherentSlots s"
  "coherentAcc c X (s\<lparr>sdNewContracts := nc\<rparr>) = coherentAcc c X s" "coherentSlots (s\<lparr>sdNewContracts := nc\<rparr>) = coherentSlots s"
  "coherentAcc c X (s\<lparr>sdStorageOrigin := so\<rparr>) = coherentAcc c X s" "coherentSlots (s\<lparr>sdStorageOrigin := so\<rparr>) = coherentSlots s"
  "coherentAcc c X (s\<lparr>sdJournal := js\<rparr>) = coherentAcc c X s" "coherentSlots (s\<lparr>sdJournal := js\<rparr>) = coherentSlots s"
  "coherentAcc c X (s\<lparr>sdDirties := js'\<rparr>) = coherentAcc c X s" "coherentSlots (s\<lparr>sdDirties := js'\<rparr>) = coherentSlots s"
  "coherentAcc c X (s\<lparr>sdValidRevisions := vs\<rparr>) = coherentAcc c X s" "coherentSlots (s\<lparr>sdValidRevisions := vs\<rparr>) = coherentSlots s"
  "coherentAcc c X (s\<lparr>sdNextRevisionID := n\<rparr>) = coherentAcc c X s" "coherentSlots (s\<lparr>sdNextRevisionID := n\<rparr>) = coherentSlots s"
  by (simp_all add: coherentAcc_def coherentSlots_def)

lemma coherent_put: "coherentAcc c {a} s \<Longrightarrow> coherentAcc c {a} (putAccount a acc s)"
  by (auto simp: coherentAcc_def)

lemma coherent_mark: "coherentAcc c {a} s \<Longrightarrow> coherentAcc c {} (markAccount a s)"
  by (auto simp: coherentAcc_def)

lemma coherent_putStorage: "coherentSlots s \<Longrightarrow> coherentSlots (putStorage i v s)"
  by (auto simp: coherentSlots_def)

lemma coherent_load [intro]:
  assumes "coherentAcc c X s"
  shows "coherentAcc c X (snd (getAccount c s a))" "coherentAcc c X (snd (GetOrNewAccount c s a))"
  using assms
  by (auto simp: GetOrNewAccount_def getAccount_eq coherentAcc_def rawOf_def cached_def split: option.splits if_splits)

lemma coherentSlots_load [simp]:
  "coherentSlots (snd (getAccount c s a)) = coherentSlots s"
  "coherentSlots (snd (GetOrNewAccount c s a)) = coherentSlots s"
  by (simp_all add: GetOrNewAccount_def getAccount_eq)

lemma coherent_GetState:
  "coherentSlots s \<Longrightarrow> coherentSlots (snd (GetState s a k))"
  "coherentAcc c X s \<Longrightarrow> coherentAcc c X (snd (GetState s a k))"
  by (auto simp: GetState_def Let_def coherentSlots_def coherentAcc_def update_conv' split: option.splits)

lemma coherent_GetCode:
  "coherent c s \<Longrightarrow> coherent c (snd (GetCode c s a))"
  using GetCode_snd [of c s a] coherent_load(1) [of c "{}" "noteRead (AccountKey a) (noteRead (AccountKey a) s)" a]
  by auto

lemmas coherent_intros = coherent_put coherent_mark coherent_putStorage coherent_load coherent_GetState

lemma coherent_revertEntry: "coherent c s \<Longrightarrow> coherent c (revertEntry c e s)"
proof (cases e)
  case (createObjectChange a)
  then show "coherent c s \<Longrightarrow> ?thesis"
    by (auto simp: coherentAcc_def coherentSlots_def delete_conv' split: if_splits)
next
  case (suicideChange a prev bal)
  then show "coherent c s \<Longrightarrow> ?thesis"
    by (auto simp: case_prod_beta Let_def intro!: coherent_intros intro: coherentAcc_weaken split: option.split)
qed (auto simp: case_prod_beta Let_def intro!: coherent_intros intro: coherentAcc_weaken split: option.split)

lemma coherent_fold_revert: "coherent c s \<Longrightarrow> coherent c (fold (revertEntry c) es s)"
  by (induction es arbitrary: s) (simp_all add: coherent_revertEntry)


lemma fold_revert_db [simp]: "sdDb (fold (revertEntry c) es s) = sdDb s"
proof (induction es arbitrary: s)
  case (Cons e es)
  have "sdDb (revertEntry c e s) = sdDb s"
    by (cases e) (simp_all add: case_prod_beta Let_def split: option.split)
  with Cons show ?case by simp
qed simp

lemma coherent_op:
  assumes "applyOp c op s = Some t" "coherent c s"
  shows "coherent c t \<and> sdDb t = sdDb s"
proof -
  have wk: "coherentAcc c X s" for X using assms(2) coherentAcc_weaken by blast
  show ?thesis
proof (cases op)
  case (OSetCode a code)
  let ?s1 = "snd (GetOrNewAccount c (noteWrite (AccountKey a) s) a)"
  have 1: "coherent c ?s1" "sdDb ?s1 = sdDb s" using assms(2) by (auto intro: coherent_load)
  have 2: "coherent c (snd (GetCode c ?s1 a))" "sdDb (snd (GetCode c ?s1 a)) = sdDb s"
    using coherent_GetCode [OF 1(1)] GetCode_snd [of c ?s1 a] by auto
  have "coherentAcc c {a} ?s1" "coherentAcc c {a} (snd (GetCode c ?s1 a))"
    using 1 2 by (auto intro: coherentAcc_weaken)
  with 1 2 show ?thesis using assms OSetCode
    by (auto simp: SetCodeJournaled_def case_prod_beta Let_def intro!: coherent_mark coherent_put)
next
  case (ORevert n)
  then show ?thesis using assms coherent_fold_revert [OF assms(2)]
    by (auto simp: RevertToSnapshot_def journalRevert_def Let_def split: option.splits)
next
  case (OSubRefund g)
  then show ?thesis using assms by (auto simp: SubRefund_def Let_def split: if_splits)
qed (use assms in \<open>auto simp: SubBalance_def AddBalancePrev_def SetBalanceJournaled_def SetNonceJournaled_def
    SetStateJournaled_def SetTransientState_def AddRefund_def AddLog_def AddAddressToAccessList_def
    AddSlotToAccessList_def CreateAccount_def CreateContract_def SelfDestruct_def SelfDestruct6780_def
    Snapshot_def case_prod_beta Let_def wk intro!: coherent_intros split: option.splits\<close>)
qed


section \<open>Sessions\<close>

text \<open>What a node does with a state database over a store: the operations of the executors, the
  unjournaled setters of genesis and of the native modules, and \<^verbatim>\<open>Finalise\<close> after each transaction.\<close>

inductive session :: "('key, 'z) stateLib_scheme \<Rightarrow> (byte list \<times> byte list) list \<Rightarrow> StateDB \<Rightarrow> bool"
  for c :: "('key, 'z) stateLib_scheme" and d :: "(byte list \<times> byte list) list" where
  opened: "session c d (New d)"
| operate: "session c d s \<Longrightarrow> applyOp c op s = Some t \<Longrightarrow> session c d t"
| set_state: "session c d s \<Longrightarrow> session c d (SetState c s a k v)"
| set_balance: "session c d s \<Longrightarrow> session c d (SetBalance c s a bal)"
| set_nonce: "session c d s \<Longrightarrow> session c d (SetNonce c s a n)"
| prepare: "session c d s \<Longrightarrow> session c d (Prepare s sender coinbase dest pres)"
| finalised: "session c d s \<Longrightarrow> session c d (Finalise c s del)"

lemma coherent_deleteAccount: "coherent c s \<Longrightarrow> coherent c (deleteAccount a s)"
proof -
  have "coherentAcc c {} s \<Longrightarrow> coherentAcc c {a} (s\<lparr>sdAccounts := AList.delete a (sdAccounts s)\<rparr>)"
    by (auto simp: coherentAcc_def delete_conv' split: if_splits)
  moreover have "coherentSlots (s\<lparr>sdAccounts := AList.delete a (sdAccounts s)\<rparr>) = coherentSlots s"
    by (simp add: coherentSlots_def)
  ultimately show "coherent c s \<Longrightarrow> ?thesis"
    by (simp add: deleteAccount_def coherent_mark)
qed

lemma coherent_wipe: "coherent c s \<Longrightarrow> coherent c (wipeStorage a s)"
proof -
  have "coherent c t \<Longrightarrow> coherent c (fold (\<lambda>i t. if fst i = a then putStorage i 0 t else t) ids t)" for ids t
    by (induction ids arbitrary: t) (simp_all add: coherent_putStorage)
  then show "coherent c s \<Longrightarrow> ?thesis" by (simp add: wipeStorage_def)
qed

lemma coherent_Finalise:
  assumes "coherent c s"
  shows "coherent c (Finalise c s del)"
proof -
  have sui: "coherent c t \<Longrightarrow> coherent c (fold (\<lambda>a t. wipeStorage a (deleteAccount a t)) as t)" for as t
  proof (induction as arbitrary: t)
    case (Cons a as)
    show ?case using Cons.IH [OF coherent_wipe [OF coherent_deleteAccount [OF Cons.prems]]] by simp
  qed simp
  have emp: "coherent c t \<Longrightarrow>
      coherent c (fold (\<lambda>a t. (let (e, t1) = Empty c t a in if e then deleteAccount a t1 else t1)) as t)" for as t
  proof (induction as arbitrary: t)
    case (Cons a as)
    then show ?case using coherent_load(1) [of c "{}" t a] coherent_deleteAccount [of c "snd (getAccount c t a)" a]
      by (auto simp: case_prod_beta Let_def)
  qed simp
  show ?thesis
    using sui [OF assms] emp [OF sui [OF assms]]
    by (auto simp: Finalise_def Let_def finaliseEmpty_def finaliseSuicides_def)
qed

lemma coherent_Prepare:
  "coherent c s \<Longrightarrow> coherent c (Prepare s x y z ps)" "sdDb (Prepare s x y z ps) = sdDb s"
proof -
  have add: "coherent c t \<Longrightarrow> coherent c (AddAddressToAccessList t a)"
    "sdDb (AddAddressToAccessList t a) = sdDb t" for t a
    by (auto simp: AddAddressToAccessList_def case_prod_beta Let_def)
  have addf: "coherent c t \<Longrightarrow> coherent c (fold (\<lambda>a t. AddAddressToAccessList t a) as t)"
    "sdDb (fold (\<lambda>a t. AddAddressToAccessList t a) as t) = sdDb t" for as t
    by (induction as arbitrary: t) (simp_all add: add)
  show "coherent c s \<Longrightarrow> coherent c (Prepare s x y z ps)" "sdDb (Prepare s x y z ps) = sdDb s"
    by (auto simp: Prepare_def Let_def add addf split: option.split)
qed

lemma Finalise_db: "sdDb (Finalise c s del) = sdDb s"
  by (simp add: Finalise_def Let_def finaliseEmpty_views finaliseSuicides_views)

lemma session_coherent: "session c d s \<Longrightarrow> coherent c s \<and> sdDb s = d"
proof (induction rule: session.induct)
  case opened
  show ?case by (simp add: coherentAcc_def coherentSlots_def New_def)
next
  case (operate s op t)
  then show ?case using coherent_op by metis
next
  case (set_state s a k v)
  then show ?case by (auto simp: SetState_def case_prod_beta intro!: coherent_intros)
next
  case (set_balance s a bal)
  then show ?case by (auto simp: SetBalance_def case_prod_beta intro!: coherent_intros intro: coherentAcc_weaken)
next
  case (set_nonce s a n)
  then show ?case by (auto simp: SetNonce_def case_prod_beta intro!: coherent_intros intro: coherentAcc_weaken)
next
  case (prepare s x y z ps)
  then show ?case using coherent_Prepare(1) [of c s x y z ps] coherent_Prepare(2) [of s x y z ps] by auto
next
  case (finalised s del)
  then show ?case using coherent_Finalise [of c s del] Finalise_db [of c s del] by auto
qed


section \<open>Flush and reopen\<close>

lemma flushAccounts_lookup:
  fixes s :: StateDB and c :: "('key, 'z) stateLib_scheme"
  assumes "sdSuicides s = []"
  defines "fl \<equiv> \<lambda>as w. fold (flushAccount c s) as w"
  shows "map_of (fl as w) (accountKey a) =
      (if a \<in> set as then (case map_of (sdAccounts s) a of
         None \<Rightarrow> map_of w (accountKey a) | Some acc \<Rightarrow> Some (encodeAccount c acc))
       else map_of w (accountKey a))"
    "map_of (fl as w) (storageKey b k) = map_of w (storageKey b k)"
proof -
  have one: "map_of (flushAccount c s x w) (accountKey a) =
      (if a = x then (case map_of (sdAccounts s) a of
         None \<Rightarrow> map_of w (accountKey a) | Some acc \<Rightarrow> Some (encodeAccount c acc))
       else map_of w (accountKey a))"
    "map_of (flushAccount c s x w) (storageKey b k) = map_of w (storageKey b k)" for x w
    using assms(1)
    by (auto simp: flushAccount_def Let_def update_conv' key_simps split: option.split)
  show "map_of (fl as w) (accountKey a) =
      (if a \<in> set as then (case map_of (sdAccounts s) a of
         None \<Rightarrow> map_of w (accountKey a) | Some acc \<Rightarrow> Some (encodeAccount c acc))
       else map_of w (accountKey a))"
    "map_of (fl as w) (storageKey b k) = map_of w (storageKey b k)"
    unfolding fl_def by (induction as arbitrary: w) (auto simp: one split: option.split)
qed

lemma flushStorage_lookup:
  fixes s :: StateDB
  defines "fl \<equiv> \<lambda>js w. fold (flushStorage s) js w"
  shows "map_of (fl js w) (accountKey a) = map_of w (accountKey a)"
    "map_of (fl js w) (storageKey b k) =
      (if (b, k) \<in> set js then (case map_of (sdStorage s) (b, k) of
         None \<Rightarrow> None | Some v \<Rightarrow> if v = 0 then None else Some (hashBytes v))
       else map_of w (storageKey b k))"
proof -
  have one: "map_of (flushStorage s i w) (accountKey a) = map_of w (accountKey a)"
    "map_of (flushStorage s i w) (storageKey b k) =
      (if (b, k) = i then (case map_of (sdStorage s) (b, k) of
         None \<Rightarrow> None | Some v \<Rightarrow> if v = 0 then None else Some (hashBytes v))
       else map_of w (storageKey b k))" for i w
    by (auto simp: flushStorage_def Let_def update_conv' delete_conv' key_simps split: option.split)
  show "map_of (fl js w) (accountKey a) = map_of w (accountKey a)"
    "map_of (fl js w) (storageKey b k) =
      (if (b, k) \<in> set js then (case map_of (sdStorage s) (b, k) of
         None \<Rightarrow> None | Some v \<Rightarrow> if v = 0 then None else Some (hashBytes v))
       else map_of w (storageKey b k))"
    unfolding fl_def by (induction js arbitrary: w) (auto simp: one split: option.split)
qed


lemma rawOf_New: "sdSuicides (New d) = []" "rawOf c (New d) = fromDb c d"
  by (simp_all add: New_def rawOf_def fun_eq_iff)

text \<open>C13: after any session on a store, once no account is marked self-destructed, writing the
  dirty entries back and opening the store again shows the balance, nonce and code hash of every
  account and every storage slot as the session's cache showed them.\<close>

theorem flush_then_reopen:
  assumes "session c d s" "sdSuicides s = []" "account_codec c"
  shows "fst (GetBalance c (New (FlushDirtyTo c s d)) a) = fst (GetBalance c s a) \<and>
     fst (GetNonce c (New (FlushDirtyTo c s d)) a) = fst (GetNonce c s a) \<and>
     fst (GetCodeHash c (New (FlushDirtyTo c s d)) a) = fst (GetCodeHash c s a) \<and>
     fst (GetState (New (FlushDirtyTo c s d)) a k) = fst (GetState s a k)"
proof -
  have coh: "coherentAcc c {} s" "coherentSlots s" "sdDb s = d" using session_coherent [OF assms(1)] by auto
  let ?t = "New (FlushDirtyTo c s d)"
  have clean: "acc = fromDb c d a" if "map_of (sdAccounts s) a = Some acc" "a \<notin> set (sdAccountDirty s)" for acc
    using coh that by (auto simp: coherentAcc_def)
  have look: "map_of (FlushDirtyTo c s d) (accountKey a) = (if a \<in> set (sdAccountDirty s) then
       (case map_of (sdAccounts s) a of None \<Rightarrow> map_of d (accountKey a) | Some acc \<Rightarrow> Some (encodeAccount c acc))
       else map_of d (accountKey a))"
    by (simp add: FlushDirtyTo_def flushStorage_lookup flushAccounts_lookup [OF assms(2)])
  have "fromDb c (FlushDirtyTo c s d) a = rawOf c s a"
  proof (cases "map_of (sdAccounts s) a")
    case None
    then show ?thesis unfolding rawOf_def fromDb_def look coh(3) by simp
  next
    case (Some acc)
    show ?thesis
    proof (cases "a \<in> set (sdAccountDirty s)")
      case True
      then show ?thesis using Some account_roundtrip [OF assms(3)] by (simp add: rawOf_def fromDb_def look)
    next
      case False
      then show ?thesis using Some clean [OF Some False] by (simp add: rawOf_def fromDb_def look)
    qed
  qed
  then have "accountOf c ?t a = accountOf c s a"
    using assms(2) by (simp add: accountOf_def rawOf_New)
  moreover have "slotOf ?t (a, k) = slotOf s (a, k)"
  proof -
    have "v = (case map_of d (storageKey a k) of None \<Rightarrow> 0 | Some b \<Rightarrow> BytesToHash b)"
      if "map_of (sdStorage s) (a, k) = Some v" "(a, k) \<notin> set (sdStorageDirty s)" for v
      using coh(2,3) that by (fastforce simp: coherentSlots_def)
    moreover have "(a, k) \<in> set (sdStorageDirty s) \<Longrightarrow> map_of (sdStorage s) (a, k) \<noteq> None"
      using coh(2) by (auto simp: coherentSlots_def)
    ultimately show ?thesis
      by (auto simp: New_def slotOf_def FlushDirtyTo_def flushStorage_lookup flushAccounts_lookup [OF assms(2)]
        coh(3) split: option.splits)
  qed
  ultimately show ?thesis by (simp add: accessor_views GetState_fst)
qed

theorem flush_then_reopen_witness:
  "fst (GetBalance exLib (New (FlushDirtyTo exLib
     (Finalise exLib (snd (AddBalancePrev exLib (New []) 11 5)) True) [])) 11) = 5"
proof -
  let ?s = "Finalise exLib (snd (AddBalancePrev exLib (New []) 11 5)) True"
  have "applyOp exLib (OAddBalance 11 5) (New []) = Some (snd (AddBalancePrev exLib (New []) 11 5))" by simp
  then have "session exLib [] ?s" by (rule session.finalised [OF session.operate [OF session.opened]])
  moreover have "sdSuicides ?s = []" by (simp add: Finalise_def Let_def)
  moreover have "fst (GetBalance exLib ?s 11) = 5" by code_simp
  ultimately show ?thesis using flush_then_reopen [of exLib "[]" ?s 11] exLib_codec by simp
qed

end
