(* ===== verification/MerkleTree.thy ===== *)
theory MerkleTree
  imports StateFlush
begin

text \<open>
  The state commitment: the sparse Merkle tree of \<^verbatim>\<open>src/core/state/smt.go\<close> and the leaves collected
  from the state database by \<^verbatim>\<open>collectLeaves\<close>, \<^verbatim>\<open>IntermediateRoot\<close> and \<^verbatim>\<open>Commit\<close>.
  The level-by-level construction is proved equal to the full binary tree of height 256.
\<close>

unbundle bit_operations_syntax

section \<open>The tree\<close>

definition smtDepth :: nat where "smtDepth = 256"

definition smtLeafTag :: "byte list" where "smtLeafTag = [0]"
definition smtInternalTag :: "byte list" where "smtInternalTag = [1]"

definition hashLeaf :: "('key, 'z) cryptoLib_scheme \<Rightarrow> byte list \<Rightarrow> hash" where
  "hashLeaf c value = BytesToHash (keccak c (smtLeafTag @ value))"

definition hashInternal :: "('key, 'z) cryptoLib_scheme \<Rightarrow> hash \<Rightarrow> hash \<Rightarrow> hash" where
  "hashInternal c left right = BytesToHash (keccak c (smtInternalTag @ hashBytes left @ hashBytes right))"

primrec emptyHashes :: "('key, 'z) cryptoLib_scheme \<Rightarrow> nat \<Rightarrow> hash" where
  "emptyHashes c 0 = BytesToHash (keccak c (smtLeafTag @ strBytes ''empty''))"
| "emptyHashes c (Suc h) = hashInternal c (emptyHashes c h) (emptyHashes c h)"

definition EmptySMTRoot :: "('key, 'z) cryptoLib_scheme \<Rightarrow> hash" where
  "EmptySMTRoot c = emptyHashes c smtDepth"

type_synonym smtPath = "byte list"

definition smtBit :: "smtPath \<Rightarrow> nat \<Rightarrow> byte" where
  "smtBit p i = (drop_bit (7 - i mod 8) (p ! (i div 8))) AND 1"

definition samePrefix :: "smtPath \<Rightarrow> smtPath \<Rightarrow> nat \<Rightarrow> bool" where
  "samePrefix a b bitIndex = list_all (\<lambda>i. smtBit a i = smtBit b i) [0..<bitIndex]"

fun bytesCompare :: "byte list \<Rightarrow> byte list \<Rightarrow> int" where
  "bytesCompare [] [] = 0"
| "bytesCompare [] (b # bs) = - 1"
| "bytesCompare (a # as) [] = 1"
| "bytesCompare (a # as) (b # bs) = (if a < b then - 1 else if a > b then 1 else bytesCompare as bs)"

text \<open>\<^verbatim>\<open>sort.Slice\<close> by path; the paths of a level are distinct, so the result is unique.\<close>

fun smtInsert :: "smtPath \<times> hash \<Rightarrow> (smtPath \<times> hash) list \<Rightarrow> (smtPath \<times> hash) list" where
  "smtInsert n [] = [n]"
| "smtInsert n (x # xs) = (if bytesCompare (fst n) (fst x) < 0 then n # x # xs else x # smtInsert n xs)"

definition smtSort :: "(smtPath \<times> hash) list \<Rightarrow> (smtPath \<times> hash) list" where
  "smtSort level = foldr smtInsert level []"

definition smtPair :: "('key, 'z) cryptoLib_scheme \<Rightarrow> nat \<Rightarrow> smtPath \<times> hash \<Rightarrow> smtPath \<times> hash \<Rightarrow> smtPath \<times> hash" where
  "smtPair c bitIndex x y =
     (let (left, right) = (if smtBit (fst x) bitIndex = 1 then (y, x) else (x, y))
      in (fst left, hashInternal c (snd left) (snd right)))"

definition smtSingle :: "('key, 'z) cryptoLib_scheme \<Rightarrow> nat \<Rightarrow> nat \<Rightarrow> smtPath \<times> hash \<Rightarrow> smtPath \<times> hash" where
  "smtSingle c height bitIndex x =
     (fst x, if smtBit (fst x) bitIndex = 0 then hashInternal c (snd x) (emptyHashes c height)
             else hashInternal c (emptyHashes c height) (snd x))"

fun smtCombine :: "('key, 'z) cryptoLib_scheme \<Rightarrow> nat \<Rightarrow> (smtPath \<times> hash) list \<Rightarrow> (smtPath \<times> hash) list" where
  "smtCombine c height [] = []"
| "smtCombine c height [x] = [smtSingle c height (smtDepth - 1 - height) x]"
| "smtCombine c height (x # y # ns) =
     (let bitIndex = smtDepth - 1 - height
      in if samePrefix (fst x) (fst y) bitIndex then smtPair c bitIndex x y # smtCombine c height ns
         else smtSingle c height bitIndex x # smtCombine c height (y # ns))"

definition smtRootFromMap :: "('key, 'z) cryptoLib_scheme \<Rightarrow> (smtPath \<times> hash) list \<Rightarrow> hash" where
  "smtRootFromMap c leaves =
     (if leaves = [] then EmptySMTRoot c
      else let level = fold (smtCombine c) [0..<smtDepth] (smtSort leaves)
           in if length level \<noteq> 1 then foldl (\<lambda>h n. hashInternal c h (snd n)) (EmptySMTRoot c) level
              else snd (hd level))"

definition smtPathOf :: "('key, 'z) cryptoLib_scheme \<Rightarrow> byte list \<Rightarrow> smtPath" where
  "smtPathOf c key = take 32 (keccak c key @ replicate 32 0)"

definition smtLeafMap :: "('key, 'z) cryptoLib_scheme \<Rightarrow> (byte list \<times> byte list) list \<Rightarrow> (smtPath \<times> hash) list" where
  "smtLeafMap c leaves = fold (\<lambda>(k, v). AList.update (smtPathOf c k) (hashLeaf c v)) leaves []"

definition ComputeSMTRoot :: "('key, 'z) cryptoLib_scheme \<Rightarrow> (byte list \<times> byte list) list \<Rightarrow> hash" where
  "ComputeSMTRoot c leaves = (if leaves = [] then EmptySMTRoot c else smtRootFromMap c (smtLeafMap c leaves))"


section \<open>Paths as numbers\<close>

lemma nth_beNat: "j < length p \<Longrightarrow> unat (p ! j) = beNat p div 256 ^ (length p - 1 - j) mod 256"
proof (induction p arbitrary: j rule: rev_induct)
  case (snoc b q)
  show ?case
  proof (cases "j < length q")
    case True
    then obtain d where d: "length q - j = Suc d" by (metis Suc_diff_Suc)
    then have "length q - 1 - j = d" by simp
    moreover have "(256 * beNat q + unat b) div 256 ^ Suc d = beNat q div 256 ^ d"
      by (simp add: div_mult2_eq)
    ultimately show ?thesis using True d snoc.IH [OF True] by (simp add: nth_append)
  next
    case False
    then have "j = length q" using snoc.prems by simp
    then show ?thesis by simp
  qed
qed simp

lemma byte_bit: "unat (drop_bit k (w :: byte) AND 1) = unat w div 2 ^ k mod 2"
  by (simp add: and_one_eq unat_mod unat_drop_bit_eq) (simp add: drop_bit_eq_div)

lemma smtBit_num:
  assumes "length p = 32" "i < 256"
  shows "unat (smtBit p i) = beNat p div 2 ^ (255 - i) mod 2"
proof -
  have j: "i div 8 < 32" using assms(2) by simp
  have e: "255 - i = 8 * (31 - i div 8) + (7 - i mod 8)" using assms(2) by presburger
  have b: "7 - i mod 8 < 8" by simp
  have "x mod 256 div 2 ^ k mod 2 = x div 2 ^ k mod 2" if "k < 8" for x k :: nat
  proof -
    have "bit (take_bit 8 x) k = bit x k" using that by (simp add: bit_take_bit_iff)
    then show ?thesis by (simp add: bit_iff_odd take_bit_eq_mod) (metis parity_cases)
  qed
  then have "beNat p div 256 ^ (31 - i div 8) mod 256 div 2 ^ (7 - i mod 8) mod 2 =
      beNat p div 256 ^ (31 - i div 8) div 2 ^ (7 - i mod 8) mod 2" using b by blast
  also have "\<dots> = beNat p div 2 ^ (255 - i) mod 2"
    unfolding e power_add power_mult div_mult2_eq by simp
  finally show ?thesis
    using nth_beNat [of "i div 8" p] j assms(1) by (simp add: smtBit_def byte_bit)
qed

lemma path_bound: "length p = 32 \<Longrightarrow> beNat p < 2 ^ 256"
  using beNat_less [of p] by simp

lemma samePrefix_num:
  assumes "length a = 32" "length b = 32" "k \<le> 256"
  shows "samePrefix a b k \<longleftrightarrow> beNat a div 2 ^ (256 - k) = beNat b div 2 ^ (256 - k)"
  using assms(3)
proof (induction k)
  case 0
  then show ?case using path_bound assms by (simp add: samePrefix_def del: power_numeral)
next
  case (Suc k)
  have e: "256 - k = Suc (256 - Suc k)" "255 - k = 256 - Suc k" using Suc.prems by simp_all
  have half: "x = y \<longleftrightarrow> x div 2 = y div 2 \<and> x mod 2 = y mod 2" for x y :: nat
    by (metis div_mult_mod_eq)
  have "smtBit a k = smtBit b k \<longleftrightarrow>
      beNat a div 2 ^ (256 - Suc k) mod 2 = beNat b div 2 ^ (256 - Suc k) mod 2"
    using smtBit_num [OF assms(1), of k] smtBit_num [OF assms(2), of k] Suc.prems unfolding e(2) word_unat_eq_iff by simp
  moreover have "samePrefix a b (Suc k) \<longleftrightarrow> samePrefix a b k \<and> smtBit a k = smtBit b k"
    by (simp add: samePrefix_def)
  moreover have "x div 2 ^ (256 - k) = x div 2 ^ (256 - Suc k) div 2" for x :: nat
    unfolding e(1) power_Suc2 by (rule div_mult2_eq)
  ultimately show ?case using Suc half [of "beNat a div 2 ^ (256 - Suc k)" "beNat b div 2 ^ (256 - Suc k)"] by simp
qed

lemma bytesCompare_num: "length a = length b \<Longrightarrow> bytesCompare a b < 0 \<longleftrightarrow> beNat a < beNat b"
proof -
  assume len: "length a = length b"
  then have "bytesCompare a b < 0 \<longleftrightarrow> (a, b) \<in> lexord {(x, y). x < y}"
    by (induction a b rule: list_induct2) auto
  then show ?thesis using beNat_lexord [OF len] by simp
qed


section \<open>The full binary tree\<close>

text \<open>The node at height \<^verbatim>\<open>h\<close> and index \<^verbatim>\<open>k\<close> of the full tree whose leaves are given by \<^verbatim>\<open>m\<close>.\<close>

primrec smtNode :: "('key, 'z) cryptoLib_scheme \<Rightarrow> (nat \<rightharpoonup> hash) \<Rightarrow> nat \<Rightarrow> nat \<Rightarrow> hash" where
  "smtNode c m 0 k = (case m k of None \<Rightarrow> emptyHashes c 0 | Some h \<Rightarrow> h)"
| "smtNode c m (Suc h) k = hashInternal c (smtNode c m h (2 * k)) (smtNode c m h (2 * k + 1))"

lemma smtNode_empty:
  assumes "\<And>v. v \<in> dom m \<Longrightarrow> v div 2 ^ h \<noteq> k"
  shows "smtNode c m h k = emptyHashes c h"
  using assms
proof (induction h arbitrary: k)
  case 0
  then have "m k = None" by (metis div_by_1 domIff power_0)
  then show ?case by simp
next
  case (Suc h)
  have "v div 2 ^ h \<noteq> 2 * k" "v div 2 ^ h \<noteq> 2 * k + 1" if "v \<in> dom m" for v
    using Suc.prems [OF that] by (auto simp: power_Suc2 div_mult2_eq simp del: power_Suc)
  then show ?case using Suc.IH [of "2 * k"] Suc.IH [of "2 * k + 1"] by simp
qed

definition key :: "nat \<Rightarrow> smtPath \<times> hash \<Rightarrow> nat" where "key h n = beNat (fst n) div 2 ^ h"

lemma key_Suc: "key (Suc h) n = key h n div 2"
  by (simp add: key_def power_Suc2 div_mult2_eq del: power_Suc)

definition level_ok :: "('key, 'z) cryptoLib_scheme \<Rightarrow> (nat \<rightharpoonup> hash) \<Rightarrow> nat \<Rightarrow> (smtPath \<times> hash) list \<Rightarrow> bool" where
  "level_ok c m h L \<longleftrightarrow> (\<forall>n \<in> set L. length (fst n) = 32 \<and> snd n = smtNode c m h (key h n)) \<and>
     sorted_wrt (<) (map (key h) L)"

text \<open>Every leaf of the tree below a parent of the level lies below a node of the level.\<close>

definition covers :: "(nat \<rightharpoonup> hash) \<Rightarrow> nat \<Rightarrow> (smtPath \<times> hash) list \<Rightarrow> bool" where
  "covers m h L \<longleftrightarrow> (\<forall>v \<in> dom m. v div 2 ^ Suc h \<in> key (Suc h) ` set L \<longrightarrow> v div 2 ^ h \<in> key h ` set L)"

lemma bit_key:
  assumes "length (fst n) = 32" "h < 256"
  shows "unat (smtBit (fst n) (255 - h)) = key h n mod 2"
  using smtBit_num [OF assms(1), of "255 - h"] assms(2) by (simp add: key_def)

lemma single_ok:
  assumes x: "length (fst x) = 32" "snd x = smtNode c m h (key h x)" and h: "h < 256"
    and alone: "\<And>v. v \<in> dom m \<Longrightarrow> v div 2 ^ Suc h = key (Suc h) x \<Longrightarrow> v div 2 ^ h = key h x"
  shows "length (fst (smtSingle c h (255 - h) x)) = 32" "key (Suc h) (smtSingle c h (255 - h) x) = key (Suc h) x"
    "snd (smtSingle c h (255 - h) x) = smtNode c m (Suc h) (key (Suc h) x)"
proof -
  let ?q = "key (Suc h) x"
  show "length (fst (smtSingle c h (255 - h) x)) = 32" "key (Suc h) (smtSingle c h (255 - h) x) = ?q"
    using x by (simp_all add: smtSingle_def key_def)
  have sib: "smtNode c m h k = emptyHashes c h" if "k div 2 = ?q" "k \<noteq> key h x" for k
    using alone that by (intro smtNode_empty) (metis div_mult2_eq power_Suc2)
  have k: "key h x = 2 * ?q + key h x mod 2" by (simp add: key_Suc)
  show "snd (smtSingle c h (255 - h) x) = smtNode c m (Suc h) ?q"
  proof (cases "key h x mod 2 = 0")
    case True
    then have "smtBit (fst x) (255 - h) = 0" using bit_key [OF x(1) h] by (simp add: unat_eq_0)
    moreover have "key h x = 2 * ?q" using k True by simp
    ultimately show ?thesis using sib [of "2 * ?q + 1"] x(2) by (simp add: smtSingle_def)
  next
    case False
    then have "smtBit (fst x) (255 - h) \<noteq> 0" using bit_key [OF x(1) h] by (metis unat_0)
    moreover have "key h x = 2 * ?q + 1" using k False by (metis mod2_eq_if)
    ultimately show ?thesis using sib [of "2 * ?q"] x(2) by (simp add: smtSingle_def)
  qed
qed

lemma pair_ok:
  assumes x: "length (fst x) = 32" "snd x = smtNode c m h (key h x)" and y: "snd y = smtNode c m h (key h y)"
    and h: "h < 256" and lt: "key h x < key h y" and par: "key (Suc h) x = key (Suc h) y"
  shows "length (fst (smtPair c (255 - h) x y)) = 32" "key (Suc h) (smtPair c (255 - h) x y) = key (Suc h) x"
    "snd (smtPair c (255 - h) x y) = smtNode c m (Suc h) (key (Suc h) x)"
proof -
  let ?q = "key (Suc h) x"
  have k: "key h x = 2 * ?q" "key h y = 2 * ?q + 1" using lt par unfolding key_Suc by presburger+
  then have "unat (smtBit (fst x) (255 - h)) = 0" using bit_key [OF x(1) h] by simp
  then have "smtBit (fst x) (255 - h) = 0" by (simp add: unat_eq_0)
  then have p: "smtPair c (255 - h) x y = (fst x, hashInternal c (snd x) (snd y))" by (simp add: smtPair_def)
  show "length (fst (smtPair c (255 - h) x y)) = 32" "key (Suc h) (smtPair c (255 - h) x y) = ?q"
    "snd (smtPair c (255 - h) x y) = smtNode c m (Suc h) ?q"
    using x y k by (simp_all add: p key_def)
qed


lemma parents_above:
  assumes "sorted_wrt (<) (map (key h) (x # L))" "z \<in> set L" "key (Suc h) z \<noteq> key (Suc h) x"
  shows "key (Suc h) x < key (Suc h) z"
  using assms by (auto simp: key_Suc le_neq_implies_less div_le_mono less_imp_le)

lemma covers_tail:
  assumes "covers m h (xs @ L)" "\<And>x z. x \<in> set xs \<Longrightarrow> z \<in> set L \<Longrightarrow> key (Suc h) x \<noteq> key (Suc h) z"
  shows "covers m h L"
proof -
  have "v div 2 ^ h \<in> key h ` set L" if "v \<in> dom m" "z \<in> set L" "v div 2 ^ Suc h = key (Suc h) z" for v z
  proof -
    have "v div 2 ^ h \<in> key h ` set (xs @ L)" using assms(1) that by (auto simp: covers_def)
    then obtain y where y: "y \<in> set (xs @ L)" "v div 2 ^ h = key h y" by blast
    then have "key (Suc h) y = key (Suc h) z"
      using that(3) by (simp add: key_Suc power_Suc2 div_mult2_eq del: power_Suc)
    then have "y \<notin> set xs" using assms(2) that(2) by blast
    then show ?thesis using y by auto
  qed
  then show ?thesis unfolding covers_def by blast
qed

lemma level_ok_Cons:
  assumes "length (fst x) = 32" "snd x = smtNode c m h (key h x)" "level_ok c m h L" "\<And>k. k \<in> key h ` set L \<Longrightarrow> key h x < k"
  shows "level_ok c m h (x # L)"
  using assms by (simp add: level_ok_def)

lemma combine_ok:
  assumes "level_ok c m h L" "covers m h L" "h < 256"
  shows "level_ok c m (Suc h) (smtCombine c h L) \<and> key (Suc h) ` set (smtCombine c h L) = key (Suc h) ` set L"
  using assms
proof (induction c h L rule: smtCombine.induct)
  case (1 c h)
  then show ?case by (simp add: level_ok_def)
next
  case (2 c h x)
  have x: "length (fst x) = 32" "snd x = smtNode c m h (key h x)" using "2.prems" by (simp_all add: level_ok_def)
  have "v div 2 ^ h = key h x" if "v \<in> dom m" "v div 2 ^ Suc h = key (Suc h) x" for v
    using "2.prems"(2) that by (simp add: covers_def)
  note s = single_ok [OF x "2.prems"(3) this]
  then show ?case using "2.prems"(3) by (simp add: level_ok_def smtDepth_def)
next
  case (3 c h x y ns)
  let ?b = "255 - h"
  have b: "smtDepth - 1 - h = ?b" by (simp add: smtDepth_def)
  have x: "length (fst x) = 32" "snd x = smtNode c m h (key h x)"
    and y: "length (fst y) = 32" "snd y = smtNode c m h (key h y)"
    and srt: "sorted_wrt (<) (map (key h) (x # y # ns))" and tl: "level_ok c m h (y # ns)" "level_ok c m h ns"
    using "3.prems"(1) by (simp_all add: level_ok_def)
  have lt: "key h x < key h y" using srt by simp
  have same: "samePrefix (fst x) (fst y) ?b \<longleftrightarrow> key (Suc h) x = key (Suc h) y"
    using samePrefix_num [OF x(1) y(1), of ?b] "3.prems"(3) by (simp add: key_def Suc_diff_le)
  show ?case
  proof (cases "key (Suc h) x = key (Suc h) y")
    case True
    note pr = pair_ok [OF x y(2) "3.prems"(3) lt True]
    have above: "key (Suc h) x < key (Suc h) z" if "z \<in> set ns" for z
    proof -
      have "key h x < key h y" "key h y < key h z" using srt that by auto
      then show ?thesis using True by (simp add: key_Suc)
    qed
    have "covers m h ns" using covers_tail [of m h "[x, y]" ns] "3.prems"(2) above True by force
    then have IH: "level_ok c m (Suc h) (smtCombine c h ns)" "key (Suc h) ` set (smtCombine c h ns) = key (Suc h) ` set ns"
      using "3.IH"(1) [of ?b] b same True tl "3.prems"(3) by simp_all
    have "level_ok c m (Suc h) (smtPair c ?b x y # smtCombine c h ns)"
      using pr IH above by (intro level_ok_Cons) auto
    then show ?thesis using same True pr IH by (simp add: smtDepth_def Let_def)
  next
    case False
    have above: "key (Suc h) x < key (Suc h) z" if "z \<in> set (y # ns)" for z
    proof (rule parents_above [OF srt that])
      have "key (Suc h) x < key (Suc h) y" using parents_above [OF srt, of y] False by simp
      moreover have "key (Suc h) y \<le> key (Suc h) z" using srt that unfolding key_Suc by (intro div_le_mono) (auto intro: less_imp_le)
      ultimately show "key (Suc h) z \<noteq> key (Suc h) x" by simp
    qed
    have "covers m h (y # ns)" using covers_tail [of m h "[x]" "y # ns"] "3.prems"(2) above by force
    then have IH: "level_ok c m (Suc h) (smtCombine c h (y # ns))" "key (Suc h) ` set (smtCombine c h (y # ns)) = key (Suc h) ` set (y # ns)"
      using "3.IH"(2) [of ?b] b same False tl "3.prems"(3) by simp_all
    have "v div 2 ^ h = key h x" if "v \<in> dom m" "v div 2 ^ Suc h = key (Suc h) x" for v
    proof -
      have "v div 2 ^ h \<in> key h ` set (x # y # ns)" using "3.prems"(2) that by (auto simp: covers_def)
      then obtain z where z: "z \<in> set (x # y # ns)" "v div 2 ^ h = key h z" by blast
      then have "key (Suc h) z = key (Suc h) x" using that(2) by (simp add: key_Suc power_Suc2 div_mult2_eq del: power_Suc)
      then have "z \<notin> set (y # ns)" using above [of z] by fastforce
      then have "z = x" using z(1) by simp
      then show ?thesis using z(2) by simp
    qed
    note s = single_ok [OF x "3.prems"(3) this]
    have "\<And>k. k \<in> key (Suc h) ` set (smtCombine c h (y # ns)) \<Longrightarrow> key (Suc h) x < k"
      unfolding IH(2) using above by blast
    then have "level_ok c m (Suc h) (smtSingle c h ?b x # smtCombine c h (y # ns))"
      using s IH(1) by (intro level_ok_Cons) simp_all
    then show ?thesis using same False s IH by (simp add: smtDepth_def Let_def)
  qed
qed


lemma climb_ok:
  assumes "level_ok c m 0 L" "key 0 ` set L = dom m" "k \<le> 256"
  shows "level_ok c m k (fold (smtCombine c) [0..<k] L) \<and>
    key k ` set (fold (smtCombine c) [0..<k] L) = (\<lambda>v. v div 2 ^ k) ` dom m"
  using assms(3)
proof (induction k)
  case 0
  then show ?case using assms by simp
next
  case (Suc k)
  let ?L = "fold (smtCombine c) [0..<k] L"
  have IH: "level_ok c m k ?L" "key k ` set ?L = (\<lambda>v. v div 2 ^ k) ` dom m" using Suc by simp_all
  then have "covers m k ?L" by (auto simp: covers_def)
  from combine_ok [OF IH(1) this] Suc.prems
  have "level_ok c m (Suc k) (smtCombine c k ?L)" "key (Suc k) ` set (smtCombine c k ?L) = key (Suc k) ` set ?L" by simp_all
  moreover have "key (Suc k) ` set ?L = (\<lambda>x. x div 2) ` (key k ` set ?L)" by (simp add: key_Suc image_image)
  ultimately show ?case unfolding IH(2)
    by (simp add: image_image power_Suc2 div_mult2_eq del: power_Suc)
qed

lemma smtInsert_set: "set (smtInsert n L) = insert n (set L)"
  by (induction L) auto

lemma smtInsert_sorted:
  assumes "length (fst n) = 32" "\<forall>x \<in> set L. length (fst x) = 32 \<and> fst x \<noteq> fst n" "sorted_wrt (<) (map (key 0) L)"
  shows "sorted_wrt (<) (map (key 0) (smtInsert n L))"
  using assms
proof (induction L)
  case (Cons x L)
  have cmp: "bytesCompare (fst n) (fst x) < 0 \<longleftrightarrow> key 0 n < key 0 x"
    using bytesCompare_num [of "fst n" "fst x"] Cons.prems by (simp add: key_def)
  have ne: "key 0 n \<noteq> key 0 x" using Cons.prems beNat_inj [of "fst n" "fst x"] by (auto simp: key_def)
  have above: "\<forall>z \<in> set L. key 0 x < key 0 z" and srt: "sorted_wrt (<) (map (key 0) L)" using Cons.prems(3) by simp_all
  have IH: "sorted_wrt (<) (map (key 0) (smtInsert n L))"
    using Cons.prems(1,2) srt by (intro Cons.IH) simp_all
  show ?case
  proof (cases "key 0 n < key 0 x")
    case True
    then have "\<forall>z \<in> set L. key 0 n < key 0 z" using above by (meson less_trans)
    with True show ?thesis using cmp above srt by simp
  next
    case False
    then have "\<forall>z \<in> set (smtInsert n L). key 0 x < key 0 z" using ne above by (simp add: smtInsert_set)
    with False show ?thesis using cmp IH by simp
  qed
qed simp

lemma smtSort_ok:
  assumes "\<forall>x \<in> set L. length (fst x) = 32" "distinct (map fst L)"
  shows "sorted_wrt (<) (map (key 0) (smtSort L)) \<and> set (smtSort L) = set L"
  using assms
proof (induction L)
  case (Cons x L)
  then have IH: "sorted_wrt (<) (map (key 0) (smtSort L))" "set (smtSort L) = set L" by simp_all
  have "fst x \<notin> fst ` set L" using Cons.prems(2) by simp
  then have "\<forall>y \<in> set (smtSort L). length (fst y) = 32 \<and> fst y \<noteq> fst x"
    unfolding IH(2) using Cons.prems(1) by (metis image_eqI list.set_intros(2))
  moreover have "length (fst x) = 32" using Cons.prems(1) by simp
  ultimately have "sorted_wrt (<) (map (key 0) (smtInsert x (smtSort L)))" using smtInsert_sorted IH(1) by blast
  moreover have "smtSort (x # L) = smtInsert x (smtSort L)" by (simp add: smtSort_def)
  ultimately show ?case using IH(2) by (simp add: smtInsert_set)
qed (simp add: smtSort_def)

lemma smtRootFromMap_node:
  assumes L: "L \<noteq> []" "\<forall>x \<in> set L. length (fst x) = 32" "distinct (map fst L)"
    and m: "\<And>v. m v = map_of (map (\<lambda>x. (key 0 x, snd x)) L) v"
  shows "smtRootFromMap c L = smtNode c m 256 0"
proof -
  have inj: "inj_on (key 0) (set L)"
    using L(2,3) beNat_inj by (fastforce simp: inj_on_def key_def distinct_map)
  have dist: "distinct (map (key 0) L)" using inj L(3) by (simp add: distinct_map)
  have mx: "m (key 0 x) = Some (snd x)" if "x \<in> set L" for x
    unfolding m using that dist by (intro map_of_is_SomeI) (auto simp: comp_def)
  have dom: "dom m = key 0 ` set L" unfolding m dom_map_of_conv_image_fst by (force simp: dom_def m dest: map_of_SomeD)
  have "level_ok c m 0 (smtSort L)"
    using smtSort_ok [OF L(2,3)] L(2) mx by (auto simp: level_ok_def)
  define M where "M = fold (smtCombine c) [0..<256] (smtSort L)"
  have ok: "level_ok c m 256 M" and keys: "key 256 ` set M = (\<lambda>v. v div 2 ^ 256) ` dom m"
    using climb_ok [OF \<open>level_ok c m 0 (smtSort L)\<close>, of 256] smtSort_ok [OF L(2,3)] dom unfolding M_def by simp_all
  have vz: "v div 2 ^ 256 = 0" if "v \<in> dom m" for v
    using that L(2) path_bound unfolding dom by (fastforce simp: key_def)
  have zero: "key 256 n = 0" if "n \<in> set M" for n
  proof -
    have "key 256 n \<in> (\<lambda>v. v div 2 ^ 256) ` dom m" unfolding keys [symmetric] using that by (rule imageI)
    then obtain v where v: "key 256 n = v div 2 ^ 256" "v \<in> dom m" by (rule imageE)
    show ?thesis unfolding v(1) by (rule vz [OF v(2)])
  qed
  have "M \<noteq> []" using keys L(1) dom by (metis image_is_empty list.set(1) set_empty)
  then obtain n N where N: "M = n # N" by (cases M) auto
  have "N = []"
  proof (rule ccontr)
    assume "N \<noteq> []"
    then obtain n' N' where "N = n' # N'" by (cases N) auto
    then have "key 256 n < key 256 n'" "key 256 n = 0" "key 256 n' = 0" using ok N zero by (simp_all add: level_ok_def)
    then show False by simp
  qed
  moreover have "snd n = smtNode c m 256 0" using ok zero [of n] N by (simp add: level_ok_def)
  ultimately show ?thesis using L(1) N unfolding smtRootFromMap_def smtDepth_def M_def [symmetric] by simp
qed

end
