(* ===== verification/StateRoot.thy ===== *)
theory StateRoot
  imports MerkleTree "HOL-Library.List_Lexorder"
begin

text \<open>
  The state root: the leaves collected from the store, the account cache and the storage cache
  (\<^verbatim>\<open>collectLeaves\<close>, \<^verbatim>\<open>IntermediateRoot\<close>, \<^verbatim>\<open>Commit\<close> of \<^verbatim>\<open>src/core/state/statedb.go\<close>), and what the
  root determines.
\<close>

section \<open>Collecting the leaves\<close>

definition isStateKey :: "byte list \<Rightarrow> bool" where
  "isStateKey k \<longleftrightarrow> k \<noteq> [] \<and> (hd k = prefixAccount \<or> hd k = prefixStorage \<or> hd k = prefixCode)"

definition leafAccount ::
    "('key, 'z) stateLib_scheme \<Rightarrow> StateDB \<Rightarrow> address \<times> Account \<Rightarrow>
     (byte list \<times> byte list) list \<times> (hash \<rightharpoonup> byte list) \<Rightarrow> (byte list \<times> byte list) list \<times> (hash \<rightharpoonup> byte list)" where
  "leafAccount c s aa mc =
     (let (addr, acc) = aa; (merged, cache) = mc
      in if addr \<in> set (sdSuicides s) then (AList.delete (accountKey addr) merged, cache)
         else let merged1 = AList.update (accountKey addr) (encodeAccount c acc) merged
              in if aCodeHash acc \<noteq> EmptyCodeHash c then
                   (let (code, cache1) =
                      (case cache (aCodeHash acc) of
                         Some b \<Rightarrow> (Some b, cache)
                       | None \<Rightarrow>
                         (case map_of (sdDb s) (codeKey (aCodeHash acc)) of
                            Some b \<Rightarrow> (Some b, cache(aCodeHash acc \<mapsto> b))
                          | None \<Rightarrow> (None, cache)))
                    in case code of
                         None \<Rightarrow> (merged1, cache1)
                       | Some b \<Rightarrow> (AList.update (codeKey (aCodeHash acc)) b merged1, cache1))
                 else (merged1, cache))"

definition leafStorage :: "StateDB \<Rightarrow> storageID \<times> hash \<Rightarrow> (byte list \<times> byte list) list \<Rightarrow> (byte list \<times> byte list) list" where
  "leafStorage s iv merged =
     (let (i, val) = iv
      in if fst i \<in> set (sdSuicides s) \<or> val = 0 then AList.delete (storageKey (fst i) (snd i)) merged
         else AList.update (storageKey (fst i) (snd i)) (hashBytes val) merged)"

text \<open>\<^verbatim>\<open>sort.Strings\<close> on the keys of the merged map.\<close>

fun leafInsert :: "byte list \<times> byte list \<Rightarrow> (byte list \<times> byte list) list \<Rightarrow> (byte list \<times> byte list) list" where
  "leafInsert n [] = [n]"
| "leafInsert n (x # xs) = (if bytesCompare (fst n) (fst x) < 0 then n # x # xs else x # leafInsert n xs)"

definition leafSort :: "(byte list \<times> byte list) list \<Rightarrow> (byte list \<times> byte list) list" where
  "leafSort merged = foldr leafInsert merged []"

definition collectLeaves :: "('key, 'z) stateLib_scheme \<Rightarrow> StateDB \<Rightarrow> (byte list \<times> byte list) list \<times> StateDB" where
  "collectLeaves c s =
     (let merged = filter (\<lambda>kv. isStateKey (fst kv)) (sdDb s);
          (merged1, cache) = fold (leafAccount c s) (sdAccounts s) (merged, sdCode s);
          merged2 = fold (leafStorage s) (sdStorage s) merged1
      in (leafSort merged2, s\<lparr>sdCode := cache\<rparr>))"

definition IntermediateRoot :: "('key, 'z) stateLib_scheme \<Rightarrow> StateDB \<Rightarrow> hash \<times> StateDB" where
  "IntermediateRoot c s = (case collectLeaves c s of (leaves, s1) \<Rightarrow> (ComputeSMTRoot c leaves, s1))"

definition Commit :: "('key, 'z) stateLib_scheme \<Rightarrow> StateDB \<Rightarrow> hash \<times> StateDB" where
  "Commit c s =
     (case IntermediateRoot c (s\<lparr>sdDb := FlushDirtyTo c s (sdDb s)\<rparr>) of (root, s1) \<Rightarrow> (root, ClearDirty s1))"


section \<open>The tree over the leaves\<close>

text \<open>The value of the leaf at a path, as a number: the last one listed.\<close>

definition leafValue :: "('key, 'z) cryptoLib_scheme \<Rightarrow> (byte list \<times> byte list) list \<Rightarrow> nat \<rightharpoonup> byte list" where
  "leafValue c leaves = map_of (rev (map (\<lambda>(k, x). (beNat (smtPathOf c k), x)) leaves))"

lemma length_smtPathOf [simp]: "length (smtPathOf c k) = 32"
  by (simp add: smtPathOf_def)

lemma map_of_image_update:
  assumes "inj_on f (insert k (fst ` set L))"
  shows "map_of (map (\<lambda>x. (f (fst x), snd x)) (AList.update k v L)) = (map_of (map (\<lambda>x. (f (fst x), snd x)) L))(f k \<mapsto> v)"
  using assms
proof (induction L)
  case (Cons x L)
  have "inj_on f (insert k (fst ` set L))" using Cons.prems by (rule inj_on_subset) auto
  note IH = Cons.IH [OF this]
  obtain a b where x: "x = (a, b)" by (cases x)
  show ?case
  proof (cases "a = k")
    case False
    then have "f a \<noteq> f k" using Cons.prems by (auto simp: x inj_on_def)
    then show ?thesis using False IH by (auto simp: x fun_eq_iff)
  qed (auto simp: x fun_eq_iff)
qed simp

lemma smtLeafMap_snoc:
  "smtLeafMap c (leaves @ [(k, v)]) = AList.update (smtPathOf c k) (hashLeaf c v) (smtLeafMap c leaves)"
  by (simp add: smtLeafMap_def)

lemma smtLeafMap_paths: "\<forall>x \<in> set (smtLeafMap c leaves). length (fst x) = 32"
proof -
  have "\<forall>p \<in> set (map fst (smtLeafMap c leaves)). length p = 32"
  proof (induction leaves rule: rev_induct)
    case (snoc l leaves)
    obtain k v where "l = (k, v)" by (cases l)
    then show ?case using snoc by (simp add: smtLeafMap_snoc update_keys del: set_map list.set_map)
  qed (simp add: smtLeafMap_def)
  then show ?thesis by simp
qed

lemma smtLeafMap_distinct: "distinct (map fst (smtLeafMap c leaves))"
proof (induction leaves rule: rev_induct)
  case (snoc l leaves)
  obtain k v where "l = (k, v)" by (cases l)
  then show ?case using snoc by (simp add: smtLeafMap_snoc distinct_update)
qed (simp add: smtLeafMap_def)

lemma smtLeafMap_values:
  "map_of (map (\<lambda>x. (key 0 x, snd x)) (smtLeafMap c leaves)) v = map_option (hashLeaf c) (leafValue c leaves v)"
proof (induction leaves rule: rev_induct)
  case Nil
  then show ?case by (simp add: smtLeafMap_def leafValue_def)
next
  case (snoc l leaves)
  obtain k x where l: "l = (k, x)" by (cases l)
  have "inj_on beNat (insert (smtPathOf c k) (fst ` set (smtLeafMap c leaves)))"
    using smtLeafMap_paths [of c leaves] beNat_inj by (force simp: inj_on_def)
  note upd = map_of_image_update [OF this, of "hashLeaf c x"]
  have "key 0 = (\<lambda>x. beNat (fst x))" by (simp add: key_def fun_eq_iff)
  then show ?case using snoc upd by (simp add: l smtLeafMap_snoc leafValue_def)
qed


definition treeLeaves :: "('key, 'z) cryptoLib_scheme \<Rightarrow> (byte list \<times> byte list) list \<Rightarrow> nat \<rightharpoonup> hash" where
  "treeLeaves c leaves v = map_option (hashLeaf c) (leafValue c leaves v)"

lemma beNat_inj_on: "\<forall>p \<in> P. length p = n \<Longrightarrow> inj_on beNat P"
proof (rule inj_onI)
  fix x y
  assume "\<forall>p \<in> P. length p = n" "x \<in> P" "y \<in> P" and eq: "beNat x = beNat y"
  then have "length x = length y" by simp
  then show "x = y" using eq by (rule beNat_inj)
qed

lemma root_of_map:
  assumes "mset L = mset (smtLeafMap c leaves)"
  shows "smtRootFromMap c L = smtNode c (treeLeaves c leaves) 256 0"
proof (cases "L = []")
  case True
  then have "treeLeaves c leaves = Map.empty"
    using assms smtLeafMap_values [of c leaves] by (simp add: treeLeaves_def [abs_def] fun_eq_iff)
  then have "smtNode c (treeLeaves c leaves) 256 0 = emptyHashes c 256" by (intro smtNode_empty) simp
  then show ?thesis using True by (simp add: smtRootFromMap_def EmptySMTRoot_def smtDepth_def)
next
  case False
  let ?f = "\<lambda>x. (key 0 x, snd x)"
  have same: "set L = set (smtLeafMap c leaves)" using assms by (metis mset_eq_setD)
  have "mset (map fst L) = mset (map fst (smtLeafMap c leaves))" using assms by simp
  then have dist: "distinct (map fst L)" using smtLeafMap_distinct mset_eq_imp_distinct_iff by blast
  have len: "\<forall>x \<in> set L. length (fst x) = 32" using same smtLeafMap_paths by blast
  have keys: "distinct (map (key 0) L)"
  proof -
    have "\<forall>p \<in> set (map fst L). length p = 32" using len by simp
    then have "inj_on beNat (set (map fst L))" by (rule beNat_inj_on)
    then have "distinct (map beNat (map fst L))" using dist distinct_map by blast
    then show ?thesis by (simp add: key_def [abs_def] comp_def)
  qed
  have fsts: "map fst (map ?f M) = map (key 0) M" for M by simp
  have dist': "distinct (map (key 0) (smtLeafMap c leaves))"
    using keys assms by (metis mset_eq_imp_distinct_iff mset_map)
  have "set (map ?f L) = set (map ?f (smtLeafMap c leaves))" using same by simp
  moreover have "distinct (map fst (map ?f L))" "distinct (map fst (map ?f (smtLeafMap c leaves)))"
    unfolding fsts by (fact keys, fact dist')
  ultimately have "map_of (map ?f L) = map_of (map ?f (smtLeafMap c leaves))"
    using map_of_inject_set by blast
  then show ?thesis
    using smtRootFromMap_node [OF False len dist, of "treeLeaves c leaves"] smtLeafMap_values [of c leaves]
    by (simp add: treeLeaves_def)
qed

lemma ComputeSMTRoot_map: "ComputeSMTRoot c leaves = smtRootFromMap c (smtLeafMap c leaves)"
  by (simp add: ComputeSMTRoot_def smtRootFromMap_def smtLeafMap_def)

lemma ComputeSMTRoot_node: "ComputeSMTRoot c leaves = smtNode c (treeLeaves c leaves) 256 0"
  unfolding ComputeSMTRoot_map by (rule root_of_map) (rule refl)

text \<open>C29: the level-by-level construction of the state root is the root of the full binary tree of
  height 256 whose leaf at each path is the last value listed for it and the empty placeholder
  elsewhere, whatever the order in which the map of leaves is iterated; the fallback for a level
  that does not shrink to one node is never taken.\<close>

theorem ComputeSMTRoot_full_tree:
  assumes "mset L = mset (smtLeafMap c leaves)"
  shows "smtRootFromMap c L = smtNode c (treeLeaves c leaves) 256 0 \<and>
    ComputeSMTRoot c leaves = smtNode c (treeLeaves c leaves) 256 0"
  using root_of_map [OF assms] ComputeSMTRoot_node by simp

section \<open>What the root determines\<close>

text \<open>The byte string that is hashed for a node of the tree.\<close>

fun nodeBytes :: "('key, 'z) cryptoLib_scheme \<Rightarrow> (nat \<rightharpoonup> byte list) \<Rightarrow> nat \<Rightarrow> nat \<Rightarrow> byte list" where
  "nodeBytes c m 0 k = smtLeafTag @ (case m k of None \<Rightarrow> strBytes ''empty'' | Some v \<Rightarrow> v)"
| "nodeBytes c m (Suc h) k = smtInternalTag @ hashBytes (BytesToHash (keccak c (nodeBytes c m h (2 * k)))) @
     hashBytes (BytesToHash (keccak c (nodeBytes c m h (2 * k + 1))))"

lemma smtNode_bytes: "smtNode c (\<lambda>v. map_option (hashLeaf c) (m v)) h k = BytesToHash (keccak c (nodeBytes c m h k))"
  by (induction h arbitrary: k) (simp_all add: hashLeaf_def hashInternal_def split: option.split)

definition noCollision :: "('key, 'z) cryptoLib_scheme \<Rightarrow> (nat \<rightharpoonup> byte list) \<Rightarrow> (nat \<rightharpoonup> byte list) \<Rightarrow> bool" where
  "noCollision c m m' \<longleftrightarrow> (\<forall>h k h' k'. h \<le> 256 \<and> h' \<le> 256 \<and> BytesToHash (keccak c (nodeBytes c m h k)) = BytesToHash (keccak c (nodeBytes c m' h' k')) \<longrightarrow>
     nodeBytes c m h k = nodeBytes c m' h' k')"

definition leafBytes :: "(nat \<rightharpoonup> byte list) \<Rightarrow> nat \<Rightarrow> byte list" where
  "leafBytes m k = (case m k of None \<Rightarrow> strBytes ''empty'' | Some v \<Rightarrow> v)"

lemma node_binds:
  assumes "noCollision c m m'" "nodeBytes c m h k = nodeBytes c m' h k" "v div 2 ^ h = k" "h \<le> 256"
  shows "leafBytes m v = leafBytes m' v"
  using assms(2-)
proof (induction h arbitrary: k)
  case 0
  then show ?case by (simp add: leafBytes_def)
next
  case (Suc h)
  have "nodeBytes c m h (2 * k) = nodeBytes c m' h (2 * k)" "nodeBytes c m h (2 * k + 1) = nodeBytes c m' h (2 * k + 1)"
    using Suc.prems(1,3) assms(1) by (auto simp: noCollision_def)
  moreover have "v div 2 ^ h = 2 * k \<or> v div 2 ^ h = 2 * k + 1"
  proof -
    have "x div 2 = k \<Longrightarrow> x = 2 * k \<or> x = 2 * k + 1" for x :: nat by presburger
    then show ?thesis using Suc.prems(2) by (simp add: power_Suc2 div_mult2_eq del: power_Suc)
  qed
  ultimately show ?case using Suc.IH Suc.prems(3) by (metis Suc_leD)
qed

text \<open>C30: the state root binds the state: if Keccak-256 does not collide on the strings hashed for
  two states, and the two states carry different leaf values at some path, then their roots
  differ.  A leaf with the value \<^verbatim>\<open>empty\<close> is not distinguished from an absent leaf.\<close>

theorem state_root_binds_leaves:
  assumes "noCollision c (leafValue c leaves) (leafValue c leaves')" "v < 2 ^ 256"
    "leafBytes (leafValue c leaves) v \<noteq> leafBytes (leafValue c leaves') v"
  shows "ComputeSMTRoot c leaves \<noteq> ComputeSMTRoot c leaves'"
proof
  assume eq: "ComputeSMTRoot c leaves = ComputeSMTRoot c leaves'"
  have "v div 2 ^ 256 = 0" using assms(2) by (rule div_less)
  moreover have "nodeBytes c (leafValue c leaves) 256 0 = nodeBytes c (leafValue c leaves') 256 0"
    using assms(1) eq unfolding ComputeSMTRoot_node treeLeaves_def [abs_def] smtNode_bytes noCollision_def by blast
  ultimately show False using node_binds [OF assms(1)] assms(3) by blast
qed

text \<open>A hash that numbers the nodes on the way to the root.\<close>

definition exTreeHash :: "byte list \<Rightarrow> byte list" where
  "exTreeHash b = hashBytes (if length b = 65 then BytesToHash (take 32 (drop 1 b)) + 1 else if b = [0, 1] then 1000 else 0)"

definition exTree :: "address stateLib" where "exTree = exLib\<lparr>keccak := exTreeHash\<rparr>"

lemma exTree_node:
  "BytesToHash (keccak exTree (nodeBytes exTree Map.empty h k)) = of_nat h"
  "BytesToHash (keccak exTree (nodeBytes exTree [0 \<mapsto> [1]] h k)) = (if k = 0 then of_nat (1000 + h) else of_nat h)"
proof -
  have len: "length (strBytes ''empty'') = 5" by (simp add: strBytes_def)
  show "BytesToHash (keccak exTree (nodeBytes exTree Map.empty h k)) = of_nat h"
    by (induction h arbitrary: k)
      (simp_all add: exTree_def exTreeHash_def smtLeafTag_def smtInternalTag_def len strBytes_def)
  show "BytesToHash (keccak exTree (nodeBytes exTree [0 \<mapsto> [1]] h k)) = (if k = 0 then of_nat (1000 + h) else of_nat h)"
    by (induction h arbitrary: k)
      (simp_all add: exTree_def exTreeHash_def smtLeafTag_def smtInternalTag_def len strBytes_def)
qed

lemma exTree_noCollision: "noCollision exTree Map.empty [0 \<mapsto> [1]]"
proof -
  have "nodeBytes exTree Map.empty h k = nodeBytes exTree [0 \<mapsto> [1]] h' k'"
    if h: "h \<le> 256" "h' \<le> 256" and eq: "(of_nat h :: hash) = (if k' = 0 then of_nat (1000 + h') else of_nat h')" for h k h' k'
  proof -
    have small: "unat (of_nat n :: hash) = n" if "n < 2 ^ 256" for n
      using that by (simp add: unsigned_of_nat take_bit_nat_eq_self)
    have "h = (if k' = 0 then 1000 + h' else h')"
      using arg_cong [OF eq, of unat] small [of h] small [of h'] small [of "1000 + h'"] h by (auto split: if_splits)
    then have "h = h'" "k' \<noteq> 0" using h by (auto split: if_splits)
    then show ?thesis
    proof (cases h')
      case (Suc n)
      with \<open>h = h'\<close> \<open>k' \<noteq> 0\<close> show ?thesis by (simp only: nodeBytes.simps exTree_node) simp
    qed simp
  qed
  then show ?thesis by (auto simp: noCollision_def exTree_node simp del: fun_upd_apply)
qed

theorem state_root_binds_leaves_witness: "ComputeSMTRoot exTree [] \<noteq> ComputeSMTRoot exTree [([], [1])]"
proof (rule state_root_binds_leaves [where v = 0])
  have "beNat (replicate k 0) = 0" for k by (induction k) (simp_all add: beNat_def)
  then have "beNat (smtPathOf exTree []) = 0"
    by (simp add: smtPathOf_def exTree_def exTreeHash_def hashBytes_def beBytes_0)
  then have lv: "leafValue exTree [] = Map.empty" "leafValue exTree [([], [1])] = [0 \<mapsto> [1]]"
    by (simp_all add: leafValue_def)
  show "noCollision exTree (leafValue exTree []) (leafValue exTree [([], [1])])"
    unfolding lv by (rule exTree_noCollision)
  show "leafBytes (leafValue exTree []) 0 \<noteq> leafBytes (leafValue exTree [([], [1])]) 0"
    unfolding lv by (simp add: leafBytes_def strBytes_def)
qed simp

theorem ComputeSMTRoot_full_tree_witness:
  "ComputeSMTRoot exTree [([], [1])] = smtNode exTree (treeLeaves exTree [([], [1])]) 256 0"
  using ComputeSMTRoot_full_tree [of "smtLeafMap exTree [([], [1])]" exTree "[([], [1])]"] by simp


section \<open>The root does not depend on the order of map iteration\<close>

lemma bytesCompare_less: "bytesCompare a b < 0 \<longleftrightarrow> a < b"
  by (induction a b rule: bytesCompare.induct) auto

lemma leafInsert_set: "set (leafInsert n L) = insert n (set L)"
  by (induction L) auto

lemma leafInsert_sorted:
  "fst n \<notin> fst ` set L \<Longrightarrow> sorted_wrt (<) (map fst L) \<Longrightarrow> sorted_wrt (<) (map fst (leafInsert n L))"
proof (induction L)
  case (Cons x L)
  have IH: "sorted_wrt (<) (map fst (leafInsert n L))" and above: "\<forall>k \<in> fst ` set L. fst x < k" and ne: "fst n \<noteq> fst x"
    using Cons by auto
  show ?case
  proof (cases "fst n < fst x")
    case True
    then have "\<forall>k \<in> fst ` set L. fst n < k" using above by (meson less_trans)
    then show ?thesis using True Cons.prems(2) by (simp add: bytesCompare_less)
  next
    case False
    then have "fst x < fst n" using ne by simp
    then have "\<forall>k \<in> fst ` set (leafInsert n L). fst x < k" using above by (simp add: leafInsert_set)
    then show ?thesis using False IH by (simp add: bytesCompare_less)
  qed
qed simp

lemma leafSort_ok:
  "distinct (map fst L) \<Longrightarrow> sorted_wrt (<) (map fst (leafSort L)) \<and> set (leafSort L) = set L"
proof (induction L)
  case (Cons x L)
  then have "fst x \<notin> fst ` set (leafSort L)" by simp
  then show ?case using Cons leafInsert_sorted [of x "leafSort L"] by (simp add: leafSort_def leafInsert_set)
qed (simp add: leafSort_def)

lemma alist_by_keys: "distinct (map fst L) \<Longrightarrow> map (\<lambda>k. (k, the (map_of L k))) (map fst L) = L"
  by (simp add: comp_def) (intro map_idI, auto)

lemma leafSort_cong:
  assumes "distinct (map fst L)" "distinct (map fst M)" "map_of L = map_of M"
  shows "leafSort L = leafSort M"
proof -
  have s: "set L = set M" using assms map_of_inject_set by blast
  then have keys: "map fst (leafSort L) = map fst (leafSort M)"
    using leafSort_ok [OF assms(1)] leafSort_ok [OF assms(2)] by (intro strict_sorted_equal) simp_all
  have "distinct (map fst (leafSort L))" "distinct (map fst (leafSort M))"
    using leafSort_ok [OF assms(1)] leafSort_ok [OF assms(2)] strict_sorted_iff by auto
  moreover have "set (leafSort L) = set (leafSort M)"
    using s leafSort_ok [OF assms(1)] leafSort_ok [OF assms(2)] by simp
  ultimately have "map_of (leafSort L) = map_of (leafSort M)" by (simp add: map_of_inject_set)
  then have "map (\<lambda>k. (k, the (map_of (leafSort L) k))) (map fst (leafSort L)) =
      map (\<lambda>k. (k, the (map_of (leafSort M) k))) (map fst (leafSort M))" by (simp only: keys)
  then show ?thesis
    unfolding alist_by_keys [OF \<open>distinct (map fst (leafSort L))\<close>] alist_by_keys [OF \<open>distinct (map fst (leafSort M))\<close>] .
qed


text \<open>The overlay loops as updates of a map, with the code found for a hash.\<close>

definition codeFor :: "StateDB \<Rightarrow> (hash \<rightharpoonup> byte list) \<Rightarrow> hash \<rightharpoonup> byte list" where
  "codeFor s cache h = (case cache h of Some b \<Rightarrow> Some b | None \<Rightarrow> map_of (sdDb s) (codeKey h))"

definition accStep ::
    "('key, 'z) stateLib_scheme \<Rightarrow> address list \<Rightarrow> (hash \<rightharpoonup> byte list) \<Rightarrow> address \<times> Account \<Rightarrow>
     (byte list \<rightharpoonup> byte list) \<Rightarrow> byte list \<rightharpoonup> byte list" where
  "accStep c dead F x m =
     (if fst x \<in> set dead then m(accountKey (fst x) := None)
      else let m1 = m(accountKey (fst x) \<mapsto> encodeAccount c (snd x))
           in if aCodeHash (snd x) \<noteq> EmptyCodeHash c \<and> F (aCodeHash (snd x)) \<noteq> None
              then m1(codeKey (aCodeHash (snd x)) := F (aCodeHash (snd x))) else m1)"

definition storStep :: "address list \<Rightarrow> storageID \<times> hash \<Rightarrow> (byte list \<rightharpoonup> byte list) \<Rightarrow> byte list \<rightharpoonup> byte list" where
  "storStep dead x m = m(storageKey (fst (fst x)) (snd (fst x)) :=
     (if fst (fst x) \<in> set dead \<or> snd x = 0 then None else Some (hashBytes (snd x))))"

lemma leafAccount_step:
  assumes "leafAccount c s x (m, cache) = (m', cache')"
  shows "map_of m' = accStep c (sdSuicides s) (codeFor s cache) x (map_of m)" "codeFor s cache' = codeFor s cache"
    "distinct (map fst m) \<Longrightarrow> distinct (map fst m')"
proof -
  show "map_of m' = accStep c (sdSuicides s) (codeFor s cache) x (map_of m)"
    using assms by (auto simp: leafAccount_def accStep_def codeFor_def Let_def update_conv' delete_conv' restrict_map_def
        fun_eq_iff split: prod.splits if_splits option.splits)
  show "codeFor s cache' = codeFor s cache"
    using assms by (auto simp: leafAccount_def codeFor_def [abs_def] Let_def intro!: ext split: prod.splits if_splits option.splits)
  show "distinct (map fst m) \<Longrightarrow> distinct (map fst m')"
    using assms by (auto simp: leafAccount_def Let_def distinct_update distinct_delete split: prod.splits if_splits option.splits)
qed

lemma leafAccounts_run:
  assumes "fold (leafAccount c s) xs (m, cache) = (m', cache')"
  shows "map_of m' = fold (accStep c (sdSuicides s) (codeFor s cache)) xs (map_of m) \<and>
    (distinct (map fst m) \<longrightarrow> distinct (map fst m'))"
  using assms
proof (induction xs arbitrary: m cache)
  case (Cons x xs)
  obtain m1 cache1 where st: "leafAccount c s x (m, cache) = (m1, cache1)" by fastforce
  show ?case using Cons.IH [of m1 cache1] Cons.prems leafAccount_step [OF st] by (simp add: st)
qed simp

lemma leafStorage_run:
  "map_of (fold (leafStorage s) xs m) = fold (storStep (sdSuicides s)) xs (map_of m) \<and>
   (distinct (map fst m) \<longrightarrow> distinct (map fst (fold (leafStorage s) xs m)))"
proof (induction xs arbitrary: m)
  case (Cons x xs)
  have "map_of (leafStorage s x m) = storStep (sdSuicides s) x (map_of m)"
    by (auto simp: leafStorage_def storStep_def Let_def update_conv' delete_conv' restrict_map_def fun_eq_iff split: prod.splits)
  moreover have "distinct (map fst m) \<Longrightarrow> distinct (map fst (leafStorage s x m))"
    by (auto simp: leafStorage_def Let_def distinct_update distinct_delete split: prod.splits)
  ultimately show ?case using Cons.IH [of "leafStorage s x m"] by simp
qed simp

lemma state_key_tags: "prefixAccount \<noteq> prefixStorage" "prefixAccount \<noteq> prefixCode" "prefixStorage \<noteq> prefixCode"
  by (simp_all add: prefixAccount_def prefixStorage_def prefixCode_def)

lemma accStep_commute:
  "fst x \<noteq> fst y \<Longrightarrow> accStep c dead F x (accStep c dead F y m) = accStep c dead F y (accStep c dead F x m)"
  using state_key_tags by (auto simp: accStep_def Let_def fun_eq_iff accountKey_def codeKey_def)

lemma storStep_commute: "fst x \<noteq> fst y \<Longrightarrow> storStep dead x (storStep dead y m) = storStep dead y (storStep dead x m)"
  by (auto simp: storStep_def fun_eq_iff storageKey_def prod_eq_iff)

lemma fold_step_order:
  assumes "\<And>x y m. fst x \<noteq> fst y \<Longrightarrow> f x (f y m) = f y (f x m)" "distinct (map fst ys)" "mset xs = mset ys"
  shows "fold f xs = fold f ys"
proof (rule fold_multiset_equiv)
  fix x y
  assume "x \<in> set xs" "y \<in> set xs"
  then have "x \<in> set ys" "y \<in> set ys" using assms(3) by (metis mset_eq_setD)+
  then have "x = y \<or> fst x \<noteq> fst y" using assms(2) by (metis eq_key_imp_eq_value prod.collapse)
  then show "f x \<circ> f y = f y \<circ> f x" using assms(1) [of x y] by (auto simp: fun_eq_iff)
qed (rule assms(3))

lemma collectLeaves_leaves:
  assumes "distinct (map fst (sdDb s))"
  obtains M where "fst (collectLeaves c s) = leafSort M" "distinct (map fst M)"
    "map_of M = fold (storStep (sdSuicides s)) (sdStorage s) (fold (accStep c (sdSuicides s) (codeFor s (sdCode s)))
       (sdAccounts s) (map_of (filter (\<lambda>kv. isStateKey (fst kv)) (sdDb s))))"
proof -
  let ?m = "filter (\<lambda>kv. isStateKey (fst kv)) (sdDb s)"
  obtain m1 cache where run: "fold (leafAccount c s) (sdAccounts s) (?m, sdCode s) = (m1, cache)" by fastforce
  have "distinct (map fst ?m)" using assms by (simp add: distinct_map_filter)
  with leafAccounts_run [OF run] show ?thesis
    using leafStorage_run [of s "sdStorage s" m1]
    by (intro that [of "fold (leafStorage s) (sdStorage s) m1"]) (simp_all add: collectLeaves_def run Let_def)
qed

text \<open>C31: the state root is a function of the contents of the state: it does not depend on the order
  in which the account cache and the storage cache are iterated.\<close>

theorem state_root_order_independent:
  assumes "distinct (map fst (sdDb s))" "distinct (map fst (sdAccounts s))" "distinct (map fst (sdStorage s))"
    "mset accs = mset (sdAccounts s)" "mset slots = mset (sdStorage s)"
  shows "fst (IntermediateRoot c (s\<lparr>sdAccounts := accs, sdStorage := slots\<rparr>)) = fst (IntermediateRoot c s)"
proof -
  let ?s = "s\<lparr>sdAccounts := accs, sdStorage := slots\<rparr>"
  obtain M where M: "fst (collectLeaves c s) = leafSort M" "distinct (map fst M)"
    "map_of M = fold (storStep (sdSuicides s)) (sdStorage s) (fold (accStep c (sdSuicides s) (codeFor s (sdCode s)))
       (sdAccounts s) (map_of (filter (\<lambda>kv. isStateKey (fst kv)) (sdDb s))))"
    by (rule collectLeaves_leaves [OF assms(1)])
  obtain N where N: "fst (collectLeaves c ?s) = leafSort N" "distinct (map fst N)"
    "map_of N = fold (storStep (sdSuicides ?s)) (sdStorage ?s) (fold (accStep c (sdSuicides ?s) (codeFor ?s (sdCode ?s)))
       (sdAccounts ?s) (map_of (filter (\<lambda>kv. isStateKey (fst kv)) (sdDb ?s))))"
    by (rule collectLeaves_leaves [of ?s]) (simp add: assms(1))
  have "codeFor ?s = codeFor s" by (simp add: codeFor_def fun_eq_iff split: option.split)
  moreover have "fold (accStep c dead F) accs = fold (accStep c dead F) (sdAccounts s)" for dead F
    using accStep_commute assms(2,4) by (rule fold_step_order)
  moreover have "fold (storStep dead) slots = fold (storStep dead) (sdStorage s)" for dead
    using storStep_commute assms(3,5) by (rule fold_step_order)
  ultimately have "map_of N = map_of M" using M(3) N(3) by simp
  then have "fst (collectLeaves c ?s) = fst (collectLeaves c s)"
    unfolding M(1) N(1) by (intro leafSort_cong M(2) N(2))
  then show ?thesis by (simp add: IntermediateRoot_def case_prod_beta)
qed


definition exAccounts :: StateDB where
  "exAccounts = (New [])\<lparr>sdAccounts := [(11, \<lparr>aNonce = 1, aBalance = 5, aCodeHash = EmptyCodeHash exLib\<rparr>),
     (12, \<lparr>aNonce = 0, aBalance = 7, aCodeHash = EmptyCodeHash exLib\<rparr>)]\<rparr>"

theorem state_root_order_independent_witness:
  "fst (IntermediateRoot exLib (exAccounts\<lparr>sdAccounts := rev (sdAccounts exAccounts), sdStorage := []\<rparr>)) =
   fst (IntermediateRoot exLib exAccounts)"
  by (rule state_root_order_independent) (simp_all add: exAccounts_def New_def)

end
