(* ===== verification/Staking.thy ===== *)
theory Staking
  imports StateFinal ValidatorSet "HOL-Library.State_Monad" "HOL-Library.Product_Lexorder"
begin

text \<open>
  The native staking module of \<^verbatim>\<open>src/core/native/staking.go\<close>: self-stake, unbonding escrow,
  delegation shares with an exchange rate, reward index, commission, double-sign slashing, the
  proposer income split and the active set, and its conversion into a validator set
  (\<^verbatim>\<open>src/consensus/activeset.go\<close>).

  The module keeps its state in storage slots of the account \<^verbatim>\<open>0x102\<close>, addressed by Keccak-256 of
  a domain string and addresses; \<^verbatim>\<open>stakeKey\<close> names the slots and \<^verbatim>\<open>stakePreimage\<close> is the hashed
  byte string.  Operations run in the state monad over the state database, as the Go methods
  mutate it; an operation that fails after a write keeps the write, as in the source.
\<close>

section \<open>Slots\<close>

definition StakingModuleAddr :: address where "StakingModuleAddr = 0x102"

definition stakeDomainSelf :: string where "stakeDomainSelf = ''dew/stake/v1/self''"
definition stakeDomainJailed :: string where "stakeDomainJailed = ''dew/stake/v1/jailed''"
definition stakeDomainCand :: string where "stakeDomainCand = ''dew/stake/v1/cand''"
definition stakeDomainLen :: string where "stakeDomainLen = ''dew/stake/v1/candlen''"
definition stakeDomainIdx :: string where "stakeDomainIdx = ''dew/stake/v1/candi''"
definition stakeDomainUnbondAmt :: string where "stakeDomainUnbondAmt = ''dew/stake/v1/unbondAmt''"
definition stakeDomainUnbondAt :: string where "stakeDomainUnbondAt = ''dew/stake/v1/unbondAt''"
definition stakeDomainDel :: string where "stakeDomainDel = ''dew/stake/v1/del''"
definition stakeDomainDelTot :: string where "stakeDomainDelTot = ''dew/stake/v1/delTot''"
definition stakeDomainComm :: string where "stakeDomainComm = ''dew/stake/v1/comm''"
definition stakeDomainDelUnbondAmt :: string where "stakeDomainDelUnbondAmt = ''dew/stake/v1/delUnbondAmt''"
definition stakeDomainDelUnbondAt :: string where "stakeDomainDelUnbondAt = ''dew/stake/v1/delUnbondAt''"
definition stakeDomainDelRate :: string where "stakeDomainDelRate = ''dew/stake/v1/delRate''"
definition stakeDomainRewIdx :: string where "stakeDomainRewIdx = ''dew/stake/v1/rewIdx''"
definition stakeDomainRewDebt :: string where "stakeDomainRewDebt = ''dew/stake/v1/rewDebt''"
definition stakeDomainRewPend :: string where "stakeDomainRewPend = ''dew/stake/v1/rewPend''"

datatype stakeKey =
    KSelf address | KJailed address | KCand address | KLen | KIdx u64
  | KUnbondAmt address | KUnbondAt address | KDel address address | KDelTot address | KComm address
  | KDelUnbondAmt address address | KDelUnbondAt address address | KDelRate address
  | KRewIdx address | KRewDebt address address | KRewPend address address

fun stakePreimage :: "stakeKey \<Rightarrow> byte list" where
  "stakePreimage (KSelf a) = strBytes stakeDomainSelf @ addrBytes a"
| "stakePreimage (KJailed a) = strBytes stakeDomainJailed @ addrBytes a"
| "stakePreimage (KCand a) = strBytes stakeDomainCand @ addrBytes a"
| "stakePreimage KLen = strBytes stakeDomainLen"
| "stakePreimage (KIdx i) = strBytes stakeDomainIdx @ putU64 i"
| "stakePreimage (KUnbondAmt a) = strBytes stakeDomainUnbondAmt @ addrBytes a"
| "stakePreimage (KUnbondAt a) = strBytes stakeDomainUnbondAt @ addrBytes a"
| "stakePreimage (KDel v d) = strBytes stakeDomainDel @ addrBytes v @ addrBytes d"
| "stakePreimage (KDelTot v) = strBytes stakeDomainDelTot @ addrBytes v"
| "stakePreimage (KComm v) = strBytes stakeDomainComm @ addrBytes v"
| "stakePreimage (KDelUnbondAmt v d) = strBytes stakeDomainDelUnbondAmt @ addrBytes v @ addrBytes d"
| "stakePreimage (KDelUnbondAt v d) = strBytes stakeDomainDelUnbondAt @ addrBytes v @ addrBytes d"
| "stakePreimage (KDelRate v) = strBytes stakeDomainDelRate @ addrBytes v"
| "stakePreimage (KRewIdx v) = strBytes stakeDomainRewIdx @ addrBytes v"
| "stakePreimage (KRewDebt v d) = strBytes stakeDomainRewDebt @ addrBytes v @ addrBytes d"
| "stakePreimage (KRewPend v d) = strBytes stakeDomainRewPend @ addrBytes v @ addrBytes d"

definition slotHash :: "('key, 'z) cryptoLib_scheme \<Rightarrow> byte list \<Rightarrow> hash" where
  "slotHash c parts = BytesToHash (keccak c parts)"

definition stakeSlot :: "('key, 'z) cryptoLib_scheme \<Rightarrow> stakeKey \<Rightarrow> hash" where
  "stakeSlot c k = slotHash c (stakePreimage k)"

text \<open>A 32-byte hash and the number it encodes are the same word here, so the conversions
  \<^verbatim>\<open>hashToU256\<close> and \<^verbatim>\<open>u256ToHash\<close> are the identity.\<close>

definition hashToU256 :: "hash \<Rightarrow> u256" where "hashToU256 h = h"

definition u256ToHash :: "u256 \<Rightarrow> hash" where "u256ToHash v = v"

type_synonym 'a stk = "(StateDB, 'a) state"

definition rdSlot :: "('key, 'z) stateLib_scheme \<Rightarrow> stakeKey \<Rightarrow> u256 stk" where
  "rdSlot c k = State (\<lambda>s. (case GetState s StakingModuleAddr (stakeSlot c k) of (h, s1) \<Rightarrow> (hashToU256 h, s1)))"

definition wrSlot :: "('key, 'z) stateLib_scheme \<Rightarrow> stakeKey \<Rightarrow> u256 \<Rightarrow> unit stk" where
  "wrSlot c k v = State (\<lambda>s. ((), SetState c s StakingModuleAddr (stakeSlot c k) (u256ToHash v)))"


section \<open>Configuration and errors\<close>

definition MaxCommissionBps :: u64 where "MaxCommissionBps = 10000"
definition DoubleSignSelfBurnBps :: u64 where "DoubleSignSelfBurnBps = 10000"
definition DoubleSignDelegatorBurnBps :: u64 where "DoubleSignDelegatorBurnBps = 500"
definition StakeRatePrecision :: u64 where "StakeRatePrecision = 1000000000000000000"
definition MinValidatorStakeWei :: u256 where "MinValidatorStakeWei = 100000 * 10 ^ 18"

record StakingConfig =
  MinSelfStake :: u256
  ActiveCap :: u64
  EpochLength :: u64
  UnbondSeconds :: u64

definition DefaultStakingConfig :: StakingConfig where
  "DefaultStakingConfig = \<lparr>MinSelfStake = MinValidatorStakeWei, ActiveCap = 100, EpochLength = 86400,
     UnbondSeconds = 604800\<rparr>"

definition NewStakingModule :: "StakingConfig \<Rightarrow> StakingConfig" where
  "NewStakingModule cfg = (if ActiveCap cfg = 0 then cfg\<lparr>ActiveCap := 100\<rparr> else cfg)"

datatype stakeError =
    ZeroBond | ZeroUnbond | StakeJailed | InsufficientStake | NoPendingUnbond | UnbondNotElapsed
  | ZeroDelegate | SelfDelegate | DelegateTooSmall | ZeroUndelegate | InsufficientDelegation
  | UndelegateTooSmall | DelegatedTotalUnderflow | NoPendingUndelegation | UndelegationNotElapsed
  | CommissionTooHigh | NoRewards

abbreviation ok :: "'a \<Rightarrow> (stakeError + 'a) stk" where "ok x \<equiv> State_Monad.return (Inr x)"
abbreviation fail :: "stakeError \<Rightarrow> (stakeError + 'a) stk" where "fail e \<equiv> State_Monad.return (Inl e)"


section \<open>Views\<close>

definition stakePrecision :: u256 where "stakePrecision = ucast StakeRatePrecision"

definition SelfStake :: "('key, 'z) stateLib_scheme \<Rightarrow> address \<Rightarrow> u256 stk" where
  "SelfStake c addr = rdSlot c (KSelf addr)"

definition IsJailed :: "('key, 'z) stateLib_scheme \<Rightarrow> address \<Rightarrow> bool stk" where
  "IsJailed c addr = do { h \<leftarrow> rdSlot c (KJailed addr); State_Monad.return (h \<noteq> 0) }"

definition IsCandidate :: "('key, 'z) stateLib_scheme \<Rightarrow> address \<Rightarrow> bool stk" where
  "IsCandidate c addr = do { h \<leftarrow> rdSlot c (KCand addr); State_Monad.return (h \<noteq> 0) }"

definition DelRate :: "('key, 'z) stateLib_scheme \<Rightarrow> address \<Rightarrow> u256 stk" where
  "DelRate c v = do { r \<leftarrow> rdSlot c (KDelRate v);
     State_Monad.return (if r = 0 then stakePrecision else r) }"

definition DelegationShares :: "('key, 'z) stateLib_scheme \<Rightarrow> address \<Rightarrow> address \<Rightarrow> u256 stk" where
  "DelegationShares c v d = rdSlot c (KDel v d)"

definition DelegatedTotalShares :: "('key, 'z) stateLib_scheme \<Rightarrow> address \<Rightarrow> u256 stk" where
  "DelegatedTotalShares c v = rdSlot c (KDelTot v)"

definition sharesToWei :: "('key, 'z) stateLib_scheme \<Rightarrow> address \<Rightarrow> u256 \<Rightarrow> u256 stk" where
  "sharesToWei c v shares = (if shares = 0 then State_Monad.return 0
     else do { r \<leftarrow> DelRate c v; State_Monad.return (shares * r div stakePrecision) })"

definition weiToShares :: "('key, 'z) stateLib_scheme \<Rightarrow> address \<Rightarrow> u256 \<Rightarrow> u256 stk" where
  "weiToShares c v wei = (if wei = 0 then State_Monad.return 0
     else do { rate \<leftarrow> DelRate c v; State_Monad.return (wei * stakePrecision div rate) })"

definition Delegation :: "('key, 'z) stateLib_scheme \<Rightarrow> address \<Rightarrow> address \<Rightarrow> u256 stk" where
  "Delegation c v d = do { sh \<leftarrow> DelegationShares c v d; sharesToWei c v sh }"

definition DelegatedTotal :: "('key, 'z) stateLib_scheme \<Rightarrow> address \<Rightarrow> u256 stk" where
  "DelegatedTotal c v = do { sh \<leftarrow> DelegatedTotalShares c v; sharesToWei c v sh }"

definition CommissionBps :: "('key, 'z) stateLib_scheme \<Rightarrow> address \<Rightarrow> u64 stk" where
  "CommissionBps c v = do { x \<leftarrow> rdSlot c (KComm v); State_Monad.return (ucast x) }"

definition PendingUndelegation :: "('key, 'z) stateLib_scheme \<Rightarrow> address \<Rightarrow> address \<Rightarrow> (u256 \<times> u64) stk" where
  "PendingUndelegation c v d = do { amount \<leftarrow> rdSlot c (KDelUnbondAmt v d);
     at \<leftarrow> rdSlot c (KDelUnbondAt v d); State_Monad.return (amount, ucast at) }"

definition VotingPower :: "('key, 'z) stateLib_scheme \<Rightarrow> address \<Rightarrow> u256 stk" where
  "VotingPower c addr = do {
     j \<leftarrow> IsJailed c addr;
     if j then State_Monad.return 0 else do {
       cand \<leftarrow> IsCandidate c addr;
       if \<not> cand then State_Monad.return 0 else do {
         self \<leftarrow> SelfStake c addr;
         del \<leftarrow> DelegatedTotal c addr;
         State_Monad.return (self + del) } } }"


section \<open>Bonding\<close>

definition registerCandidate :: "('key, 'z) stateLib_scheme \<Rightarrow> address \<Rightarrow> unit stk" where
  "registerCandidate c addr = do {
     cand \<leftarrow> IsCandidate c addr;
     if cand then State_Monad.return () else do {
       wrSlot c (KCand addr) 1;
       n \<leftarrow> rdSlot c KLen;
       wrSlot c (KIdx (ucast n)) (ucast addr);
       wrSlot c KLen (ucast (ucast n + 1 :: u64)) } }"

definition Bond :: "('key, 'z) stateLib_scheme \<Rightarrow> StakingConfig \<Rightarrow> address \<Rightarrow> u256 \<Rightarrow> (stakeError + unit) stk" where
  "Bond c cfg addr amount = (if amount = 0 then fail ZeroBond else do {
     cur \<leftarrow> SelfStake c addr;
     wrSlot c (KSelf addr) (cur + amount);
     cand \<leftarrow> (if MinSelfStake cfg \<le> cur + amount then IsCandidate c addr else State_Monad.return True);
     (if \<not> cand then registerCandidate c addr else State_Monad.return ());
     ok () })"

definition PendingUnbond :: "('key, 'z) stateLib_scheme \<Rightarrow> address \<Rightarrow> (u256 \<times> u64) stk" where
  "PendingUnbond c addr = do { amount \<leftarrow> rdSlot c (KUnbondAmt addr);
     at \<leftarrow> rdSlot c (KUnbondAt addr); State_Monad.return (amount, ucast at) }"

definition Unbond ::
    "('key, 'z) stateLib_scheme \<Rightarrow> StakingConfig \<Rightarrow> address \<Rightarrow> u256 \<Rightarrow> u64 \<Rightarrow> (stakeError + unit) stk" where
  "Unbond c cfg addr amount now = (if amount = 0 then fail ZeroUnbond else do {
     j \<leftarrow> IsJailed c addr;
     if j then fail StakeJailed else do {
       cur \<leftarrow> SelfStake c addr;
       if cur < amount then fail InsufficientStake else do {
         wrSlot c (KSelf addr) (cur - amount);
         (if cur - amount < MinSelfStake cfg then wrSlot c (KCand addr) 0 else State_Monad.return ());
         pu \<leftarrow> PendingUnbond c addr;
         wrSlot c (KUnbondAmt addr) (fst pu + amount);
         wrSlot c (KUnbondAt addr) (ucast (max (now + UnbondSeconds cfg) (snd pu)));
         ok () } } })"

definition Withdraw :: "('key, 'z) stateLib_scheme \<Rightarrow> address \<Rightarrow> u64 \<Rightarrow> (stakeError + u256) stk" where
  "Withdraw c addr now = do {
     pu \<leftarrow> PendingUnbond c addr;
     if fst pu = 0 then fail NoPendingUnbond
     else if now < snd pu then fail UnbondNotElapsed
     else do {
       wrSlot c (KUnbondAmt addr) 0;
       wrSlot c (KUnbondAt addr) 0;
       ok (fst pu) } }"

definition Jail :: "('key, 'z) stateLib_scheme \<Rightarrow> address \<Rightarrow> unit stk" where
  "Jail c addr = do { wrSlot c (KJailed addr) 1; wrSlot c (KCand addr) 0 }"


text \<open>The three parts of \<^verbatim>\<open>SlashAndJail\<close>: the self-stake burn, the cut of the delegators' exchange
  rate, and the burn from the escrow balance, capped by what the module holds.\<close>

definition slashSelf :: "('key, 'z) stateLib_scheme \<Rightarrow> address \<Rightarrow> u256 stk" where
  "slashSelf c addr = do {
     let selfBps = min DoubleSignSelfBurnBps MaxCommissionBps;
     self \<leftarrow> SelfStake c addr;
     let selfBurn = self * ucast selfBps div ucast MaxCommissionBps;
     (if selfBurn \<noteq> 0 then wrSlot c (KSelf addr) (self - selfBurn) else State_Monad.return ());
     State_Monad.return selfBurn }"

definition slashDelegators :: "('key, 'z) stateLib_scheme \<Rightarrow> address \<Rightarrow> u256 stk" where
  "slashDelegators c addr = do {
     let delBps = min DoubleSignDelegatorBurnBps MaxCommissionBps;
     delEff \<leftarrow> DelegatedTotal c addr;
     let delBurn = delEff * ucast delBps div ucast MaxCommissionBps;
     (if delBurn \<noteq> 0 \<and> delEff \<noteq> 0 then do {
        rate \<leftarrow> DelRate c addr;
        let remainBps = MaxCommissionBps - delBps;
        let newRate = rate * ucast remainBps div ucast MaxCommissionBps;
        wrSlot c (KDelRate addr) (if newRate = 0 \<and> remainBps > 0 then 1 else newRate)
      } else State_Monad.return ());
     State_Monad.return delBurn }"

definition burnEscrow :: "('key, 'z) stateLib_scheme \<Rightarrow> u256 \<Rightarrow> u256 stk" where
  "burnEscrow c totalBurn = (if totalBurn \<noteq> 0 then do {
     bal \<leftarrow> State (\<lambda>s. GetBalance c s StakingModuleAddr);
     let burn = (if bal < totalBurn then bal else totalBurn);
     (if burn \<noteq> 0 then do { _ \<leftarrow> State (\<lambda>s. SubBalance c s StakingModuleAddr burn); State_Monad.return () }
      else State_Monad.return ());
     State_Monad.return burn
   } else State_Monad.return totalBurn)"

definition SlashAndJail :: "('key, 'z) stateLib_scheme \<Rightarrow> address \<Rightarrow> u256 stk" where
  "SlashAndJail c addr = do {
     j \<leftarrow> IsJailed c addr;
     if j then State_Monad.return 0 else do {
       selfBurn \<leftarrow> slashSelf c addr;
       delBurn \<leftarrow> slashDelegators c addr;
       burnt \<leftarrow> burnEscrow c (selfBurn + delBurn);
       Jail c addr;
       State_Monad.return burnt } }"


section \<open>Rewards\<close>

definition RewardIndex :: "('key, 'z) stateLib_scheme \<Rightarrow> address \<Rightarrow> u256 stk" where
  "RewardIndex c v = rdSlot c (KRewIdx v)"

definition rewardDebt :: "('key, 'z) stateLib_scheme \<Rightarrow> address \<Rightarrow> address \<Rightarrow> u256 stk" where
  "rewardDebt c v d = rdSlot c (KRewDebt v d)"

definition setRewardDebt :: "('key, 'z) stateLib_scheme \<Rightarrow> address \<Rightarrow> address \<Rightarrow> u256 \<Rightarrow> unit stk" where
  "setRewardDebt c v d debt = wrSlot c (KRewDebt v d) debt"

definition pendingStored :: "('key, 'z) stateLib_scheme \<Rightarrow> address \<Rightarrow> address \<Rightarrow> u256 stk" where
  "pendingStored c v d = rdSlot c (KRewPend v d)"

definition setPendingStored :: "('key, 'z) stateLib_scheme \<Rightarrow> address \<Rightarrow> address \<Rightarrow> u256 \<Rightarrow> unit stk" where
  "setPendingStored c v d x = wrSlot c (KRewPend v d) x"

definition rewardDebtForShares :: "('key, 'z) stateLib_scheme \<Rightarrow> address \<Rightarrow> u256 \<Rightarrow> u256 stk" where
  "rewardDebtForShares c v shares = (if shares = 0 then State_Monad.return 0
     else do { idx \<leftarrow> RewardIndex c v; State_Monad.return (shares * idx div stakePrecision) })"

definition settleRewards :: "('key, 'z) stateLib_scheme \<Rightarrow> address \<Rightarrow> address \<Rightarrow> unit stk" where
  "settleRewards c v d = do {
     shares \<leftarrow> DelegationShares c v d;
     owed \<leftarrow> rewardDebtForShares c v shares;
     debt \<leftarrow> rewardDebt c v d;
     (if owed > debt then do {
        pend \<leftarrow> pendingStored c v d;
        setPendingStored c v d (pend + (owed - debt))
      } else State_Monad.return ());
     setRewardDebt c v d owed }"

definition PendingRewards :: "('key, 'z) stateLib_scheme \<Rightarrow> address \<Rightarrow> address \<Rightarrow> u256 stk" where
  "PendingRewards c v d = do { settleRewards c v d; pendingStored c v d }"

definition ClaimRewards :: "('key, 'z) stateLib_scheme \<Rightarrow> address \<Rightarrow> address \<Rightarrow> (stakeError + u256) stk" where
  "ClaimRewards c v d = do {
     settleRewards c v d;
     pend \<leftarrow> pendingStored c v d;
     if pend = 0 then fail NoRewards else do { setPendingStored c v d 0; ok pend } }"

definition IncreaseRewardIndex :: "('key, 'z) stateLib_scheme \<Rightarrow> address \<Rightarrow> u256 \<Rightarrow> u256 \<Rightarrow> unit stk" where
  "IncreaseRewardIndex c v delPart shares = (if delPart = 0 \<or> shares = 0 then State_Monad.return ()
     else let inc = delPart * stakePrecision div shares
          in if inc = 0 then State_Monad.return ()
             else do { idx \<leftarrow> RewardIndex c v; wrSlot c (KRewIdx v) (idx + inc) })"


section \<open>Delegation\<close>

definition Delegate ::
    "('key, 'z) stateLib_scheme \<Rightarrow> address \<Rightarrow> address \<Rightarrow> u256 \<Rightarrow> (stakeError + unit) stk" where
  "Delegate c v d amount = (if amount = 0 then fail ZeroDelegate
     else if v = d then fail SelfDelegate
     else do {
       settleRewards c v d;
       sharesAdd \<leftarrow> weiToShares c v amount;
       if sharesAdd = 0 then fail DelegateTooSmall else do {
         cur \<leftarrow> DelegationShares c v d;
         wrSlot c (KDel v d) (cur + sharesAdd);
         tot \<leftarrow> DelegatedTotalShares c v;
         wrSlot c (KDelTot v) (tot + sharesAdd);
         debt \<leftarrow> rewardDebtForShares c v (cur + sharesAdd);
         setRewardDebt c v d debt;
         ok () } })"

definition Undelegate ::
    "('key, 'z) stateLib_scheme \<Rightarrow> StakingConfig \<Rightarrow> address \<Rightarrow> address \<Rightarrow> u256 \<Rightarrow> u64 \<Rightarrow> (stakeError + unit) stk" where
  "Undelegate c cfg v d amount now = (if amount = 0 then fail ZeroUndelegate else do {
     settleRewards c v d;
     curEff \<leftarrow> Delegation c v d;
     if curEff < amount then fail InsufficientDelegation else do {
       wanted \<leftarrow> weiToShares c v amount;
       if wanted = 0 then fail UndelegateTooSmall else do {
         curShares \<leftarrow> DelegationShares c v d;
         let sharesSub = (if curShares < wanted then curShares else wanted);
         wrSlot c (KDel v d) (curShares - sharesSub);
         totShares \<leftarrow> DelegatedTotalShares c v;
         if totShares < sharesSub then fail DelegatedTotalUnderflow else do {
           wrSlot c (KDelTot v) (totShares - sharesSub);
           debt \<leftarrow> rewardDebtForShares c v (curShares - sharesSub);
           setRewardDebt c v d debt;
           pu \<leftarrow> PendingUndelegation c v d;
           wrSlot c (KDelUnbondAmt v d) (fst pu + amount);
           wrSlot c (KDelUnbondAt v d) (ucast (max (now + UnbondSeconds cfg) (snd pu)));
           ok () } } } })"

definition WithdrawDelegation ::
    "('key, 'z) stateLib_scheme \<Rightarrow> address \<Rightarrow> address \<Rightarrow> u64 \<Rightarrow> (stakeError + u256) stk" where
  "WithdrawDelegation c v d now = do {
     pu \<leftarrow> PendingUndelegation c v d;
     if fst pu = 0 then fail NoPendingUndelegation
     else if now < snd pu then fail UndelegationNotElapsed
     else do {
       wrSlot c (KDelUnbondAmt v d) 0;
       wrSlot c (KDelUnbondAt v d) 0;
       ok (fst pu) } }"

definition SetCommission :: "('key, 'z) stateLib_scheme \<Rightarrow> address \<Rightarrow> u64 \<Rightarrow> (stakeError + unit) stk" where
  "SetCommission c v bps = (if bps > MaxCommissionBps then fail CommissionTooHigh
     else do { wrSlot c (KComm v) (ucast bps); ok () })"


section \<open>Proposer income\<close>

definition addBalanceM :: "('key, 'z) stateLib_scheme \<Rightarrow> address \<Rightarrow> u256 \<Rightarrow> unit stk" where
  "addBalanceM c a amount = State (\<lambda>s. ((), snd (AddBalancePrev c s a amount)))"

definition payIncome :: "('key, 'z) stateLib_scheme \<Rightarrow> address \<Rightarrow> u256 \<Rightarrow> u256 \<Rightarrow> unit stk" where
  "payIncome c proposer amount valGets = do {
     let delPart = amount - valGets;
     (if valGets \<noteq> 0 then addBalanceM c proposer valGets else State_Monad.return ());
     if delPart = 0 then State_Monad.return () else do {
       shares \<leftarrow> DelegatedTotalShares c proposer;
       if shares = 0 then addBalanceM c proposer delPart else do {
         addBalanceM c StakingModuleAddr delPart;
         IncreaseRewardIndex c proposer delPart shares } } }"

definition DistributeProposerIncome ::
    "('key, 'z) stateLib_scheme \<Rightarrow> address \<Rightarrow> u256 \<Rightarrow> bool \<Rightarrow> unit stk" where
  "DistributeProposerIncome c proposer amount stakingEnabled =
     (if amount = 0 then State_Monad.return ()
      else if \<not> stakingEnabled then addBalanceM c proposer amount
      else do {
        S \<leftarrow> SelfStake c proposer;
        D \<leftarrow> DelegatedTotal c proposer;
        let P = S + D;
        if P = 0 then addBalanceM c proposer amount else do {
          cm \<leftarrow> CommissionBps c proposer;
          let num = S * ucast MaxCommissionBps + D * ucast cm;
          let den = P * ucast MaxCommissionBps;
          let quot = amount * num div den;
          let valGets = (if quot > amount then amount else quot);
          payIncome c proposer amount valGets } })"


section \<open>Active set\<close>

record Candidate =
  cdAddress :: address
  cdVotingPower :: u256

fun stkBytesLess :: "byte list \<Rightarrow> byte list \<Rightarrow> bool" where
  "stkBytesLess (a # as) (b # bs) = (if a \<noteq> b then a < b else stkBytesLess as bs)"
| "stkBytesLess as bs = (length as < length bs)"

definition candLess :: "Candidate \<Rightarrow> Candidate \<Rightarrow> bool" where
  "candLess x y = (if cdVotingPower x \<noteq> cdVotingPower y then cdVotingPower x > cdVotingPower y
     else stkBytesLess (addrBytes (cdAddress x)) (addrBytes (cdAddress y)))"

fun candInsert :: "Candidate \<Rightarrow> Candidate list \<Rightarrow> Candidate list" where
  "candInsert x [] = [x]"
| "candInsert x (y # ys) = (if candLess y x then y # candInsert x ys else x # y # ys)"

definition candSort :: "Candidate list \<Rightarrow> Candidate list" where
  "candSort xs = foldr candInsert xs []"

definition activeEntry :: "('key, 'z) stateLib_scheme \<Rightarrow> StakingConfig \<Rightarrow> nat \<Rightarrow> Candidate option stk" where
  "activeEntry c cfg i = do {
     h \<leftarrow> rdSlot c (KIdx (of_nat i));
     let addr = (ucast h :: address);
     if addr = 0 then State_Monad.return None else do {
       cand \<leftarrow> IsCandidate c addr;
       if \<not> cand then State_Monad.return None else do {
         j \<leftarrow> IsJailed c addr;
         if j then State_Monad.return None else do {
           self \<leftarrow> SelfStake c addr;
           if self < MinSelfStake cfg then State_Monad.return None else do {
             vp \<leftarrow> VotingPower c addr;
             if vp = 0 then State_Monad.return None
             else State_Monad.return (Some \<lparr>cdAddress = addr, cdVotingPower = vp\<rparr>) } } } } }"

fun activeLoop :: "('key, 'z) stateLib_scheme \<Rightarrow> StakingConfig \<Rightarrow> nat list \<Rightarrow> Candidate list stk" where
  "activeLoop c cfg [] = State_Monad.return []"
| "activeLoop c cfg (i # is) = do {
     e \<leftarrow> activeEntry c cfg i;
     rest \<leftarrow> activeLoop c cfg is;
     State_Monad.return (case e of None \<Rightarrow> rest | Some x \<Rightarrow> x # rest) }"

definition ActiveSet :: "('key, 'z) stateLib_scheme \<Rightarrow> StakingConfig \<Rightarrow> Candidate list stk" where
  "ActiveSet c cfg = do {
     n \<leftarrow> rdSlot c KLen;
     list \<leftarrow> activeLoop c cfg [0..<unat (ucast n :: u64)];
     let sorted = candSort list;
     State_Monad.return (if unat (ActiveCap cfg) < length sorted then take (unat (ActiveCap cfg)) sorted else sorted) }"

definition powerFromU256 :: "u256 \<Rightarrow> u64" where
  "powerFromU256 v = (if v = 0 then 0 else if unat v < 2 ^ 64 then ucast v else - 1)"

datatype rotateError = EmptyActiveSet | RotateSet vsError

definition ActiveSetToValidatorSet :: "Candidate list \<Rightarrow> rotateError + ValidatorSet" where
  "ActiveSetToValidatorSet candidates = (if candidates = [] then Inl EmptyActiveSet
     else case NewValidatorSet (concat (map (\<lambda>x.
            if cdAddress x = 0 \<or> cdVotingPower x = 0 \<or> powerFromU256 (cdVotingPower x) = 0 then []
            else [\<lparr>vAddress = cdAddress x, vPower = powerFromU256 (cdVotingPower x)\<rparr>]) candidates)) of
          Inl e \<Rightarrow> Inl (RotateSet e) | Inr v \<Rightarrow> Inr v)"

definition ShouldRotateEpoch :: "u64 \<Rightarrow> u64 \<Rightarrow> bool" where
  "ShouldRotateEpoch height epochLength =
     (if epochLength = 0 \<or> height = 0 then False else height mod epochLength = 0)"

end
