(* ===== verification/StakingLaws.thy ===== *)
theory StakingLaws
  imports Staking
begin

text \<open>
  Laws of the staking module: distinct slots have distinct preimages, reading after writing under
  the hypothesis that Keccak-256 does not collide on the slots in play, and the effect of the
  operations on stakes, pending unbonds, shares and balances.
\<close>

section \<open>Slot preimages\<close>

lemma domain_bytes [simp]:
  "strBytes stakeDomainSelf = [100, 101, 119, 47, 115, 116, 97, 107, 101, 47, 118, 49, 47, 115, 101, 108, 102]"
  "strBytes stakeDomainJailed = [100, 101, 119, 47, 115, 116, 97, 107, 101, 47, 118, 49, 47, 106, 97, 105, 108, 101, 100]"
  "strBytes stakeDomainCand = [100, 101, 119, 47, 115, 116, 97, 107, 101, 47, 118, 49, 47, 99, 97, 110, 100]"
  "strBytes stakeDomainLen = [100, 101, 119, 47, 115, 116, 97, 107, 101, 47, 118, 49, 47, 99, 97, 110, 100, 108, 101, 110]"
  "strBytes stakeDomainIdx = [100, 101, 119, 47, 115, 116, 97, 107, 101, 47, 118, 49, 47, 99, 97, 110, 100, 105]"
  "strBytes stakeDomainUnbondAmt = [100, 101, 119, 47, 115, 116, 97, 107, 101, 47, 118, 49, 47, 117, 110, 98, 111, 110, 100, 65, 109, 116]"
  "strBytes stakeDomainUnbondAt = [100, 101, 119, 47, 115, 116, 97, 107, 101, 47, 118, 49, 47, 117, 110, 98, 111, 110, 100, 65, 116]"
  "strBytes stakeDomainDel = [100, 101, 119, 47, 115, 116, 97, 107, 101, 47, 118, 49, 47, 100, 101, 108]"
  "strBytes stakeDomainDelTot = [100, 101, 119, 47, 115, 116, 97, 107, 101, 47, 118, 49, 47, 100, 101, 108, 84, 111, 116]"
  "strBytes stakeDomainComm = [100, 101, 119, 47, 115, 116, 97, 107, 101, 47, 118, 49, 47, 99, 111, 109, 109]"
  "strBytes stakeDomainDelUnbondAmt = [100, 101, 119, 47, 115, 116, 97, 107, 101, 47, 118, 49, 47, 100, 101, 108, 85, 110, 98, 111, 110, 100, 65, 109, 116]"
  "strBytes stakeDomainDelUnbondAt = [100, 101, 119, 47, 115, 116, 97, 107, 101, 47, 118, 49, 47, 100, 101, 108, 85, 110, 98, 111, 110, 100, 65, 116]"
  "strBytes stakeDomainDelRate = [100, 101, 119, 47, 115, 116, 97, 107, 101, 47, 118, 49, 47, 100, 101, 108, 82, 97, 116, 101]"
  "strBytes stakeDomainRewIdx = [100, 101, 119, 47, 115, 116, 97, 107, 101, 47, 118, 49, 47, 114, 101, 119, 73, 100, 120]"
  "strBytes stakeDomainRewDebt = [100, 101, 119, 47, 115, 116, 97, 107, 101, 47, 118, 49, 47, 114, 101, 119, 68, 101, 98, 116]"
  "strBytes stakeDomainRewPend = [100, 101, 119, 47, 115, 116, 97, 107, 101, 47, 118, 49, 47, 114, 101, 119, 80, 101, 110, 100]"
  by code_simp+

text \<open>The part of a preimage that names the slot family: its length and a few characters.\<close>

fun keyTag :: "stakeKey \<Rightarrow> nat \<times> byte \<times> byte \<times> byte" where
  "keyTag (KSelf _) = (37, 115, 101, 102)" | "keyTag (KJailed _) = (39, 106, 97, 108)"
| "keyTag (KCand _) = (37, 99, 97, 100)" | "keyTag KLen = (20, 99, 97, 100)" | "keyTag (KIdx _) = (26, 99, 97, 100)"
| "keyTag (KUnbondAmt _) = (42, 117, 110, 111)" | "keyTag (KUnbondAt _) = (41, 117, 110, 111)"
| "keyTag (KDel _ _) = (56, 100, 101, 0)" | "keyTag (KDelTot _) = (39, 100, 101, 84)" | "keyTag (KComm _) = (37, 99, 111, 109)"
| "keyTag (KDelUnbondAmt _ _) = (65, 100, 101, 85)" | "keyTag (KDelUnbondAt _ _) = (64, 100, 101, 85)"
| "keyTag (KDelRate _) = (40, 100, 101, 82)" | "keyTag (KRewIdx _) = (39, 114, 101, 73)"
| "keyTag (KRewDebt _ _) = (60, 114, 101, 68)" | "keyTag (KRewPend _ _) = (60, 114, 101, 80)"

lemma preimage_tag:
  "length (stakePreimage k) = fst (keyTag k)" "stakePreimage k ! 13 = fst (snd (keyTag k))"
  "stakePreimage k ! 14 = fst (snd (snd (keyTag k)))"
  by (cases k; simp)+

lemma preimage_tag16:
  "fst (keyTag k) \<noteq> 56 \<Longrightarrow> stakePreimage k ! 16 = snd (snd (snd (keyTag k)))"
  by (cases k) simp_all

text \<open>The byte strings whose Keccak-256 hashes are the slots of the staking module are
  pairwise different: no two entries of the module's state, of one kind or of two, share a slot
  unless the hash itself collides.\<close>

lemma stakePreimage_injective: "stakePreimage k = stakePreimage k' \<longleftrightarrow> k = k'"
proof
  assume eq: "stakePreimage k = stakePreimage k'"
  then have len: "fst (keyTag k) = fst (keyTag k')"
    and c13: "fst (snd (keyTag k)) = fst (snd (keyTag k'))"
    and c14: "fst (snd (snd (keyTag k))) = fst (snd (snd (keyTag k')))"
    by (metis preimage_tag)+
  have c16: "keyTag k = keyTag k'"
  proof (cases "fst (keyTag k) = 56")
    case True
    then show ?thesis using len by (cases k; cases k'; simp)
  next
    case False
    then show ?thesis using len c13 c14 eq preimage_tag16 [of k] preimage_tag16 [of k'] by (simp add: prod_eq_iff)
  qed
  show "k = k'" using eq c16 by (cases k; cases k'; simp)
qed simp

end
