(* ===== verification/StakingOps.thy ===== *)
theory StakingOps
  imports StakingLaws
begin

text \<open>
  The effect of the staking operations on the module's entries (\<^verbatim>\<open>stk\<close>) and on balances, for
  slots on which the hash does not collide, and the properties of bonding, slashing and the
  proposer income split.
\<close>

section \<open>Entries of the module\<close>

definition stk :: "('key, 'z) stateLib_scheme \<Rightarrow> StateDB \<Rightarrow> stakeKey \<Rightarrow> u256" where
  "stk c s k = slotOf s (StakingModuleAddr, stakeSlot c k)"

definition exec :: "'a stk \<Rightarrow> StateDB \<Rightarrow> StateDB" where "exec m s = snd (run_state m s)"

definition result :: "'a stk \<Rightarrow> StateDB \<Rightarrow> 'a" where "result m s = fst (run_state m s)"

lemma run_bind [simp]:
  "exec (State_Monad.bind m f) s = exec (f (result m s)) (exec m s)"
  "result (State_Monad.bind m f) s = result (f (result m s)) (exec m s)"
  by (simp_all add: exec_def result_def case_prod_beta)

lemma run_return [simp]: "exec (State_Monad.return x) s = s" "result (State_Monad.return x) s = x"
  by (simp_all add: exec_def result_def)

lemma run_if [simp]:
  "exec (if b then m else n) s = (if b then exec m s else exec n s)"
  "result (if b then m else n) s = (if b then result m s else result n s)"
  by simp_all

lemma run_rdSlot [simp]:
  "result (rdSlot c k) s = stk c s k" "stk c' (exec (rdSlot c k) s) = stk c' s"
  "accountOf c' (exec (rdSlot c k) s) = accountOf c' s" "sdSuicides (exec (rdSlot c k) s) = sdSuicides s"
  "sdDb (exec (rdSlot c k) s) = sdDb s"
  by (simp_all add: exec_def result_def rdSlot_def stk_def GetState_fst hashToU256_def case_prod_beta
      accountOf_def fun_eq_iff)

lemma run_wrSlot [simp]:
  "stk c (exec (wrSlot c k v) s) k' = (if stakeSlot c k' = stakeSlot c k then v else stk c s k')"
  "accountOf c (exec (wrSlot c k v) s) = accountOf c s" "sdSuicides (exec (wrSlot c k v) s) = sdSuicides s"
  "sdDb (exec (wrSlot c k v) s) = sdDb s"
  by (simp_all add: exec_def wrSlot_def stk_def u256ToHash_def)

text \<open>The slots of the entries that concern the participants \<^verbatim>\<open>A\<close>.\<close>

fun keyIn :: "address set \<Rightarrow> stakeKey \<Rightarrow> bool" where
  "keyIn A (KSelf a) = (a \<in> A)" | "keyIn A (KJailed a) = (a \<in> A)" | "keyIn A (KCand a) = (a \<in> A)"
| "keyIn A KLen = True" | "keyIn A (KIdx i) = True"
| "keyIn A (KUnbondAmt a) = (a \<in> A)" | "keyIn A (KUnbondAt a) = (a \<in> A)"
| "keyIn A (KDel v d) = (v \<in> A \<and> d \<in> A)" | "keyIn A (KDelTot v) = (v \<in> A)" | "keyIn A (KComm v) = (v \<in> A)"
| "keyIn A (KDelUnbondAmt v d) = (v \<in> A \<and> d \<in> A)" | "keyIn A (KDelUnbondAt v d) = (v \<in> A \<and> d \<in> A)"
| "keyIn A (KDelRate v) = (v \<in> A)" | "keyIn A (KRewIdx v) = (v \<in> A)"
| "keyIn A (KRewDebt v d) = (v \<in> A \<and> d \<in> A)" | "keyIn A (KRewPend v d) = (v \<in> A \<and> d \<in> A)"

definition slots_ok :: "('key, 'z) stateLib_scheme \<Rightarrow> address set \<Rightarrow> bool" where
  "slots_ok c A \<longleftrightarrow> inj_on (stakeSlot c) {k. keyIn A k}"

lemma slot_eq:
  "slots_ok c A \<Longrightarrow> keyIn A k \<Longrightarrow> keyIn A k' \<Longrightarrow> stakeSlot c k = stakeSlot c k' \<longleftrightarrow> k = k'"
  by (auto simp: slots_ok_def inj_on_def)

lemmas stk_views = SelfStake_def IsJailed_def IsCandidate_def DelRate_def DelegationShares_def
  DelegatedTotalShares_def sharesToWei_def weiToShares_def Delegation_def DelegatedTotal_def CommissionBps_def
  PendingUndelegation_def PendingUnbond_def VotingPower_def RewardIndex_def rewardDebt_def pendingStored_def
  setRewardDebt_def setPendingStored_def rewardDebtForShares_def


lemma view_stk [simp]:
  "stk c (exec (weiToShares c v x) s) = stk c s" "stk c (exec (sharesToWei c v x) s) = stk c s"
  "stk c (exec (Delegation c v d) s) = stk c s" "stk c (exec (DelegatedTotal c v) s) = stk c s"
  "stk c (exec (rewardDebtForShares c v x) s) = stk c s" "stk c (exec (VotingPower c v) s) = stk c s"
  by (simp_all add: stk_views)

section \<open>Self-stake and unbonding\<close>

text \<open>The wei of one validator the module holds: self-stake and pending unbond.\<close>

definition selfClaim :: "('key, 'z) stateLib_scheme \<Rightarrow> StateDB \<Rightarrow> address \<Rightarrow> u256" where
  "selfClaim c s a = stk c s (KSelf a) + stk c s (KUnbondAmt a)"

datatype stakeOp =
    SBond address u256 | SUnbond address u256 u64 | SWithdraw address u64 | SSlash address
  | SDelegate address address u256 | SUndelegate address address u256 u64 | SWithdrawDel address address u64
  | SCommission address u64 | SClaim address address | SIncome address u256

fun stakeExec :: "('key, 'z) stateLib_scheme \<Rightarrow> StakingConfig \<Rightarrow> stakeOp \<Rightarrow> StateDB \<Rightarrow> StateDB" where
  "stakeExec c cfg (SBond a x) s = exec (Bond c cfg a x) s"
| "stakeExec c cfg (SUnbond a x t) s = exec (Unbond c cfg a x t) s"
| "stakeExec c cfg (SWithdraw a t) s = exec (Withdraw c a t) s"
| "stakeExec c cfg (SSlash a) s = exec (SlashAndJail c a) s"
| "stakeExec c cfg (SDelegate v d x) s = exec (Delegate c v d x) s"
| "stakeExec c cfg (SUndelegate v d x t) s = exec (Undelegate c cfg v d x t) s"
| "stakeExec c cfg (SWithdrawDel v d t) s = exec (WithdrawDelegation c v d t) s"
| "stakeExec c cfg (SCommission v b) s = exec (SetCommission c v b) s"
| "stakeExec c cfg (SClaim v d) s = exec (ClaimRewards c v d) s"
| "stakeExec c cfg (SIncome p x) s = exec (DistributeProposerIncome c p x True) s"

fun opIn :: "address set \<Rightarrow> stakeOp \<Rightarrow> bool" where
  "opIn A (SBond a x) = (a \<in> A)" | "opIn A (SUnbond a x t) = (a \<in> A)" | "opIn A (SWithdraw a t) = (a \<in> A)"
| "opIn A (SSlash a) = (a \<in> A)" | "opIn A (SDelegate v d x) = (v \<in> A \<and> d \<in> A)"
| "opIn A (SUndelegate v d x t) = (v \<in> A \<and> d \<in> A)" | "opIn A (SWithdrawDel v d t) = (v \<in> A \<and> d \<in> A)"
| "opIn A (SCommission v b) = (v \<in> A)" | "opIn A (SClaim v d) = (v \<in> A \<and> d \<in> A)" | "opIn A (SIncome p x) = (p \<in> A)"

text \<open>What one operation pays into (positive) or out of the self-stake account of \<^verbatim>\<open>a\<close>.\<close>

fun selfFlow :: "('key, 'z) stateLib_scheme \<Rightarrow> address \<Rightarrow> stakeOp \<Rightarrow> StateDB \<Rightarrow> u256" where
  "selfFlow c a (SBond b x) s = (if b = a then x else 0)"
| "selfFlow c a (SWithdraw b t) s = (if b = a then
     (case result (Withdraw c b t) s of Inl e \<Rightarrow> 0 | Inr x \<Rightarrow> - x) else 0)"
| "selfFlow c a (SSlash b) s = (if b = a \<and> stk c s (KJailed a) = 0
     then - (stk c s (KSelf a) * 10000 div 10000) else 0)"
| "selfFlow c a _ s = 0"

lemma run_balance [simp]:
  "stk c (exec (State (\<lambda>s. GetBalance c' s a)) s) = stk c s"
  "stk c (exec (State (\<lambda>s. SubBalance c' s a v)) s) = stk c s"
  "stk c (exec (addBalanceM c' a v) s) = stk c s"
  "result (State (\<lambda>s. GetBalance c' s a)) s = aBalance (accountOf c' s a)"
  "accountOf c' (exec (State (\<lambda>s. GetBalance c' s a)) s) = accountOf c' s"
  by (simp_all add: exec_def result_def stk_def fun_eq_iff SubBalance_def AddBalancePrev_def addBalanceM_def
      case_prod_beta Let_def accessor_views accountOf_def)

lemma slash_bps:
  "DoubleSignSelfBurnBps = 10000" "DoubleSignDelegatorBurnBps = 500" "MaxCommissionBps = 10000"
  "min (500 :: u64) 10000 = 500"
  by (simp_all add: DoubleSignSelfBurnBps_def DoubleSignDelegatorBurnBps_def MaxCommissionBps_def min_def)

lemma burnEscrow_stk [simp]: "stk c (exec (burnEscrow c x) s) = stk c s"
  by (simp add: burnEscrow_def Let_def)

lemma slashDelegators_stk:
  assumes "slots_ok c A" "a \<in> A" "keyIn A k" "k \<noteq> KDelRate a"
  shows "stk c (exec (slashDelegators c a) s) k = stk c s k"
  using assms(2-) slot_eq [OF assms(1)] by (simp add: slashDelegators_def Let_def stk_views)

lemma slashSelf_stk:
  assumes "slots_ok c A" "a \<in> A" "keyIn A k"
  shows "stk c (exec (slashSelf c a) s) k =
      (if k = KSelf a then stk c s k - stk c s k * 10000 div 10000 else stk c s k)"
    "result (slashSelf c a) s = stk c s (KSelf a) * 10000 div 10000"
  using assms(2-) slot_eq [OF assms(1)] by (auto simp: slashSelf_def Let_def slash_bps SelfStake_def)

lemma SlashAndJail_stk:
  assumes "slots_ok c A" "a \<in> A" "keyIn A k" "k \<noteq> KDelRate a"
  shows "stk c (exec (SlashAndJail c a) s) k =
     (if stk c s (KJailed a) \<noteq> 0 then stk c s k
      else if k = KJailed a then 1 else if k = KCand a then 0
      else if k = KSelf a then stk c s k - stk c s k * 10000 div 10000 else stk c s k)"
  using assms(2-) slot_eq [OF assms(1)] slashDelegators_stk [OF assms] slashSelf_stk [OF assms(1-3)]
  by (simp add: SlashAndJail_def Jail_def IsJailed_def)

lemma settle_other:
  assumes "slots_ok c A" "v \<in> A" "d \<in> A" "keyIn A k" "k \<noteq> KRewDebt v d" "k \<noteq> KRewPend v d"
  shows "stk c (exec (settleRewards c v d) s) k = stk c s k"
  using assms(2-) slot_eq [OF assms(1)] by (auto simp: settleRewards_def stk_views)

lemma selfClaim_op:
  assumes "slots_ok c A" "a \<in> A" "opIn A op"
  shows "selfClaim c (stakeExec c cfg op s) a = selfClaim c s a + selfFlow c a op s"
proof -
  note eq = slot_eq [OF assms(1)] and settle = settle_other [OF assms(1)] and slash = SlashAndJail_stk [OF assms(1)]
  show ?thesis
  proof (cases op)
    case (SBond b x)
    then show ?thesis using assms(2,3) eq
      by (auto simp: selfClaim_def Bond_def registerCandidate_def stk_views)
  next
    case (SUnbond b x t)
    then show ?thesis using assms(2,3) eq
      by (auto simp: selfClaim_def Unbond_def stk_views)
  next
    case (SWithdraw b t)
    then show ?thesis using assms(2,3) eq
      by (auto simp: selfClaim_def Withdraw_def stk_views)
  next
    case (SDelegate v d x)
    then show ?thesis using assms(2,3) eq settle
      by (auto simp: selfClaim_def Delegate_def stk_views)
  next
    case (SUndelegate v d x t)
    then show ?thesis using assms(2,3) eq settle
      by (auto simp: selfClaim_def Undelegate_def stk_views Let_def)
  next
    case (SSlash b)
    then show ?thesis using assms(2,3) slash [of b] by (auto simp: selfClaim_def SlashAndJail_stk [OF assms(1)])
  next
    case (SIncome p x)
    then show ?thesis using assms(2,3) eq
      by (auto simp: selfClaim_def DistributeProposerIncome_def payIncome_def IncreaseRewardIndex_def stk_views Let_def)
  qed (use assms(2,3) eq settle in \<open>auto simp: selfClaim_def WithdrawDelegation_def SetCommission_def
      ClaimRewards_def stk_views\<close>)
qed

fun selfFlows :: "('key, 'z) stateLib_scheme \<Rightarrow> StakingConfig \<Rightarrow> address \<Rightarrow> stakeOp list \<Rightarrow> StateDB \<Rightarrow> u256" where
  "selfFlows c cfg a [] s = 0"
| "selfFlows c cfg a (op # ops) s = selfFlow c a op s + selfFlows c cfg a ops (stakeExec c cfg op s)"

text \<open>C16: over every sequence of staking operations by any participants, failing ones included, a
  validator's self-stake plus pending unbond changes by exactly what it bonded minus what it
  withdrew minus what was burnt when it was slashed: delegation, rewards, commission and the
  operations of others do not touch it.\<close>

theorem self_stake_conserved:
  assumes "slots_ok c A" "a \<in> A" "list_all (opIn A) ops"
  shows "selfClaim c (fold (stakeExec c cfg) ops s) a = selfClaim c s a + selfFlows c cfg a ops s"
  using assms(3) by (induction ops arbitrary: s) (simp_all add: selfClaim_op [OF assms(1,2)] add.assoc)

end

