(* ===== verification/StakingProps.thy ===== *)
theory StakingProps
  imports StakingOps
begin

text \<open>
  Properties of the staking module: exact share totals, the unbonding life cycle, slashing, the
  income split and the active set.
\<close>

section \<open>Delegation shares add up\<close>

definition shares_exact :: "('key, 'z) stateLib_scheme \<Rightarrow> address set \<Rightarrow> address \<Rightarrow> StateDB \<Rightarrow> bool" where
  "shares_exact c A v s \<longleftrightarrow> unat (stk c s (KDelTot v)) = (\<Sum>d\<in>A. unat (stk c s (KDel v d)))"

text \<open>No share total wraps around.\<close>

fun noWrap :: "('key, 'z) stateLib_scheme \<Rightarrow> StakingConfig \<Rightarrow> stakeOp \<Rightarrow> StateDB \<Rightarrow> bool" where
  "noWrap c cfg (SDelegate v d x) s = (stk c s (KDelTot v) \<le> stk c (stakeExec c cfg (SDelegate v d x) s) (KDelTot v))"
| "noWrap c cfg _ s = True"

fun noWraps :: "('key, 'z) stateLib_scheme \<Rightarrow> StakingConfig \<Rightarrow> stakeOp list \<Rightarrow> StateDB \<Rightarrow> bool" where
  "noWraps c cfg [] s = True"
| "noWraps c cfg (op # ops) s = (noWrap c cfg op s \<and> noWraps c cfg ops (stakeExec c cfg op s))"

lemma shares_exact_cong:
  "stk c s' (KDelTot v) = stk c s (KDelTot v) \<Longrightarrow> (\<And>d. d \<in> A \<Longrightarrow> stk c s' (KDel v d) = stk c s (KDel v d)) \<Longrightarrow>
   shares_exact c A v s' = shares_exact c A v s"
  by (simp add: shares_exact_def)

lemma shares_le_total:
  assumes "shares_exact c A v s" "d \<in> A"
  shows "stk c s (KDel v d) \<le> stk c s (KDelTot v)"
proof -
  have "unat (stk c s (KDel v d)) \<le> (\<Sum>d\<in>A. unat (stk c s (KDel v d)))"
    using assms(2) by (intro member_le_sum) auto
  then show ?thesis using assms(1) by (simp add: shares_exact_def word_le_nat_alt)
qed

lemma sum_update:
  assumes "d \<in> A" "\<And>x. x \<in> A \<Longrightarrow> x \<noteq> d \<Longrightarrow> f x = (g x :: nat)"
  shows "(\<Sum>x\<in>(A :: address set). f x) + g d = (\<Sum>x\<in>A. g x) + f d"
proof -
  have "(\<Sum>x\<in>A - {d}. f x) = (\<Sum>x\<in>A - {d}. g x)" using assms(2) by (intro sum.cong) auto
  then show ?thesis using sum.remove [of A d f] sum.remove [of A d g] assms(1) by simp
qed

lemma shares_exact_add:
  assumes "shares_exact c A v s" "d \<in> A"
    "stk c s' (KDel v d) = stk c s (KDel v d) + sh" "stk c s' (KDelTot v) = stk c s (KDelTot v) + sh"
    "\<And>x. x \<in> A \<Longrightarrow> x \<noteq> d \<Longrightarrow> stk c s' (KDel v x) = stk c s (KDel v x)"
    "stk c s (KDelTot v) \<le> stk c s' (KDelTot v)"
  shows "shares_exact c A v s'"
proof -
  let ?tot = "stk c s (KDelTot v)" and ?x = "stk c s (KDel v d)"
  have t: "unat (?tot + sh) = unat ?tot + unat sh"
    using assms(4,6) unat_plus_simple [of ?tot sh] by simp
  moreover have "?x \<le> ?tot" by (rule shares_le_total [OF assms(1,2)])
  ultimately have x: "unat (?x + sh) = unat ?x + unat sh"
    using unat_less_pow [of "?tot + sh"] by (intro unat_plus_exact) (auto simp: word_le_nat_alt)
  show ?thesis
    using sum_update [OF assms(2), of "\<lambda>x. unat (stk c s' (KDel v x))" "\<lambda>x. unat (stk c s (KDel v x))"]
      assms(1,3-5) t x by (simp add: shares_exact_def)
qed

lemma shares_exact_sub:
  assumes "shares_exact c A v s" "d \<in> A" "sh \<le> stk c s (KDel v d)"
    "stk c s' (KDel v d) = stk c s (KDel v d) - sh" "stk c s' (KDelTot v) = stk c s (KDelTot v) - sh"
    "\<And>x. x \<in> A \<Longrightarrow> x \<noteq> d \<Longrightarrow> stk c s' (KDel v x) = stk c s (KDel v x)"
  shows "shares_exact c A v s'"
proof -
  let ?tot = "stk c s (KDelTot v)" and ?x = "stk c s (KDel v d)"
  have "sh \<le> ?tot" using assms(3) shares_le_total [OF assms(1,2)] by (rule order_trans)
  then have "unat (?tot - sh) = unat ?tot - unat sh" "unat (?x - sh) = unat ?x - unat sh"
    "unat sh \<le> unat ?x" "unat sh \<le> unat ?tot"
    using assms(3) by (auto simp: unat_sub word_le_nat_alt)
  then show ?thesis
    using sum_update [OF assms(2), of "\<lambda>x. unat (stk c s' (KDel v x))" "\<lambda>x. unat (stk c s (KDel v x))"]
      assms(1,4-6) by (simp add: shares_exact_def)
qed

lemma Delegate_shares:
  assumes "slots_ok c A" "v \<in> A" "d \<in> A"
  shows "\<exists>sh. stk c (exec (Delegate c v d x) s) (KDel v d) = stk c s (KDel v d) + sh \<and>
     stk c (exec (Delegate c v d x) s) (KDelTot v) = stk c s (KDelTot v) + sh \<and>
     (\<forall>w\<in>A. \<forall>e\<in>A. (w, e) \<noteq> (v, d) \<longrightarrow> stk c (exec (Delegate c v d x) s) (KDel w e) = stk c s (KDel w e)) \<and>
     (\<forall>w\<in>A. w \<noteq> v \<longrightarrow> stk c (exec (Delegate c v d x) s) (KDelTot w) = stk c s (KDelTot w))"
proof -
  let ?t = "exec (settleRewards c v d) s"
  let ?sh = "if x = 0 \<or> v = d then 0 else result (weiToShares c v x) ?t"
  show ?thesis
    by (rule exI [of _ ?sh])
      (use assms(2,3) slot_eq [OF assms(1)] settle_other [OF assms(1-3)] in \<open>auto simp: Delegate_def stk_views\<close>)
qed


lemma Undelegate_shares:
  assumes "slots_ok c A" "v \<in> A" "d \<in> A" "shares_exact c A v s"
  shows "\<exists>sh \<le> stk c s (KDel v d).
     stk c (exec (Undelegate c cfg v d x t) s) (KDel v d) = stk c s (KDel v d) - sh \<and>
     stk c (exec (Undelegate c cfg v d x t) s) (KDelTot v) = stk c s (KDelTot v) - sh \<and>
     (\<forall>w\<in>A. \<forall>e\<in>A. (w, e) \<noteq> (v, d) \<longrightarrow> stk c (exec (Undelegate c cfg v d x t) s) (KDel w e) = stk c s (KDel w e)) \<and>
     (\<forall>w\<in>A. w \<noteq> v \<longrightarrow> stk c (exec (Undelegate c cfg v d x t) s) (KDelTot w) = stk c s (KDelTot w)) \<and>
     result (Undelegate c cfg v d x t) s \<noteq> Inl DelegatedTotalUnderflow"
proof -
  let ?t = "exec (settleRewards c v d) s"
  let ?W = "result (weiToShares c v x) (exec (Delegation c v d) ?t)"
  let ?m = "if stk c s (KDel v d) < ?W then stk c s (KDel v d) else ?W"
  let ?sh = "if x = 0 \<or> result (Delegation c v d) ?t < x then 0 else ?m"
  have le: "stk c s (KDel v d) \<le> stk c s (KDelTot v)" by (rule shares_le_total [OF assms(4,3)])
  then have "\<not> stk c s (KDelTot v) < stk c s (KDel v d)"
    "\<not> stk c s (KDel v d) < ?W \<Longrightarrow> \<not> stk c s (KDelTot v) < ?W" by auto
  then show ?thesis
    by (intro exI [of _ ?sh])
      (use assms(2,3) slot_eq [OF assms(1)] settle_other [OF assms(1-3)] in
        \<open>auto simp: Undelegate_def DelegationShares_def DelegatedTotalShares_def setRewardDebt_def
          PendingUndelegation_def Let_def\<close>)
qed

lemma shares_exact_op:
  assumes "slots_ok c A" "\<forall>v\<in>A. shares_exact c A v s" "opIn A op" "noWrap c cfg op s" "w \<in> A"
  shows "shares_exact c A w (stakeExec c cfg op s)"
proof -
  note eq = slot_eq [OF assms(1)] and settle = settle_other [OF assms(1)]
  have base: "shares_exact c A w s" using assms(2,5) by blast
  show ?thesis
  proof (cases op)
    case (SDelegate v d x)
    then have vd: "v \<in> A" "d \<in> A" using assms(3) by auto
    obtain sh where sh: "stk c (stakeExec c cfg op s) (KDel v d) = stk c s (KDel v d) + sh"
      "stk c (stakeExec c cfg op s) (KDelTot v) = stk c s (KDelTot v) + sh"
      "\<forall>w\<in>A. \<forall>e\<in>A. (w, e) \<noteq> (v, d) \<longrightarrow> stk c (stakeExec c cfg op s) (KDel w e) = stk c s (KDel w e)"
      "\<forall>w\<in>A. w \<noteq> v \<longrightarrow> stk c (stakeExec c cfg op s) (KDelTot w) = stk c s (KDelTot w)"
      using Delegate_shares [OF assms(1) vd, of x s] SDelegate by auto
    show ?thesis
    proof (cases "w = v")
      case True
      have "stk c s (KDelTot v) \<le> stk c (stakeExec c cfg op s) (KDelTot v)"
        using assms(4) SDelegate by simp
      then show ?thesis
        using shares_exact_add [OF base vd(2), where s' = "stakeExec c cfg op s" and sh = sh] sh vd True by simp
    next
      case False
      then show ?thesis using sh(3,4) assms(5) by (intro shares_exact_cong [THEN iffD2, OF _ _ base]) auto
    qed
  next
    case (SUndelegate v d x t)
    then have vd: "v \<in> A" "d \<in> A" using assms(3) by auto
    then have "shares_exact c A v s" using assms(2) by blast
    from Undelegate_shares [OF assms(1) vd this, of cfg x t] SUndelegate
    obtain sh where sh: "sh \<le> stk c s (KDel v d)"
      "stk c (stakeExec c cfg op s) (KDel v d) = stk c s (KDel v d) - sh"
      "stk c (stakeExec c cfg op s) (KDelTot v) = stk c s (KDelTot v) - sh"
      "\<forall>w\<in>A. \<forall>e\<in>A. (w, e) \<noteq> (v, d) \<longrightarrow> stk c (stakeExec c cfg op s) (KDel w e) = stk c s (KDel w e)"
      "\<forall>w\<in>A. w \<noteq> v \<longrightarrow> stk c (stakeExec c cfg op s) (KDelTot w) = stk c s (KDelTot w)" by auto
    show ?thesis
    proof (cases "w = v")
      case True
      then show ?thesis
        using shares_exact_sub [OF base vd(2), where s' = "stakeExec c cfg op s" and sh = sh] sh vd by simp
    next
      case False
      then show ?thesis using sh(4,5) assms(5) by (intro shares_exact_cong [THEN iffD2, OF _ _ base]) auto
    qed
  next
    case (SSlash a)
    then show ?thesis using assms(3,5) SlashAndJail_stk [OF assms(1)]
      by (intro shares_exact_cong [THEN iffD2, OF _ _ base]) auto
  qed (use assms(3,5) eq settle base in \<open>auto simp: shares_exact_def Bond_def registerCandidate_def Unbond_def
      Withdraw_def WithdrawDelegation_def SetCommission_def ClaimRewards_def DistributeProposerIncome_def payIncome_def
      IncreaseRewardIndex_def stk_views Let_def\<close>)
qed

text \<open>C17: over every sequence of staking operations in which no share total wraps around, the
  recorded total of a validator's delegation shares is exactly the sum of its delegators' shares,
  and an undelegation never fails with the total underflow that would leave the two out of step.\<close>

theorem delegation_shares_add_up:
  assumes "slots_ok c A" "list_all (opIn A) ops" "\<forall>v\<in>A. shares_exact c A v s" "noWraps c cfg ops s"
    "v \<in> A" "d \<in> A"
  shows "unat (stk c (fold (stakeExec c cfg) ops s) (KDelTot v)) =
       (\<Sum>e\<in>A. unat (stk c (fold (stakeExec c cfg) ops s) (KDel v e))) \<and>
     result (Undelegate c cfg v d x t) (fold (stakeExec c cfg) ops s) \<noteq> Inl DelegatedTotalUnderflow"
proof -
  have "\<forall>v\<in>A. shares_exact c A v (fold (stakeExec c cfg) ops s)"
    using assms(2,3,4)
  proof (induction ops arbitrary: s)
    case (Cons op ops)
    then have "\<forall>v\<in>A. shares_exact c A v (stakeExec c cfg op s)"
      using shares_exact_op [OF assms(1)] by auto
    then show ?case using Cons by auto
  qed simp
  then show ?thesis
    using assms(5) Undelegate_shares [OF assms(1,5,6)] by (fastforce simp: shares_exact_def)
qed


section \<open>The unbonding life cycle\<close>

text \<open>C21: a successful unbond takes exactly the amount from the self-stake; from then on a
  withdrawal fails before the unlock time (the later of the old one and now plus the unbonding
  period) and at or after it pays exactly the accumulated pending amount, once.\<close>

theorem unbond_then_withdraw:
  assumes "slots_ok c A" "a \<in> A" "result (Unbond c cfg a x now) s = Inr ()"
    "s1 = exec (Unbond c cfg a x now) s" "pend = stk c s (KUnbondAmt a) + x" "pend \<noteq> 0"
    "unlock = max (now + UnbondSeconds cfg) (ucast (stk c s (KUnbondAt a)))"
  shows "x \<le> stk c s (KSelf a) \<and> stk c s1 (KSelf a) = stk c s (KSelf a) - x \<and>
     result (Withdraw c a t) s1 = (if t < unlock then Inl UnbondNotElapsed else Inr pend) \<and>
     (if t < unlock then stk c (exec (Withdraw c a t) s1) (KUnbondAmt a) = pend
      else result (Withdraw c a t') (exec (Withdraw c a t) s1) = Inl NoPendingUnbond)"
proof -
  note eq = slot_eq [OF assms(1)]
  have ok: "x \<noteq> 0" "stk c s (KJailed a) = 0" "\<not> stk c s (KSelf a) < x"
    using assms(2,3) eq by (auto simp: Unbond_def stk_views split: if_splits)
  have s1: "stk c s1 (KSelf a) = stk c s (KSelf a) - x" "stk c s1 (KUnbondAmt a) = pend"
    "ucast (stk c s1 (KUnbondAt a)) = unlock"
    using ok assms(2) eq by (simp_all add: assms(4,5,7) Unbond_def stk_views)
  show ?thesis
    using ok(3) s1 assms(2,6) eq by (auto simp: Withdraw_def stk_views)
qed


section \<open>Slashing\<close>

lemma slash_accounts [simp]:
  "accountOf c (exec (slashSelf c a) s) = accountOf c s" "accountOf c (exec (slashDelegators c a) s) = accountOf c s"
  "accountOf c (exec (Jail c a) s) = accountOf c s" "sdSuicides (exec (slashSelf c a) s) = sdSuicides s"
  "sdSuicides (exec (slashDelegators c a) s) = sdSuicides s"
  by (simp_all add: slashSelf_def slashDelegators_def Jail_def Let_def stk_views)

lemma accountOf_SubBalance:
  "a \<notin> set (sdSuicides s) \<Longrightarrow> accountOf c (snd (SubBalance c s a v)) =
     (accountOf c s)(a := (accountOf c s a)\<lparr>aBalance := aBalance (accountOf c s a) - v\<rparr>)"
  by (auto simp: SubBalance_def case_prod_beta Let_def accountOf_def fun_eq_iff)

lemma accountOf_AddBalance:
  "a \<notin> set (sdSuicides s) \<Longrightarrow> accountOf c (snd (AddBalancePrev c s a v)) =
     (accountOf c s)(a := (accountOf c s a)\<lparr>aBalance := aBalance (accountOf c s a) + v\<rparr>)"
  by (auto simp: AddBalancePrev_def case_prod_beta Let_def accountOf_def fun_eq_iff)

lemma burnEscrow_effect:
  fixes c :: "('key, 'z) stateLib_scheme"
  assumes "StakingModuleAddr \<notin> set (sdSuicides s)"
  defines "bal \<equiv> \<lambda>t. aBalance (accountOf c t StakingModuleAddr)"
  shows "result (burnEscrow c x) s = min (bal s) x"
    "bal (exec (burnEscrow c x) s) = bal s - min (bal s) x"
proof -
  let ?t = "exec (State (\<lambda>s. GetBalance c s StakingModuleAddr)) s"
  have t: "sdSuicides ?t = sdSuicides s" by (simp add: exec_def)
  have sub: "accountOf c (exec (State (\<lambda>s. SubBalance c s StakingModuleAddr v)) u) StakingModuleAddr =
      (accountOf c u StakingModuleAddr)\<lparr>aBalance := aBalance (accountOf c u StakingModuleAddr) - v\<rparr>"
    if "sdSuicides u = sdSuicides s" for u v
    using assms(1) that by (simp add: exec_def accountOf_SubBalance)
  show "result (burnEscrow c x) s = min (bal s) x" "bal (exec (burnEscrow c x) s) = bal s - min (bal s) x"
    using sub [OF t] by (auto simp: burnEscrow_def bal_def Let_def min_def)
qed

lemma Jail_stk:
  assumes "slots_ok c A" "a \<in> A" "keyIn A k"
  shows "stk c (exec (Jail c a) s) k = (if k = KCand a then 0 else if k = KJailed a then 1 else stk c s k)"
  using assms(2,3) slot_eq [OF assms(1)] by (simp add: Jail_def)

text \<open>C18: slashing a validator that is not jailed burns the self-stake share and the delegators'
  share computed from the entries, capped by the module's balance, and returns exactly what left the
  balance; afterwards the validator is jailed, has no voting power, and a second slash returns zero
  and changes neither the module's entries nor its balance.\<close>

theorem slash_exact_once:
  assumes "slots_ok c A" "a \<in> A" "\<not> HasSelfDestructed s StakingModuleAddr" "stk c s (KJailed a) = 0"
    "s1 = exec (SlashAndJail c a) s"
    "burn = stk c s (KSelf a) * 10000 div 10000 + result (DelegatedTotal c a) s * 500 div 10000"
  shows "result (SlashAndJail c a) s = min (fst (GetBalance c s StakingModuleAddr)) burn \<and>
     fst (GetBalance c s1 StakingModuleAddr) =
       fst (GetBalance c s StakingModuleAddr) - result (SlashAndJail c a) s \<and>
     result (IsJailed c a) s1 \<and> result (VotingPower c a) s1 = 0 \<and>
     result (SlashAndJail c a) s1 = 0 \<and> stk c (exec (SlashAndJail c a) s1) = stk c s1 \<and>
     fst (GetBalance c (exec (SlashAndJail c a) s1) StakingModuleAddr) = fst (GetBalance c s1 StakingModuleAddr)"
proof -
  note eq = slot_eq [OF assms(1)]
  let ?r = "exec (rdSlot c (KJailed a)) s"
  let ?u = "exec (slashSelf c a) ?r"
  have self: "result (slashSelf c a) ?r = stk c s (KSelf a) * 10000 div 10000"
    using slashSelf_stk(2) [OF assms(1,2), of "KSelf a" ?r] assms(2) by simp
  have del: "result (slashDelegators c a) ?u = result (DelegatedTotal c a) s * 500 div 10000"
    using assms(2) slashSelf_stk(1) [OF assms(1,2)] by (simp add: slashDelegators_def Let_def slash_bps stk_views)
  have j: "stk c s1 (KJailed a) = 1" using SlashAndJail_stk [OF assms(1,2)] assms(2,4) by (simp add: assms(5))
  have live: "StakingModuleAddr \<notin> set (sdSuicides (exec (slashDelegators c a) ?u))"
    using assms(3) by (simp add: HasSelfDestructed_def)
  have res: "result (SlashAndJail c a) s = min (aBalance (accountOf c s StakingModuleAddr)) burn"
    "aBalance (accountOf c s1 StakingModuleAddr) =
       aBalance (accountOf c s StakingModuleAddr) - min (aBalance (accountOf c s StakingModuleAddr)) burn"
    using assms(4) burnEscrow_effect [OF live, of c burn]
    by (simp_all add: assms(5,6) SlashAndJail_def IsJailed_def self del)
  show ?thesis
    using res j by (simp add: accessor_views SlashAndJail_def VotingPower_def IsJailed_def)
qed

end
