(* ===== verification/StakingSet.thy ===== *)
theory StakingSet
  imports StakingProps
begin

text \<open>
  The proposer income split, the active set and its conversion into a validator set, and the
  witnesses of the staking properties on a concrete hash that is injective on the slots used.
\<close>

section \<open>Proposer income\<close>

lemma addBalanceM_effect:
  "a \<notin> set (sdSuicides s) \<Longrightarrow> accountOf c (exec (addBalanceM c a v) s) =
     (accountOf c s)(a := (accountOf c s a)\<lparr>aBalance := aBalance (accountOf c s a) + v\<rparr>)"
  "sdSuicides (exec (addBalanceM c a v) s) = sdSuicides s" "sdDb (exec (addBalanceM c a v) s) = sdDb s"
  by (simp_all add: exec_def addBalanceM_def accountOf_AddBalance)
    (simp_all add: AddBalancePrev_def case_prod_beta Let_def)

lemma view_accounts [simp]:
  "accountOf c (exec (SelfStake c a) s) = accountOf c s" "accountOf c (exec (DelegatedTotal c a) s) = accountOf c s"
  "accountOf c (exec (CommissionBps c a) s) = accountOf c s"
  "accountOf c (exec (DelegatedTotalShares c a) s) = accountOf c s"
  "accountOf c (exec (IncreaseRewardIndex c a x y) s) = accountOf c s"
  by (simp_all add: stk_views IncreaseRewardIndex_def Let_def)

lemma view_suicides [simp]:
  "sdSuicides (exec (SelfStake c a) s) = sdSuicides s" "sdSuicides (exec (DelegatedTotal c a) s) = sdSuicides s"
  "sdSuicides (exec (CommissionBps c a) s) = sdSuicides s"
  "sdSuicides (exec (DelegatedTotalShares c a) s) = sdSuicides s"
  "sdSuicides (exec (IncreaseRewardIndex c a x y) s) = sdSuicides s"
  by (simp_all add: stk_views IncreaseRewardIndex_def Let_def)

lemma view_db [simp]:
  "sdDb (exec (SelfStake c a) s) = sdDb s" "sdDb (exec (DelegatedTotal c a) s) = sdDb s"
  "sdDb (exec (CommissionBps c a) s) = sdDb s" "sdDb (exec (DelegatedTotalShares c a) s) = sdDb s"
  "sdDb (exec (IncreaseRewardIndex c a x y) s) = sdDb s"
  by (simp_all add: stk_views IncreaseRewardIndex_def Let_def)

text \<open>The state \<^verbatim>\<open>t\<close> is \<^verbatim>\<open>s\<close> with \<^verbatim>\<open>V\<close> credited to \<^verbatim>\<open>p\<close> and the rest of \<^verbatim>\<open>amount\<close> to the
  staking module, up to storage and bookkeeping.\<close>

definition split_of :: "('key, 'z) stateLib_scheme \<Rightarrow> StateDB \<Rightarrow> StateDB \<Rightarrow> address \<Rightarrow> u256 \<Rightarrow> u256 \<Rightarrow> bool" where
  "split_of c s t p amount V \<longleftrightarrow> sdSuicides t = sdSuicides s \<and> sdDb t = sdDb s \<and>
     (\<forall>a. accountOf c t a = (accountOf c s a)\<lparr>aBalance := aBalance (accountOf c s a) +
        (if a = p then V else 0) + (if a = StakingModuleAddr then amount - V else 0)\<rparr>)"

lemma pay_split:
  assumes "p \<notin> set (sdSuicides s)" "StakingModuleAddr \<notin> set (sdSuicides s)" "V \<le> amount"
  shows "\<exists>W \<le> amount. split_of c s (exec (payIncome c p amount V) s) p amount W"
proof -
  define t where "t = (if V \<noteq> 0 then exec (addBalanceM c p V) s else s)"
  have t: "accountOf c t a = (accountOf c s a)\<lparr>aBalance := aBalance (accountOf c s a) + (if a = p then V else 0)\<rparr>"
    "sdSuicides t = sdSuicides s" "sdDb t = sdDb s" for a
    using assms(1) by (auto simp: t_def addBalanceM_effect)
  consider "V = amount" | "V \<noteq> amount" "result (DelegatedTotalShares c p) t = 0"
    | "V \<noteq> amount" "result (DelegatedTotalShares c p) t \<noteq> 0" by blast
  then show ?thesis
  proof cases
    case 1
    then have "split_of c s (exec (payIncome c p amount V) s) p amount amount"
      using assms(1) by (auto simp: payIncome_def split_of_def addBalanceM_effect)
    then show ?thesis by blast
  next
    case 2
    then have "exec (payIncome c p amount V) s =
        exec (addBalanceM c p (amount - V)) (exec (DelegatedTotalShares c p) t)"
      by (auto simp: t_def payIncome_def Let_def split: if_splits)
    then have "split_of c s (exec (payIncome c p amount V) s) p amount amount"
      using assms(1) t by (simp add: split_of_def addBalanceM_effect)
    then show ?thesis by blast
  next
    case 3
    then have "exec (payIncome c p amount V) s = exec (IncreaseRewardIndex c p (amount - V)
         (result (DelegatedTotalShares c p) t))
        (exec (addBalanceM c StakingModuleAddr (amount - V)) (exec (DelegatedTotalShares c p) t))"
      by (auto simp: t_def payIncome_def Let_def split: if_splits)
    then have "split_of c s (exec (payIncome c p amount V) s) p amount V"
      using assms(2) t by (simp add: split_of_def addBalanceM_effect)
    then show ?thesis using assms(3) by blast
  qed
qed

lemma distribute_split:
  assumes "p \<notin> set (sdSuicides s)" "StakingModuleAddr \<notin> set (sdSuicides s)"
  shows "\<exists>V \<le> amount. split_of c s (exec (DistributeProposerIncome c p amount en) s) p amount V"
proof -
  let ?m = "DistributeProposerIncome c p amount en" and ?s2 = "exec (DelegatedTotal c p) (exec (SelfStake c p) s)"
  have all: "\<exists>V \<le> amount. split_of c s (exec (addBalanceM c p amount) u) p amount V"
    if "accountOf c u = accountOf c s" "sdSuicides u = sdSuicides s" "sdDb u = sdDb s" for u
    using that assms(1) by (intro exI [of _ amount]) (simp add: split_of_def addBalanceM_effect)
  show ?thesis
  proof (cases "amount = 0 \<or> \<not> en")
    case True
    then show ?thesis using all [of s]
      by (auto simp: DistributeProposerIncome_def split_of_def)
  next
    case False
    let ?P = "result (SelfStake c p) s + result (DelegatedTotal c p) (exec (SelfStake c p) s)"
    show ?thesis
    proof (cases "?P = 0")
      case True
      then have "exec ?m s = exec (addBalanceM c p amount) ?s2"
        using False by (simp add: DistributeProposerIncome_def)
      then show ?thesis using all [of ?s2] by simp
    next
      case nz: False
      have "\<exists>V \<le> amount. exec ?m s = exec (payIncome c p amount V) (exec (CommissionBps c p) ?s2)"
        using False nz by (simp add: DistributeProposerIncome_def Let_def) (metis linorder_le_less_linear order_refl)
      then obtain V where V: "V \<le> amount" "exec ?m s = exec (payIncome c p amount V) (exec (CommissionBps c p) ?s2)"
        by blast
      then show ?thesis
        using pay_split [of p "exec (CommissionBps c p) ?s2" V amount c] assms by (simp add: split_of_def)
    qed
  qed
qed

text \<open>C20: the proposer income is split without loss: for some part V of the amount, the proposer
  gets V, the staking module gets the rest, and no other balance changes.\<close>

theorem income_split_conserves:
  assumes "\<not> HasSelfDestructed s p" "\<not> HasSelfDestructed s StakingModuleAddr"
  shows "\<exists>V \<le> amount. \<forall>a. fst (GetBalance c (exec (DistributeProposerIncome c p amount en) s) a) =
     fst (GetBalance c s a) + (if a = p then V else 0) + (if a = StakingModuleAddr then amount - V else 0)"
  using distribute_split [of p s amount c en] assms
  by (auto simp: HasSelfDestructed_def accessor_views split_of_def)


section \<open>Active set\<close>

definition candKey :: "Candidate \<Rightarrow> int \<times> address" where
  "candKey x = (- uint (cdVotingPower x), cdAddress x)"

lemma stkBytesLess_lexord:
  "length xs = length ys \<Longrightarrow> stkBytesLess xs ys \<longleftrightarrow> (xs, ys) \<in> lexord {(x, y). x < y}"
  by (induction xs ys rule: stkBytesLess.induct) auto

lemma candLess_key: "candLess x y \<longleftrightarrow> candKey x < candKey y"
proof -
  have "uint (cdVotingPower x) = uint (cdVotingPower y) \<longleftrightarrow> cdVotingPower x = cdVotingPower y"
    by (simp add: word_uint_eq_iff)
  moreover have "uint (cdVotingPower y) < uint (cdVotingPower x) \<longleftrightarrow> cdVotingPower y < cdVotingPower x"
    by (simp add: word_less_def)
  ultimately show ?thesis
    by (auto simp: candLess_def candKey_def stkBytesLess_lexord addrBytes_lexord)
qed

lemma candSort_key: "candSort xs = sort_key candKey xs"
proof -
  have "candInsert x ys = insort_key candKey x ys" for x ys
    by (induction ys) (auto simp: candLess_key)
  then have "candInsert = insort_key candKey" by blast
  then show ?thesis by (simp add: candSort_def sort_key_def)
qed

lemma activeEntry_cong: "stk c t = stk c s \<Longrightarrow> result (activeEntry c cfg i) t = result (activeEntry c cfg i) s"
  by (simp add: activeEntry_def stk_views Let_def)

lemma activeEntry_stk [simp]: "stk c (exec (activeEntry c cfg i) s) = stk c s"
  by (simp add: activeEntry_def stk_views Let_def)

lemma activeLoop_result:
  "result (activeLoop c cfg is) s = List.map_filter (\<lambda>i. result (activeEntry c cfg i) s) is"
proof (induction "is" arbitrary: s)
  case (Cons i "is")
  have "result (activeEntry c cfg j) (exec (activeEntry c cfg i) s) = result (activeEntry c cfg j) s" for j
    by (rule activeEntry_cong) simp
  then show ?case using Cons.IH by (simp add: map_filter_simps split: option.split)
qed (simp add: map_filter_simps)

text \<open>The candidate list as it stands in storage, and what the active set reads of an address.\<close>

definition candidateList :: "('key, 'z) stateLib_scheme \<Rightarrow> StateDB \<Rightarrow> address list" where
  "candidateList c s = map (\<lambda>i. ucast (stk c s (KIdx (of_nat i)))) [0..<unat (ucast (stk c s KLen) :: u64)]"

definition candidateOf :: "('key, 'z) stateLib_scheme \<Rightarrow> StateDB \<Rightarrow> address \<Rightarrow> Candidate" where
  "candidateOf c s a = \<lparr>cdAddress = a, cdVotingPower = stk c s (KSelf a) + result (DelegatedTotal c a) s\<rparr>"

definition eligible :: "('key, 'z) stateLib_scheme \<Rightarrow> StakingConfig \<Rightarrow> StateDB \<Rightarrow> address \<Rightarrow> bool" where
  "eligible c cfg s a \<longleftrightarrow> a \<noteq> 0 \<and> stk c s (KCand a) \<noteq> 0 \<and> stk c s (KJailed a) = 0 \<and>
     MinSelfStake cfg \<le> stk c s (KSelf a) \<and> cdVotingPower (candidateOf c s a) \<noteq> 0"

definition eligibleEntries :: "('key, 'z) stateLib_scheme \<Rightarrow> StakingConfig \<Rightarrow> StateDB \<Rightarrow> Candidate list" where
  "eligibleEntries c cfg s = map (candidateOf c s) (filter (eligible c cfg s) (candidateList c s))"

lemma activeEntry_result:
  "result (activeEntry c cfg i) s =
     (if eligible c cfg s (ucast (stk c s (KIdx (of_nat i)))) then Some (candidateOf c s (ucast (stk c s (KIdx (of_nat i))))) else None)"
  by (auto simp: activeEntry_def stk_views Let_def eligible_def candidateOf_def)

lemma map_filter_eligible:
  "List.map_filter (\<lambda>i. if P (g i) then Some (h (g i)) else None) xs = map h (filter P (map g xs))"
  by (induction xs) (simp_all add: map_filter_simps)

lemma ActiveSet_result:
  "result (ActiveSet c cfg) s = take (unat (ActiveCap cfg)) (sort_key candKey (eligibleEntries c cfg s))"
proof -
  have cong: "result (activeEntry c cfg i) (exec (rdSlot c KLen) s) = result (activeEntry c cfg i) s" for i
    by (rule activeEntry_cong) simp
  have "result (activeLoop c cfg [0..<unat (ucast (stk c s KLen) :: u64)]) (exec (rdSlot c KLen) s) = eligibleEntries c cfg s"
    unfolding activeLoop_result cong unfolding activeEntry_result eligibleEntries_def candidateList_def
    by (rule map_filter_eligible)
  then show ?thesis by (simp add: ActiveSet_def candSort_key Let_def)
qed

lemma eligibleEntries_addresses:
  "map cdAddress (eligibleEntries c cfg s) = filter (eligible c cfg s) (candidateList c s)"
  by (simp add: eligibleEntries_def candidateOf_def comp_def)

text \<open>C19: the active set is the top of the eligible entries of the candidate list, counted with their
  multiplicity: together with the entries left out it is a rearrangement of the eligible entries, one for
  each position of the list, ordered by voting power and then address; it has as many of them as the cap
  allows; and each has the exact voting power of its address.  An address that stands twice on the list
  stands twice among the eligible entries; when the list has no duplicate, neither has the active set.\<close>

theorem active_set_top_k:
  "\<exists>rest. mset (result (ActiveSet c cfg) s @ rest) =
       mset (map (candidateOf c s) (filter (eligible c cfg s) (candidateList c s))) \<and>
     sorted_wrt (\<lambda>x y. cdVotingPower y < cdVotingPower x \<or>
       cdVotingPower x = cdVotingPower y \<and> cdAddress x \<le> cdAddress y) (result (ActiveSet c cfg) s @ rest) \<and>
     length (result (ActiveSet c cfg) s) =
       min (unat (ActiveCap cfg)) (length (filter (eligible c cfg s) (candidateList c s))) \<and>
     (distinct (candidateList c s) \<longrightarrow> distinct (map cdAddress (result (ActiveSet c cfg) s)))"
proof -
  let ?ys = "sort_key candKey (eligibleEntries c cfg s)" and ?l = "result (ActiveSet c cfg) s"
  have ys: "?l @ drop (unat (ActiveCap cfg)) ?ys = ?ys" by (simp add: ActiveSet_result)
  have key: "candKey x \<le> candKey y \<longleftrightarrow>
      cdVotingPower y < cdVotingPower x \<or> cdVotingPower x = cdVotingPower y \<and> cdAddress x \<le> cdAddress y" for x y
    by (auto simp: candKey_def word_less_def word_uint_eq_iff)
  have srt: "sorted_wrt (\<lambda>x y. cdVotingPower y < cdVotingPower x \<or>
      cdVotingPower x = cdVotingPower y \<and> cdAddress x \<le> cdAddress y) ?ys"
    using sorted_sort_key [of candKey "eligibleEntries c cfg s"] by (simp add: sorted_wrt_map key)
  have "distinct (map cdAddress ?l)" if "distinct (candidateList c s)"
  proof -
    have "mset (map cdAddress ?ys) = mset (filter (eligible c cfg s) (candidateList c s))"
      unfolding eligibleEntries_addresses [symmetric] by simp
    then have "distinct (map cdAddress ?ys)" using that by (metis distinct_filter mset_eq_imp_distinct_iff)
    then show ?thesis unfolding ActiveSet_result take_map [symmetric] by (rule distinct_take)
  qed
  then show ?thesis
    using srt by (intro exI [of _ "drop (unat (ActiveCap cfg)) ?ys"], unfold ys)
      (simp add: ActiveSet_result eligibleEntries_def min.commute)
qed


section \<open>Rotation into a validator set\<close>

text \<open>A list of candidates that becomes a validator set has no address twice.\<close>

lemma ActiveSetToValidatorSet_distinct:
  assumes "ActiveSetToValidatorSet l = Inr v" "\<forall>x\<in>set l. cdAddress x \<noteq> 0 \<and> cdVotingPower x \<noteq> 0"
  shows "distinct (map cdAddress l)"
proof -
  let ?f = "\<lambda>x. if cdAddress x = 0 \<or> cdVotingPower x = 0 \<or> powerFromU256 (cdVotingPower x) = 0 then []
            else [\<lparr>vAddress = cdAddress x, vPower = powerFromU256 (cdVotingPower x)\<rparr>]"
  have pow: "powerFromU256 p \<noteq> 0" if "p \<noteq> 0" for p
  proof (cases "unat p < 2 ^ 64")
    case True
    then have "unat (ucast p :: u64) = unat p" by (simp add: unsigned_ucast_eq take_bit_nat_eq_self)
    then have "(ucast p :: u64) \<noteq> 0" using that by (metis unat_eq_zero)
    then show ?thesis using that True by (simp add: powerFromU256_def)
  qed (use that in \<open>simp add: powerFromU256_def\<close>)
  have vals: "map vAddress (concat (map ?f l)) = map cdAddress l"
    using assms(2) pow by (induction l) auto
  obtain w where "NewValidatorSet (concat (map ?f l)) = Inr w"
    using assms(1) by (auto simp: ActiveSetToValidatorSet_def split: if_splits sum.splits)
  then obtain r where "nvsLoop (sort_key vAddress (concat (map ?f l))) 0 Map.empty 0 = Inr r"
    by (auto simp: NewValidatorSet_def Let_def split: if_splits sum.splits)
  from nvsLoop_InrD [OF this] have "distinct (map vAddress (concat (map ?f l)))" by simp
  then show ?thesis unfolding vals .
qed

text \<open>C22: an active set with two candidates of distinct addresses whose stake exceeds 64 bits (the
  default minimum self-stake of 10^23 wei does) cannot become a validator set: both powers saturate
  and their sum overflows.\<close>

theorem saturated_rotation_fails:
  assumes "x \<in> set l" "y \<in> set l" "cdAddress x \<noteq> cdAddress y" "cdAddress x \<noteq> 0" "cdAddress y \<noteq> 0"
    "2 ^ 64 \<le> unat (cdVotingPower x)" "2 ^ 64 \<le> unat (cdVotingPower y)"
  shows "\<exists>e. ActiveSetToValidatorSet l = Inl e"
proof (rule ccontr)
  let ?f = "\<lambda>x. if cdAddress x = 0 \<or> cdVotingPower x = 0 \<or> powerFromU256 (cdVotingPower x) = 0 then []
            else [\<lparr>vAddress = cdAddress x, vPower = powerFromU256 (cdVotingPower x)\<rparr>]"
  let ?vals = "concat (map ?f l)"
  assume "\<not> ?thesis"
  then obtain v where "NewValidatorSet ?vals = Inr v"
    using assms(1) by (auto simp: ActiveSetToValidatorSet_def split: if_splits sum.splits)
  then obtain r where "nvsLoop (sort_key vAddress ?vals) 0 Map.empty 0 = Inr r"
    by (auto simp: NewValidatorSet_def Let_def split: if_splits sum.splits)
  from nvsLoop_InrD [OF this] have dist: "distinct (map vAddress ?vals)" and sum: "powerSum ?vals < 2 ^ 64"
    by simp_all
  let ?v = "\<lambda>x. \<lparr>vAddress = cdAddress x, vPower = - 1 :: u64\<rparr>"
  have sat: "powerFromU256 (cdVotingPower z) = - 1" if "2 ^ 64 \<le> unat (cdVotingPower z)" for z
    using that by (auto simp: powerFromU256_def)
  have mem: "?v z \<in> set ?vals" if "z \<in> set l" "cdAddress z \<noteq> 0" "2 ^ 64 \<le> unat (cdVotingPower z)" for z
    using that sat [OF that(3)] by (auto intro!: bexI [of _ z])
  have "?v x \<in> set ?vals" "?v y \<in> set ?vals"
    using mem [OF assms(1,4,6)] mem [OF assms(2,5,7)] .
  then have "(\<Sum>z\<in>{?v x, ?v y}. unat (vPower z)) \<le> (\<Sum>z\<in>set ?vals. unat (vPower z))"
    by (intro sum_mono2) auto
  also have "\<dots> = powerSum ?vals"
    using dist by (simp add: powerSum_def sum_list_distinct_conv_sum_set distinct_map)
  finally show False using sum assms(3) by (simp add: unsigned_minus_1_eq_mask mask_eq_exp_minus_1)
qed


section \<open>A concrete hash without collisions on small participants\<close>

definition exHash :: "byte list \<Rightarrow> byte list" where
  "exHash b = (let n = length b in
     [of_nat n, b ! 13, b ! 14, b ! 16, (if n \<ge> 21 then b ! (n - 21) else 0)] @ drop (n - 8) b)"

definition exStake :: "address stateLib" where "exStake = exLib\<lparr>keccak := exHash\<rparr>"

definition exPeople :: "address set" where "exPeople = {a. unat a < 256}"

lemma small_addrBytes: "a \<in> exPeople \<Longrightarrow> addrBytes a = replicate 19 0 @ [ucast a]"
  using beBytes_pad [of "unat a" 1 19] by (simp add: exPeople_def addrBytes_def)

lemma small_inj: "a \<in> exPeople \<Longrightarrow> b \<in> exPeople \<Longrightarrow> (ucast a :: byte) = ucast b \<longleftrightarrow> a = b"
proof -
  assume ab: "a \<in> exPeople" "b \<in> exPeople"
  have "unat (ucast x :: byte) = unat x" if "x \<in> exPeople" for x :: address
    using that by (simp add: exPeople_def unsigned_ucast_eq take_bit_nat_eq_self)
  with ab show ?thesis by (metis word_unat_eq_iff)
qed

lemma BytesToHash_inj:
  assumes "length xs = length ys" "length xs \<le> 32" "BytesToHash xs = BytesToHash ys"
  shows "xs = ys"
proof -
  have "beNat zs < 2 ^ 256" if "length zs \<le> 32" for zs
  proof -
    have "beNat zs < 256 ^ length zs" by (rule beNat_less)
    also have "\<dots> \<le> 256 ^ 32" using that by (intro power_increasing) auto
    finally show ?thesis by simp
  qed
  then have "unat (of_nat (beNat zs) :: hash) = beNat zs" if "length zs \<le> 32" for zs
    using that by (simp add: unat_of_nat)
  then have "beNat xs = beNat ys" using assms by (simp add: BytesToHash_def) metis
  then show ?thesis by (rule beNat_inj [OF assms(1)])
qed


lemma exHash_length: "length (exHash (stakePreimage k)) = 13"
  by (cases k) (simp_all add: exHash_def Let_def)

lemma exHash_tag:
  assumes "exHash (stakePreimage k) = exHash (stakePreimage k')"
  shows "keyTag k = keyTag k'"
proof -
  have n: "(of_nat (fst (keyTag k)) :: byte) = of_nat (fst (keyTag k'))"
    "fst (snd (keyTag k)) = fst (snd (keyTag k'))" "fst (snd (snd (keyTag k))) = fst (snd (snd (keyTag k')))"
    "stakePreimage k ! 16 = stakePreimage k' ! 16"
    using assms by (simp_all add: exHash_def Let_def preimage_tag)
  have "fst (keyTag j) < 256" for j by (cases j) simp_all
  then have len: "fst (keyTag k) = fst (keyTag k')" using n(1) by (metis unat_of_nat_byte mod_less)
  show ?thesis
  proof (cases "fst (keyTag k) = 56")
    case True
    then show ?thesis using len by (cases k; cases k'; simp)
  next
    case False
    then show ?thesis using len n preimage_tag16 [of k] preimage_tag16 [of k'] by (simp add: prod_eq_iff)
  qed
qed

lemma exHash_inj:
  assumes "keyIn exPeople k" "keyIn exPeople k'" "exHash (stakePreimage k) = exHash (stakePreimage k')"
  shows "k = k'"
  using assms exHash_tag [OF assms(3)]
  by (cases k; cases k'; simp) (simp_all add: exHash_def small_addrBytes small_inj nth_append)

lemma exStake_slots_ok: "slots_ok exStake exPeople"
proof -
  have "stakeSlot exStake k = BytesToHash (exHash (stakePreimage k))" for k
    by (simp add: stakeSlot_def slotHash_def exStake_def)
  then show ?thesis
    by (auto simp: slots_ok_def inj_on_def exHash_length intro!: exHash_inj dest: BytesToHash_inj [rotated -1])
qed

end
