(* ===== verification/StakingRun.thy ===== *)
theory StakingRun
  imports StakingSet
begin

text \<open>
  Runs of the staking module on a concrete hash: the witnesses of its properties, and a candidate
  that registers twice.
\<close>

definition exCfg :: StakingConfig where
  "exCfg = \<lparr>MinSelfStake = 5, ActiveCap = 2, EpochLength = 10, UnbondSeconds = 100\<rparr>"

lemma exPeople_members [simp]: "11 \<in> exPeople" "12 \<in> exPeople"
  by (simp_all add: exPeople_def)

lemmas ex_slot = slot_eq [OF exStake_slots_ok]

lemmas stake_eval = Bond_def registerCandidate_def Unbond_def stk_views Let_def ex_slot

lemma New_stk [simp]: "stk c (New []) k = 0"
  by (simp add: stk_def slotOf_def New_def)

lemma SetBalance_stk [simp]: "stk c (SetBalance c s a v) = stk c s"
  by (simp add: stk_def fun_eq_iff SetBalance_def case_prod_beta)


section \<open>Registering twice\<close>

lemma candidateList_cong:
  assumes "stk c t KLen = stk c s KLen" "\<And>i. stk c t (KIdx i) = stk c s (KIdx i)"
  shows "candidateList c t = candidateList c s"
  by (simp add: candidateList_def assms)

text \<open>Unbonding below the minimum clears the candidate flag and leaves the list as it is.\<close>

lemma unbond_keeps_list:
  assumes "slots_ok c A" "a \<in> A" "result (Unbond c cfg a x now) s = Inr ()" "stk c s (KSelf a) - x < MinSelfStake cfg"
  defines "t \<equiv> exec (Unbond c cfg a x now) s"
  shows "stk c t (KCand a) = 0" "stk c t (KJailed a) = 0" "candidateList c t = candidateList c s"
proof -
  have ok: "x \<noteq> 0" "stk c s (KJailed a) = 0" "\<not> stk c s (KSelf a) < x"
    using assms(3) by (auto simp: Unbond_def stk_views Let_def split: if_splits)
  note eval = t_def Unbond_def stk_views Let_def slot_eq [OF assms(1)] assms(2) ok assms(4)
  show "stk c t (KCand a) = 0" "stk c t (KJailed a) = 0" by (simp_all add: eval)
  show "candidateList c t = candidateList c s" by (rule candidateList_cong) (simp_all add: eval)
qed

text \<open>Bonding back above the minimum appends the address to the list.\<close>

lemma bond_appends:
  assumes "slots_ok c A" "a \<in> A" "stk c s (KCand a) = 0" "y \<noteq> 0" "MinSelfStake cfg \<le> stk c s (KSelf a) + y"
    "length (candidateList c s) < 2 ^ 64 - 1"
  defines "t \<equiv> exec (Bond c cfg a y) s"
  shows "stk c t (KCand a) = 1" "stk c t (KSelf a) = stk c s (KSelf a) + y" "stk c t (KJailed a) = stk c s (KJailed a)"
    "candidateList c t = candidateList c s @ [a]"
proof -
  note eval = t_def Bond_def registerCandidate_def stk_views Let_def slot_eq [OF assms(1)] assms(2-5)
  show "stk c t (KCand a) = 1" "stk c t (KSelf a) = stk c s (KSelf a) + y" "stk c t (KJailed a) = stk c s (KJailed a)"
    by (simp_all add: eval)
  let ?n = "ucast (stk c s KLen) :: u64"
  have n: "unat ?n < 2 ^ 64 - 1" using assms(6) by (simp add: candidateList_def)
  then have suc: "unat (?n + 1) = Suc (unat ?n)" by (subst unat_plus_exact) simp_all
  have len: "ucast (stk c t KLen) = ?n + 1" by (simp add: eval)
  have idx: "stk c t (KIdx i) = (if i = ?n then ucast a else stk c s (KIdx i))" for i by (simp add: eval)
  have rt: "ucast (ucast a :: u256) = a" by (rule bit_word_eqI) (simp add: bit_ucast_iff)
  have old: "of_nat i \<noteq> ?n" if "i < unat ?n" for i
  proof -
    have "unat (of_nat i :: u64) = i" using that n by (simp add: unsigned_of_nat take_bit_nat_eq_self)
    then show ?thesis using that by auto
  qed
  show "candidateList c t = candidateList c s @ [a]"
    unfolding candidateList_def len suc by (simp add: idx old rt)
qed

lemma duplicate_in_active_set:
  assumes "\<not> distinct (filter (eligible c cfg s) (candidateList c s))" "length (candidateList c s) \<le> unat (ActiveCap cfg)"
  shows "\<exists>e. ActiveSetToValidatorSet (result (ActiveSet c cfg) s) = Inl e"
proof (rule ccontr)
  let ?l = "result (ActiveSet c cfg) s"
  assume "\<not> ?thesis"
  then obtain v where v: "ActiveSetToValidatorSet ?l = Inr v" by (cases "ActiveSetToValidatorSet ?l") auto
  have "length (eligibleEntries c cfg s) \<le> unat (ActiveCap cfg)"
    using assms(2) by (simp add: eligibleEntries_def) (meson le_trans length_filter_le)
  then have l: "?l = sort_key candKey (eligibleEntries c cfg s)" by (simp add: ActiveSet_result)
  have "\<forall>x\<in>set ?l. cdAddress x \<noteq> 0 \<and> cdVotingPower x \<noteq> 0"
    by (auto simp: l eligibleEntries_def eligible_def candidateOf_def)
  with v have "distinct (map cdAddress ?l)" by (rule ActiveSetToValidatorSet_distinct)
  moreover have "mset (map cdAddress ?l) = mset (filter (eligible c cfg s) (candidateList c s))"
    unfolding l eligibleEntries_addresses [symmetric] by simp
  ultimately show False using assms(1) by (metis mset_eq_imp_distinct_iff)
qed

text \<open>C23: an address on the candidate list that unbonds below the minimum self-stake and then bonds back to
  it is appended to the list again, so it stands there twice.  If its voting power is not 0 and the list fits
  the cap of the active set, the active set cannot become a validator set.\<close>

theorem rebond_duplicates_candidate:
  assumes "slots_ok c A" "a \<in> A" "a \<noteq> 0" "a \<in> set (candidateList c s)" "length (candidateList c s) < 2 ^ 64 - 1"
    "result (Unbond c cfg a x now) s = Inr ()" "stk c s (KSelf a) - x < MinSelfStake cfg"
    "s1 = exec (Unbond c cfg a x now) s" "y \<noteq> 0" "MinSelfStake cfg \<le> stk c s1 (KSelf a) + y"
    "s2 = exec (Bond c cfg a y) s1"
  shows "candidateList c s2 = candidateList c s @ [a] \<and> count_list (candidateList c s2) a \<ge> 2 \<and>
    (result (VotingPower c a) s2 \<noteq> 0 \<and> length (candidateList c s2) \<le> unat (ActiveCap cfg) \<longrightarrow>
      (\<exists>e. ActiveSetToValidatorSet (result (ActiveSet c cfg) s2) = Inl e))"
proof -
  note un = unbond_keeps_list [OF assms(1,2,6,7), folded assms(8)]
  have "length (candidateList c s1) < 2 ^ 64 - 1" using assms(5) by (simp add: un(3))
  note bo = bond_appends [OF assms(1,2) un(1) assms(9,10) this, folded assms(11)]
  have list: "candidateList c s2 = candidateList c s @ [a]" by (simp add: bo(4) un(3))
  have "result (VotingPower c a) s2 = cdVotingPower (candidateOf c s2 a)"
    using bo(1,3) un(2) by (simp add: candidateOf_def stk_views)
  then have "eligible c cfg s2 a" if "result (VotingPower c a) s2 \<noteq> 0"
    using that assms(3,10) bo(1-3) un(2) by (simp add: eligible_def)
  then have "\<not> distinct (filter (eligible c cfg s2) (candidateList c s2))" if "result (VotingPower c a) s2 \<noteq> 0"
    using that assms(4) by (simp add: list)
  moreover have "count_list (candidateList c s) a \<noteq> 0" using assms(4) by (simp add: count_list_0_iff)
  ultimately show ?thesis
    using duplicate_in_active_set [of c cfg s2] by (simp add: list)
qed

definition exOnce :: StateDB where "exOnce = exec (Bond exStake exCfg 11 10) (New [])"

lemma exOnce_stk:
  "keyIn exPeople k \<Longrightarrow> stk exStake exOnce k = (if k = KLen then 1 else if k = KIdx 0 then 11
     else if k = KCand 11 then 1 else if k = KSelf 11 then 10 else 0)"
  by (simp add: exOnce_def stake_eval exCfg_def)

theorem rebond_duplicates_candidate_witness:
  "candidateList exStake (exec (Bond exStake exCfg 11 10) (exec (Unbond exStake exCfg 11 10 0) exOnce)) = [11, 11] \<and>
   (\<exists>e. ActiveSetToValidatorSet (result (ActiveSet exStake exCfg)
      (exec (Bond exStake exCfg 11 10) (exec (Unbond exStake exCfg 11 10 0) exOnce))) = Inl e)"
proof -
  let ?s1 = "exec (Unbond exStake exCfg 11 10 0) exOnce" and ?s2 = "exec (Bond exStake exCfg 11 10) (exec (Unbond exStake exCfg 11 10 0) exOnce)"
  have one: "candidateList exStake exOnce = [11]" by (simp add: candidateList_def exOnce_stk)
  have eval: "result (Unbond exStake exCfg 11 10 0) exOnce = Inr ()" "stk exStake ?s1 (KSelf 11) = 0"
    "result (VotingPower exStake 11) ?s2 \<noteq> 0"
    by (simp_all add: stake_eval exOnce_stk exCfg_def)
  have "candidateList exStake ?s2 = candidateList exStake exOnce @ [11] \<and> count_list (candidateList exStake ?s2) 11 \<ge> 2 \<and>
    (result (VotingPower exStake 11) ?s2 \<noteq> 0 \<and> length (candidateList exStake ?s2) \<le> unat (ActiveCap exCfg) \<longrightarrow>
      (\<exists>e. ActiveSetToValidatorSet (result (ActiveSet exStake exCfg) ?s2) = Inl e))"
    by (rule rebond_duplicates_candidate [OF exStake_slots_ok])
      (use one eval in \<open>simp_all add: exOnce_stk exCfg_def\<close>)
  then show ?thesis using eval(3) by (simp add: one exCfg_def)
qed


section \<open>Witnesses\<close>

definition exBonded :: StateDB where
  "exBonded = fold (stakeExec exStake exCfg) [SBond 11 100, SBond 12 60] (SetBalance exStake (New []) StakingModuleAddr 1000)"

lemma exBonded_stk:
  "keyIn exPeople k \<Longrightarrow> stk exStake exBonded k =
     (if k = KLen then 2 else if k = KIdx 0 then 11 else if k = KIdx 1 then 12
      else if k = KCand 11 \<or> k = KCand 12 then 1
      else if k = KSelf 11 then 100 else if k = KSelf 12 then 60 else 0)"
  by (simp add: exBonded_def stake_eval exCfg_def)

theorem self_stake_conserved_witness:
  "selfClaim exStake (fold (stakeExec exStake exCfg) [SUnbond 11 40 7, SWithdraw 11 200] exBonded) 11 =
     selfClaim exStake exBonded 11 + selfFlows exStake exCfg 11 [SUnbond 11 40 7, SWithdraw 11 200] exBonded \<and>
   selfFlows exStake exCfg 11 [SUnbond 11 40 7, SWithdraw 11 200] exBonded = - 40"
proof
  show "selfClaim exStake (fold (stakeExec exStake exCfg) [SUnbond 11 40 7, SWithdraw 11 200] exBonded) 11 =
     selfClaim exStake exBonded 11 + selfFlows exStake exCfg 11 [SUnbond 11 40 7, SWithdraw 11 200] exBonded"
    by (rule self_stake_conserved [OF exStake_slots_ok]) simp_all
  show "selfFlows exStake exCfg 11 [SUnbond 11 40 7, SWithdraw 11 200] exBonded = - 40"
    by (simp add: stake_eval Withdraw_def exBonded_stk exCfg_def max_def)
qed

lemma exBonded_shares: "\<forall>v\<in>exPeople. shares_exact exStake exPeople v exBonded"
  by (simp add: shares_exact_def exBonded_stk)


theorem delegation_shares_add_up_witness:
  "unat (stk exStake (fold (stakeExec exStake exCfg) [SDelegate 11 12 50, SCommission 11 300] exBonded) (KDelTot 11)) =
     (\<Sum>e\<in>exPeople. unat (stk exStake
        (fold (stakeExec exStake exCfg) [SDelegate 11 12 50, SCommission 11 300] exBonded) (KDel 11 e))) \<and>
   stk exStake (fold (stakeExec exStake exCfg) [SDelegate 11 12 50, SCommission 11 300] exBonded) (KDelTot 11) = 50"
proof -
  have shares: "50 * stakePrecision div stakePrecision = (50 :: u256)"
    by (simp add: stakePrecision_def StakeRatePrecision_def)
  have del: "stk exStake (exec (Delegate exStake 11 12 50) exBonded) (KDelTot 11) = 50"
    by (simp add: Delegate_def settleRewards_def stk_views ex_slot exBonded_stk shares)
  then have "noWraps exStake exCfg [SDelegate 11 12 50, SCommission 11 300] exBonded"
    by (simp add: exBonded_stk)
  moreover have "stk exStake (fold (stakeExec exStake exCfg) [SDelegate 11 12 50, SCommission 11 300] exBonded)
      (KDelTot 11) = 50" using del by (simp add: SetCommission_def ex_slot)
  ultimately show ?thesis
    using delegation_shares_add_up [OF exStake_slots_ok _ exBonded_shares,
        of "[SDelegate 11 12 50, SCommission 11 300]" exCfg 11 12] by simp
qed

theorem unbond_then_withdraw_witness:
  "result (Withdraw exStake 11 106) (exec (Unbond exStake exCfg 11 40 7) exBonded) = Inl UnbondNotElapsed \<and>
   result (Withdraw exStake 11 107) (exec (Unbond exStake exCfg 11 40 7) exBonded) = Inr 40"
proof -
  have "result (Unbond exStake exCfg 11 40 7) exBonded = Inr ()"
    by (simp add: Unbond_def stk_views ex_slot exBonded_stk)
  moreover have "stk exStake exBonded (KUnbondAmt 11) = 0" "stk exStake exBonded (KUnbondAt 11) = 0"
    by (simp_all add: exBonded_stk)
  ultimately show ?thesis
    using unbond_then_withdraw [OF exStake_slots_ok, of 11 exCfg 40 7 exBonded _ 40 107 106]
      unbond_then_withdraw [OF exStake_slots_ok, of 11 exCfg 40 7 exBonded _ 40 107 107]
    by (simp add: exCfg_def max_def)
qed

lemma exBonded_accounts:
  "sdSuicides exBonded = []" "aBalance (accountOf exStake exBonded StakingModuleAddr) = 1000"
proof -
  have acc: "accountOf c (exec (Bond c cfg a x) s) = accountOf c s" "sdSuicides (exec (Bond c cfg a x) s) = sdSuicides s"
    for c :: "('key, 'z) stateLib_scheme" and cfg a x s
    by (simp_all add: Bond_def registerCandidate_def stk_views)
  show "sdSuicides exBonded = []" "aBalance (accountOf exStake exBonded StakingModuleAddr) = 1000"
    by (simp_all add: exBonded_def acc SetBalance_def case_prod_beta New_def accountOf_def)
qed

theorem slash_exact_once_witness:
  "result (SlashAndJail exStake 11) exBonded = 100 \<and>
   fst (GetBalance exStake (exec (SlashAndJail exStake 11) exBonded) StakingModuleAddr) = 900 \<and>
   result (VotingPower exStake 11) (exec (SlashAndJail exStake 11) exBonded) = 0"
proof -
  have "result (DelegatedTotal exStake 11) exBonded = 0" by (simp add: stk_views exBonded_stk)
  then show ?thesis
    using slash_exact_once [OF exStake_slots_ok, of 11 exBonded _ 100] exBonded_accounts
    by (simp add: min_def HasSelfDestructed_def exBonded_stk accessor_views)
qed

theorem income_split_conserves_witness:
  "\<exists>V \<le> 10. fst (GetBalance exStake (exec (DistributeProposerIncome exStake 11 10 True) exBonded) 11) =
     fst (GetBalance exStake exBonded 11) + V"
proof -
  have "\<not> HasSelfDestructed exBonded a" for a by (simp add: HasSelfDestructed_def exBonded_accounts)
  from income_split_conserves [OF this this, of 10 exStake 11 True] show ?thesis
    by (force simp: StakingModuleAddr_def)
qed

theorem active_set_top_k_witness:
  "result (ActiveSet exStake exCfg) exBonded =
     [\<lparr>cdAddress = 11, cdVotingPower = 100\<rparr>, \<lparr>cdAddress = 12, cdVotingPower = 60\<rparr>] \<and>
   distinct (map cdAddress (result (ActiveSet exStake exCfg) exBonded))"
proof -
  have two: "[0..<unat (2 :: u64)] = [0, 1]" by (simp add: upt_rec)
  then have "result (ActiveSet exStake exCfg) exBonded =
      [\<lparr>cdAddress = 11, cdVotingPower = 100\<rparr>, \<lparr>cdAddress = 12, cdVotingPower = 60\<rparr>]"
    by (simp add: ActiveSet_def activeEntry_def exBonded_stk stk_views Let_def exCfg_def candSort_def candLess_def
        activeLoop_result map_filter_simps)
  moreover have "distinct (candidateList exStake exBonded)" by (simp add: candidateList_def exBonded_stk upt_rec)
  ultimately show ?thesis using active_set_top_k [of exStake exCfg exBonded] by blast
qed

theorem saturated_rotation_fails_witness:
  "\<exists>e. ActiveSetToValidatorSet [\<lparr>cdAddress = 11, cdVotingPower = MinValidatorStakeWei\<rparr>,
     \<lparr>cdAddress = 12, cdVotingPower = MinValidatorStakeWei\<rparr>] = Inl e"
  by (rule saturated_rotation_fails [of "\<lparr>cdAddress = 11, cdVotingPower = MinValidatorStakeWei\<rparr>" _
        "\<lparr>cdAddress = 12, cdVotingPower = MinValidatorStakeWei\<rparr>"]) (simp_all add: MinValidatorStakeWei_def)

end
