(* ===== verification/Orderbook.thy ===== *)
theory Orderbook
  imports StakingOps
begin

text \<open>
  The native order book of \<^verbatim>\<open>src/core/native/orderbook.go\<close>: resting limit orders, per-maker open
  counts and escrow accounts, and the open-order index per token and side, kept in storage slots of
  the account \<^verbatim>\<open>0x101\<close>.  As in theory Staking, operations run in the state monad and keep the
  writes made before a failure.
\<close>

section \<open>Slots\<close>

definition OrderbookModuleAddr :: address where "OrderbookModuleAddr = 0x101"

definition OrderSideBuy :: byte where "OrderSideBuy = 0"
definition OrderSideSell :: byte where "OrderSideSell = 1"
definition OrderStatusOpen :: byte where "OrderStatusOpen = 0"
definition OrderStatusFilled :: byte where "OrderStatusFilled = 1"
definition OrderStatusCancelled :: byte where "OrderStatusCancelled = 2"

definition obDomainNextID :: string where "obDomainNextID = ''dew/ob/v1/nextId''"
definition obDomainOrder :: string where "obDomainOrder = ''dew/ob/v1/order''"
definition obDomainOpenCount :: string where "obDomainOpenCount = ''dew/ob/v1/openCount''"
definition obDomainEscrowQ :: string where "obDomainEscrowQ = ''dew/ob/v1/escrowQ''"
definition obDomainEscrowB :: string where "obDomainEscrowB = ''dew/ob/v1/escrowB''"
definition obDomainOpenLen :: string where "obDomainOpenLen = ''dew/ob/v1/openLen''"
definition obDomainOpenAt :: string where "obDomainOpenAt = ''dew/ob/v1/openAt''"

definition obFieldHdr :: byte where "obFieldHdr = 0"
definition obFieldToken :: byte where "obFieldToken = 1"
definition obFieldPrice :: byte where "obFieldPrice = 2"
definition obFieldOpen :: byte where "obFieldOpen = 3"
definition obFieldOrig :: byte where "obFieldOrig = 4"

datatype obKey =
    BNextID | BOrder u64 byte | BOpenCount address | BEscrowQ address | BEscrowB address address
  | BOpenLen address byte | BOpenAt address byte u64

fun obPreimage :: "obKey \<Rightarrow> byte list" where
  "obPreimage BNextID = strBytes obDomainNextID"
| "obPreimage (BOrder i f) = strBytes obDomainOrder @ putU64 i @ [f]"
| "obPreimage (BOpenCount a) = strBytes obDomainOpenCount @ addrBytes a"
| "obPreimage (BEscrowQ a) = strBytes obDomainEscrowQ @ addrBytes a"
| "obPreimage (BEscrowB a t) = strBytes obDomainEscrowB @ addrBytes a @ addrBytes t"
| "obPreimage (BOpenLen t sd) = strBytes obDomainOpenLen @ addrBytes t @ [sd]"
| "obPreimage (BOpenAt t sd i) = strBytes obDomainOpenAt @ addrBytes t @ [sd] @ putU64 i"

definition obSlot :: "('key, 'z) cryptoLib_scheme \<Rightarrow> obKey \<Rightarrow> hash" where
  "obSlot c k = BytesToHash (keccak c (obPreimage k))"

definition getU256 :: "('key, 'z) stateLib_scheme \<Rightarrow> obKey \<Rightarrow> u256 stk" where
  "getU256 c k = State (\<lambda>s. (case GetState s OrderbookModuleAddr (obSlot c k) of (h, s1) \<Rightarrow> (hashToU256 h, s1)))"

definition setU256 :: "('key, 'z) stateLib_scheme \<Rightarrow> obKey \<Rightarrow> u256 \<Rightarrow> unit stk" where
  "setU256 c k v = State (\<lambda>s. ((), SetState c s OrderbookModuleAddr (obSlot c k) (u256ToHash v)))"


section \<open>Orders and quotes\<close>

record Order =
  oID :: u64
  oMaker :: address
  oBaseToken :: address
  oSide :: byte
  oPriceX18 :: u256
  oBaseOpen :: u256
  oBaseOrig :: u256
  oCreatedAt :: u64
  oStatus :: byte

record Refund =
  rQuote :: u256
  rBase :: u256
  rToken :: address
  rSide :: byte

datatype obError =
    ZeroMaker | ZeroPrice | ZeroBaseAmount | MaxOpenOrders | ZeroBaseToken | ZeroQuoteLock | OrderNotFound
  | OrderNotOpen | NotMaker | EscrowQuoteUnderflow | EscrowBaseUnderflow | ZeroTaker | ZeroFill

text \<open>Products and quotients are computed on unbounded integers and then truncated to 256 bits.\<close>

definition QuoteFloor :: "u256 \<Rightarrow> u256 \<Rightarrow> u256" where
  "QuoteFloor base price = (if base = 0 \<or> price = 0 then 0
     else word_of_int (uint base * uint price div 10 ^ 18))"

definition QuoteLockCeil :: "u256 \<Rightarrow> u256 \<Rightarrow> u256" where
  "QuoteLockCeil base price = (if base = 0 \<or> price = 0 then 0
     else word_of_int ((uint base * uint price + (10 ^ 18 - 1)) div 10 ^ 18))"

definition OrderbookMaxOpenPerMaker :: u64 where "OrderbookMaxOpenPerMaker = 64"

abbreviation obOk :: "'a \<Rightarrow> (obError + 'a) stk" where "obOk x \<equiv> State_Monad.return (Inr x)"
abbreviation obFail :: "obError \<Rightarrow> (obError + 'a) stk" where "obFail e \<equiv> State_Monad.return (Inl e)"

definition OpenCount :: "('key, 'z) stateLib_scheme \<Rightarrow> address \<Rightarrow> u64 stk" where
  "OpenCount c maker = do { n \<leftarrow> getU256 c (BOpenCount maker); State_Monad.return (ucast n) }"

definition EscrowQuote :: "('key, 'z) stateLib_scheme \<Rightarrow> address \<Rightarrow> u256 stk" where
  "EscrowQuote c maker = getU256 c (BEscrowQ maker)"

definition EscrowBase :: "('key, 'z) stateLib_scheme \<Rightarrow> address \<Rightarrow> address \<Rightarrow> u256 stk" where
  "EscrowBase c maker token = getU256 c (BEscrowB maker token)"

definition nextOrderID :: "('key, 'z) stateLib_scheme \<Rightarrow> u64 stk" where
  "nextOrderID c = do {
     cur \<leftarrow> getU256 c BNextID;
     let nxt = (ucast cur + 1 :: u64);
     setU256 c BNextID (ucast nxt);
     State_Monad.return nxt }"

definition packHdr :: "Order \<Rightarrow> hash" where
  "packHdr ord = BytesToHash (addrBytes (oMaker ord) @ [oSide ord, oStatus ord, 0, 0] @ putU64 (oCreatedAt ord))"

definition writeOrder :: "('key, 'z) stateLib_scheme \<Rightarrow> Order \<Rightarrow> unit stk" where
  "writeOrder c ord = do {
     setU256 c (BOrder (oID ord) obFieldHdr) (packHdr ord);
     setU256 c (BOrder (oID ord) obFieldToken) (ucast (oBaseToken ord));
     setU256 c (BOrder (oID ord) obFieldPrice) (oPriceX18 ord);
     setU256 c (BOrder (oID ord) obFieldOpen) (oBaseOpen ord);
     setU256 c (BOrder (oID ord) obFieldOrig) (oBaseOrig ord) }"

definition unpackOrder :: "u64 \<Rightarrow> hash \<Rightarrow> hash \<Rightarrow> u256 \<Rightarrow> u256 \<Rightarrow> u256 \<Rightarrow> Order" where
  "unpackOrder i hdr tok price opn orig = (let b = hashBytes hdr in
     \<lparr>oID = i, oMaker = bytesAddr (take 20 b), oBaseToken = ucast tok, oSide = b ! 20, oPriceX18 = price,
      oBaseOpen = opn, oBaseOrig = orig, oCreatedAt = getU64 (drop 24 b), oStatus = b ! 21\<rparr>)"

definition GetOrder :: "('key, 'z) stateLib_scheme \<Rightarrow> u64 \<Rightarrow> Order option stk" where
  "GetOrder c i = (if i = 0 then State_Monad.return None else do {
     nxt \<leftarrow> getU256 c BNextID;
     if i > ucast nxt then State_Monad.return None else do {
       hdr \<leftarrow> getU256 c (BOrder i obFieldHdr);
       tok \<leftarrow> getU256 c (BOrder i obFieldToken);
       price \<leftarrow> getU256 c (BOrder i obFieldPrice);
       opn \<leftarrow> getU256 c (BOrder i obFieldOpen);
       orig \<leftarrow> getU256 c (BOrder i obFieldOrig);
       let ord = unpackOrder i hdr tok price opn orig;
       State_Monad.return (if orig = 0 \<and> opn = 0 \<and> price = 0 \<and> oMaker ord = 0 then None else Some ord) } })"


section \<open>Index, counts and escrow\<close>

definition addOpenIndex :: "('key, 'z) stateLib_scheme \<Rightarrow> address \<Rightarrow> byte \<Rightarrow> u64 \<Rightarrow> unit stk" where
  "addOpenIndex c token side i = do {
     n \<leftarrow> getU256 c (BOpenLen token side);
     setU256 c (BOpenAt token side (ucast n)) (ucast i);
     setU256 c (BOpenLen token side) (ucast (ucast n + 1 :: u64)) }"

text \<open>The scan of \<^verbatim>\<open>removeOpenIndex\<close> over the remaining indices.\<close>

fun removeScan :: "('key, 'z) stateLib_scheme \<Rightarrow> address \<Rightarrow> byte \<Rightarrow> u64 \<Rightarrow> u64 \<Rightarrow> nat list \<Rightarrow> unit stk" where
  "removeScan c token side i n [] = State_Monad.return ()"
| "removeScan c token side i n (j # js) = do {
     v \<leftarrow> getU256 c (BOpenAt token side (of_nat j));
     if (ucast v :: u64) = i then do {
       (if of_nat j \<noteq> n - 1 then do {
          lst \<leftarrow> getU256 c (BOpenAt token side (n - 1));
          setU256 c (BOpenAt token side (of_nat j)) lst
        } else State_Monad.return ());
       setU256 c (BOpenAt token side (n - 1)) 0;
       setU256 c (BOpenLen token side) (ucast (n - 1))
     } else removeScan c token side i n js }"

definition removeOpenIndex :: "('key, 'z) stateLib_scheme \<Rightarrow> address \<Rightarrow> byte \<Rightarrow> u64 \<Rightarrow> unit stk" where
  "removeOpenIndex c token side i = do {
     n \<leftarrow> getU256 c (BOpenLen token side);
     removeScan c token side i (ucast n) [0..<unat (ucast n :: u64)] }"

definition incOpenCount :: "('key, 'z) stateLib_scheme \<Rightarrow> address \<Rightarrow> (obError + unit) stk" where
  "incOpenCount c maker = do {
     n \<leftarrow> OpenCount c maker;
     if n \<ge> OrderbookMaxOpenPerMaker then obFail MaxOpenOrders
     else do { setU256 c (BOpenCount maker) (ucast (n + 1)); obOk () } }"

definition decOpenCount :: "('key, 'z) stateLib_scheme \<Rightarrow> address \<Rightarrow> unit stk" where
  "decOpenCount c maker = do {
     n \<leftarrow> OpenCount c maker;
     if n = 0 then State_Monad.return () else setU256 c (BOpenCount maker) (ucast (n - 1)) }"

definition addEscrowQ :: "('key, 'z) stateLib_scheme \<Rightarrow> address \<Rightarrow> u256 \<Rightarrow> unit stk" where
  "addEscrowQ c maker amt = do { cur \<leftarrow> EscrowQuote c maker; setU256 c (BEscrowQ maker) (cur + amt) }"

definition subEscrowQ :: "('key, 'z) stateLib_scheme \<Rightarrow> address \<Rightarrow> u256 \<Rightarrow> (obError + unit) stk" where
  "subEscrowQ c maker amt = do {
     cur \<leftarrow> EscrowQuote c maker;
     if cur < amt then obFail EscrowQuoteUnderflow
     else do { setU256 c (BEscrowQ maker) (cur - amt); obOk () } }"

definition addEscrowB :: "('key, 'z) stateLib_scheme \<Rightarrow> address \<Rightarrow> address \<Rightarrow> u256 \<Rightarrow> unit stk" where
  "addEscrowB c maker token amt = do {
     cur \<leftarrow> EscrowBase c maker token; setU256 c (BEscrowB maker token) (cur + amt) }"

definition subEscrowB :: "('key, 'z) stateLib_scheme \<Rightarrow> address \<Rightarrow> address \<Rightarrow> u256 \<Rightarrow> (obError + unit) stk" where
  "subEscrowB c maker token amt = do {
     cur \<leftarrow> EscrowBase c maker token;
     if cur < amt then obFail EscrowBaseUnderflow
     else do { setU256 c (BEscrowB maker token) (cur - amt); obOk () } }"


section \<open>Operations\<close>

definition validatePlace :: "('key, 'z) stateLib_scheme \<Rightarrow> address \<Rightarrow> u256 \<Rightarrow> u256 \<Rightarrow> (obError + unit) stk" where
  "validatePlace c maker price baseAmt =
     (if maker = 0 then obFail ZeroMaker else if price = 0 then obFail ZeroPrice
      else if baseAmt = 0 then obFail ZeroBaseAmount else incOpenCount c maker)"

definition newOrder :: "u64 \<Rightarrow> address \<Rightarrow> address \<Rightarrow> byte \<Rightarrow> u256 \<Rightarrow> u256 \<Rightarrow> u64 \<Rightarrow> Order" where
  "newOrder i maker token side price baseAmt blockNum =
     \<lparr>oID = i, oMaker = maker, oBaseToken = token, oSide = side, oPriceX18 = price, oBaseOpen = baseAmt,
      oBaseOrig = baseAmt, oCreatedAt = blockNum, oStatus = OrderStatusOpen\<rparr>"

definition PlaceBuy ::
    "('key, 'z) stateLib_scheme \<Rightarrow> address \<Rightarrow> address \<Rightarrow> u256 \<Rightarrow> u256 \<Rightarrow> u64 \<Rightarrow> (obError + u64 \<times> u256) stk" where
  "PlaceBuy c maker token price baseAmt blockNum = do {
     v \<leftarrow> validatePlace c maker price baseAmt;
     case v of Inl e \<Rightarrow> obFail e
     | Inr _ \<Rightarrow>
       if token = 0 then do { decOpenCount c maker; obFail ZeroBaseToken }
       else let quoteLock = QuoteLockCeil baseAmt price in
       if quoteLock = 0 then do { decOpenCount c maker; obFail ZeroQuoteLock }
       else do {
         i \<leftarrow> nextOrderID c;
         writeOrder c (newOrder i maker token OrderSideBuy price baseAmt blockNum);
         addEscrowQ c maker quoteLock;
         addOpenIndex c token OrderSideBuy i;
         obOk (i, quoteLock) } }"

definition PlaceSell ::
    "('key, 'z) stateLib_scheme \<Rightarrow> address \<Rightarrow> address \<Rightarrow> u256 \<Rightarrow> u256 \<Rightarrow> u64 \<Rightarrow> (obError + u64) stk" where
  "PlaceSell c maker token price baseAmt blockNum = do {
     v \<leftarrow> validatePlace c maker price baseAmt;
     case v of Inl e \<Rightarrow> obFail e
     | Inr _ \<Rightarrow>
       if token = 0 then do { decOpenCount c maker; obFail ZeroBaseToken }
       else do {
         i \<leftarrow> nextOrderID c;
         writeOrder c (newOrder i maker token OrderSideSell price baseAmt blockNum);
         addEscrowB c maker token baseAmt;
         addOpenIndex c token OrderSideSell i;
         obOk i } }"

text \<open>The escrow release of \<^verbatim>\<open>Cancel\<close>, by side.\<close>

definition cancelRefund :: "('key, 'z) stateLib_scheme \<Rightarrow> Order \<Rightarrow> (obError + Refund) stk" where
  "cancelRefund c ord =
     (let refund = \<lparr>rQuote = 0, rBase = 0, rToken = oBaseToken ord, rSide = oSide ord\<rparr>
      in if oSide ord = OrderSideBuy then do {
           esc \<leftarrow> EscrowQuote c (oMaker ord);
           let q = (if QuoteLockCeil (oBaseOpen ord) (oPriceX18 ord) > esc then esc
                    else QuoteLockCeil (oBaseOpen ord) (oPriceX18 ord));
           r \<leftarrow> subEscrowQ c (oMaker ord) q;
           case r of Inl e \<Rightarrow> obFail e | Inr _ \<Rightarrow> obOk (refund\<lparr>rQuote := q\<rparr>) }
         else do {
           r \<leftarrow> subEscrowB c (oMaker ord) (oBaseToken ord) (oBaseOpen ord);
           case r of Inl e \<Rightarrow> obFail e | Inr _ \<Rightarrow> obOk (refund\<lparr>rBase := oBaseOpen ord\<rparr>) })"

definition Cancel :: "('key, 'z) stateLib_scheme \<Rightarrow> address \<Rightarrow> u64 \<Rightarrow> (obError + Refund) stk" where
  "Cancel c actor i = do {
     oo \<leftarrow> GetOrder c i;
     case oo of None \<Rightarrow> obFail OrderNotFound
     | Some ord \<Rightarrow>
       if oStatus ord \<noteq> OrderStatusOpen then obFail OrderNotOpen
       else if oMaker ord \<noteq> actor then obFail NotMaker
       else do {
         r \<leftarrow> cancelRefund c ord;
         case r of Inl e \<Rightarrow> obFail e
         | Inr refund \<Rightarrow> do {
             writeOrder c (ord\<lparr>oStatus := OrderStatusCancelled, oBaseOpen := 0\<rparr>);
             decOpenCount c (oMaker ord);
             removeOpenIndex c (oBaseToken ord) (oSide ord) i;
             obOk refund } } }"

text \<open>The escrow charge of \<^verbatim>\<open>Fill\<close>, by side; the two branches of the source close a filled order alike.\<close>

definition fillCharge :: "('key, 'z) stateLib_scheme \<Rightarrow> Order \<Rightarrow> u256 \<Rightarrow> u256 \<Rightarrow> (obError + unit) stk" where
  "fillCharge c ord baseFilled quotePaid =
     (if oSide ord = OrderSideBuy then subEscrowQ c (oMaker ord) quotePaid
      else subEscrowB c (oMaker ord) (oBaseToken ord) baseFilled)"

definition Fill :: "('key, 'z) stateLib_scheme \<Rightarrow> address \<Rightarrow> u64 \<Rightarrow> u256 \<Rightarrow> (obError + u256 \<times> u256) stk" where
  "Fill c taker i maxBase =
     (if taker = 0 then obFail ZeroTaker
      else if maxBase = 0 then obFail ZeroFill
      else do {
        oo \<leftarrow> GetOrder c i;
        case oo of None \<Rightarrow> obFail OrderNotFound
        | Some ord \<Rightarrow>
          if oStatus ord \<noteq> OrderStatusOpen then obFail OrderNotOpen
          else let baseFilled = (if maxBase > oBaseOpen ord then oBaseOpen ord else maxBase);
                   quotePaid = QuoteFloor baseFilled (oPriceX18 ord);
                   remaining = oBaseOpen ord - baseFilled
          in do {
            r \<leftarrow> fillCharge c ord baseFilled quotePaid;
            case r of Inl e \<Rightarrow> obFail e
            | Inr _ \<Rightarrow> do {
                (if remaining = 0 then do {
                   decOpenCount c (oMaker ord);
                   removeOpenIndex c (oBaseToken ord) (oSide ord) i
                 } else State_Monad.return ());
                writeOrder c (ord\<lparr>oStatus := (if remaining = 0 then OrderStatusFilled else oStatus ord),
                                oBaseOpen := remaining\<rparr>);
                obOk (baseFilled, quotePaid) } } })"

fun bestScan :: "('key, 'z) stateLib_scheme \<Rightarrow> address \<Rightarrow> byte \<Rightarrow> bool \<Rightarrow> nat list \<Rightarrow> (u256 \<times> u64) option
    \<Rightarrow> (u256 \<times> u64) option stk" where
  "bestScan c token side preferHigh [] bst = State_Monad.return bst"
| "bestScan c token side preferHigh (j # js) bst = do {
     v \<leftarrow> getU256 c (BOpenAt token side (of_nat j));
     let oid = (ucast v :: u64);
     oo \<leftarrow> GetOrder c oid;
     bestScan c token side preferHigh js
       (case oo of None \<Rightarrow> bst
        | Some ord \<Rightarrow> if oStatus ord \<noteq> OrderStatusOpen then bst
          else case bst of None \<Rightarrow> Some (oPriceX18 ord, oid)
          | Some (bp, bid) \<Rightarrow>
              if (if preferHigh then oPriceX18 ord > bp else oPriceX18 ord < bp) \<or> oPriceX18 ord = bp \<and> oid < bid
              then Some (oPriceX18 ord, oid) else bst) }"

definition best :: "('key, 'z) stateLib_scheme \<Rightarrow> address \<Rightarrow> byte \<Rightarrow> bool \<Rightarrow> (u256 \<times> u64) option stk" where
  "best c token side preferHigh = do {
     n \<leftarrow> getU256 c (BOpenLen token side);
     bestScan c token side preferHigh [0..<unat (ucast n :: u64)] None }"

definition BestBid :: "('key, 'z) stateLib_scheme \<Rightarrow> address \<Rightarrow> (u256 \<times> u64) option stk" where
  "BestBid c token = best c token OrderSideBuy True"

definition BestAsk :: "('key, 'z) stateLib_scheme \<Rightarrow> address \<Rightarrow> (u256 \<times> u64) option stk" where
  "BestAsk c token = best c token OrderSideSell False"

end
