(* ===== verification/OrderbookLaws.thy ===== *)
theory OrderbookLaws
  imports Orderbook
begin

text \<open>
  Laws of the order book's storage: slot preimages are injective, a written order reads back, and
  the open-order index behaves as a list with swap-removal.
\<close>

section \<open>Slot preimages\<close>

lemma ob_domain_bytes [simp]:
  "strBytes obDomainNextID = [100, 101, 119, 47, 111, 98, 47, 118, 49, 47, 110, 101, 120, 116, 73, 100]"
  "strBytes obDomainOrder = [100, 101, 119, 47, 111, 98, 47, 118, 49, 47, 111, 114, 100, 101, 114]"
  "strBytes obDomainOpenCount = [100, 101, 119, 47, 111, 98, 47, 118, 49, 47, 111, 112, 101, 110, 67, 111, 117, 110, 116]"
  "strBytes obDomainEscrowQ = [100, 101, 119, 47, 111, 98, 47, 118, 49, 47, 101, 115, 99, 114, 111, 119, 81]"
  "strBytes obDomainEscrowB = [100, 101, 119, 47, 111, 98, 47, 118, 49, 47, 101, 115, 99, 114, 111, 119, 66]"
  "strBytes obDomainOpenLen = [100, 101, 119, 47, 111, 98, 47, 118, 49, 47, 111, 112, 101, 110, 76, 101, 110]"
  "strBytes obDomainOpenAt = [100, 101, 119, 47, 111, 98, 47, 118, 49, 47, 111, 112, 101, 110, 65, 116]"
  by code_simp+

fun obKeyLen :: "obKey \<Rightarrow> nat" where
  "obKeyLen BNextID = 16" | "obKeyLen (BOrder _ _) = 24" | "obKeyLen (BOpenCount _) = 39" | "obKeyLen (BEscrowQ _) = 37"
| "obKeyLen (BEscrowB _ _) = 57" | "obKeyLen (BOpenLen _ _) = 38" | "obKeyLen (BOpenAt _ _ _) = 45"

lemma obPreimage_length: "length (obPreimage k) = obKeyLen k"
  by (cases k) simp_all

lemma obPreimage_inj: "obPreimage k = obPreimage k' \<longleftrightarrow> k = k'"
proof
  assume eq: "obPreimage k = obPreimage k'"
  then have "obKeyLen k = obKeyLen k'" by (metis obPreimage_length)
  with eq show "k = k'" by (cases k; cases k'; simp)
qed simp

section \<open>Entries of the module\<close>

definition obv :: "('key, 'z) stateLib_scheme \<Rightarrow> StateDB \<Rightarrow> obKey \<Rightarrow> u256" where
  "obv c s k = slotOf s (OrderbookModuleAddr, obSlot c k)"

lemma run_getU256 [simp]:
  "result (getU256 c k) s = obv c s k" "obv c' (exec (getU256 c k) s) = obv c' s"
  by (simp_all add: exec_def result_def getU256_def obv_def GetState_fst hashToU256_def case_prod_beta fun_eq_iff)

lemma run_setU256 [simp]:
  "obv c (exec (setU256 c k v) s) k' = (if obSlot c k' = obSlot c k then v else obv c s k')"
  by (simp_all add: exec_def setU256_def obv_def u256ToHash_def)

text \<open>The entries that concern the participants and tokens \<^verbatim>\<open>A\<close>; order ids and indices are unrestricted.\<close>

fun obKeyIn :: "address set \<Rightarrow> obKey \<Rightarrow> bool" where
  "obKeyIn A BNextID = True" | "obKeyIn A (BOrder _ _) = True" | "obKeyIn A (BOpenCount a) = (a \<in> A)"
| "obKeyIn A (BEscrowQ a) = (a \<in> A)" | "obKeyIn A (BEscrowB a t) = (a \<in> A \<and> t \<in> A)"
| "obKeyIn A (BOpenLen t _) = (t \<in> A)" | "obKeyIn A (BOpenAt t _ _) = (t \<in> A)"

definition ob_slots_ok :: "('key, 'z) stateLib_scheme \<Rightarrow> address set \<Rightarrow> bool" where
  "ob_slots_ok c A \<longleftrightarrow> inj_on (obSlot c) {k. obKeyIn A k}"

lemma ob_slot_eq:
  "ob_slots_ok c A \<Longrightarrow> obKeyIn A k \<Longrightarrow> obKeyIn A k' \<Longrightarrow> obSlot c k = obSlot c k' \<longleftrightarrow> k = k'"
  by (auto simp: ob_slots_ok_def inj_on_def)

lemmas ob_views = OpenCount_def EscrowQuote_def EscrowBase_def

lemma ob_view_state [simp]:
  "obv c (exec (OpenCount c a) s) = obv c s" "result (OpenCount c a) s = ucast (obv c s (BOpenCount a))"
  "obv c (exec (EscrowQuote c a) s) = obv c s" "result (EscrowQuote c a) s = obv c s (BEscrowQ a)"
  "obv c (exec (EscrowBase c a t) s) = obv c s" "result (EscrowBase c a t) s = obv c s (BEscrowB a t)"
  by (simp_all add: ob_views)


section \<open>Orders\<close>

lemma packHdr_bytes:
  "hashBytes (packHdr ord) = addrBytes (oMaker ord) @ [oSide ord, oStatus ord, 0, 0] @ putU64 (oCreatedAt ord)"
  unfolding packHdr_def by (rule hashc.enc_dec) simp

lemma unpack_pack:
  assumes "oID ord = i"
  shows "unpackOrder i (packHdr ord) (ucast (oBaseToken ord)) (oPriceX18 ord) (oBaseOpen ord) (oBaseOrig ord) = ord"
proof -
  have "ucast (ucast x :: hash) = x" for x :: address by transfer simp
  then show ?thesis using assms by (simp add: unpackOrder_def packHdr_bytes nth_append)
qed

definition orderOf :: "('key, 'z) stateLib_scheme \<Rightarrow> StateDB \<Rightarrow> u64 \<Rightarrow> Order" where
  "orderOf c s i = unpackOrder i (obv c s (BOrder i obFieldHdr)) (obv c s (BOrder i obFieldToken))
     (obv c s (BOrder i obFieldPrice)) (obv c s (BOrder i obFieldOpen)) (obv c s (BOrder i obFieldOrig))"

lemma oID_orderOf [simp]: "oID (orderOf c s i) = i"
  by (simp add: orderOf_def unpackOrder_def Let_def)

lemmas obFields = obFieldHdr_def obFieldToken_def obFieldPrice_def obFieldOpen_def obFieldOrig_def

lemma writeOrder_obv:
  assumes "ob_slots_ok c A" "obKeyIn A k" "\<forall>f. k \<noteq> BOrder (oID ord) f"
  shows "obv c (exec (writeOrder c ord) s) k = obv c s k"
  using assms(2,3) ob_slot_eq [OF assms(1)] by (simp add: writeOrder_def)

lemma writeOrder_orderOf:
  assumes "ob_slots_ok c A"
  shows "orderOf c (exec (writeOrder c ord) s) = (orderOf c s)(oID ord := ord)"
  using ob_slot_eq [OF assms]
  by (simp add: fun_eq_iff orderOf_def writeOrder_def obFields unpack_pack)

lemma orderOf_cong:
  "(\<And>f. obv c s (BOrder i f) = obv c s' (BOrder i f)) \<Longrightarrow> orderOf c s i = orderOf c s' i"
  by (simp add: orderOf_def)

lemma GetOrder_view:
  "result (GetOrder c i) s = (if i = 0 \<or> i > ucast (obv c s BNextID) then None
     else let ord = orderOf c s i in
       if oBaseOrig ord = 0 \<and> oBaseOpen ord = 0 \<and> oPriceX18 ord = 0 \<and> oMaker ord = 0 then None else Some ord)"
  "obv c (exec (GetOrder c i) s) = obv c s"
  by (simp_all add: GetOrder_def orderOf_def unpackOrder_def Let_def)


section \<open>The open-order index as a list\<close>

definition openIdx :: "('key, 'z) stateLib_scheme \<Rightarrow> StateDB \<Rightarrow> address \<Rightarrow> byte \<Rightarrow> u64 list" where
  "openIdx c s t sd = map (\<lambda>j. ucast (obv c s (BOpenAt t sd (of_nat j)))) [0..<unat (ucast (obv c s (BOpenLen t sd)) :: u64)]"

definition swapRemove :: "'a \<Rightarrow> 'a list \<Rightarrow> 'a list" where
  "swapRemove x xs = (case find (\<lambda>j. xs ! j = x) [0..<length xs] of None \<Rightarrow> xs | Some j \<Rightarrow> butlast (xs[j := last xs]))"

lemma length_openIdx: "length (openIdx c s t sd) = unat (ucast (obv c s (BOpenLen t sd)) :: u64)"
  by (simp add: openIdx_def)

lemma of_nat_idx: "j < unat (n :: u64) \<Longrightarrow> (of_nat j :: u64) = m \<longleftrightarrow> j = unat m"
  using unat_of_nat_u64 [of j] unat_u64_bound [of n] by (auto simp: word_unat_eq_iff simp del: unat_u64_bound)

lemma addOpenIndex_obv:
  assumes "ob_slots_ok c A" "obKeyIn A k" "t \<in> A"
  shows "obv c (exec (addOpenIndex c t sd i) s) k =
    (if k = BOpenLen t sd then ucast (ucast (obv c s (BOpenLen t sd)) + 1 :: u64)
     else if k = BOpenAt t sd (ucast (obv c s (BOpenLen t sd))) then ucast i else obv c s k)"
  using assms(2,3) ob_slot_eq [OF assms(1)] by (simp add: addOpenIndex_def)

lemma removeScan_obv:
  assumes "ob_slots_ok c A" "obKeyIn A k" "t \<in> A"
  shows "obv c (exec (removeScan c t sd i n js) s) k =
    (case find (\<lambda>j. (ucast (obv c s (BOpenAt t sd (of_nat j))) :: u64) = i) js of None \<Rightarrow> obv c s k
     | Some j \<Rightarrow> if k = BOpenLen t sd then ucast (n - 1) else if k = BOpenAt t sd (n - 1) then 0
        else if k = BOpenAt t sd (of_nat j) then obv c s (BOpenAt t sd (n - 1)) else obv c s k)"
  using assms(2,3) ob_slot_eq [OF assms(1)]
  by (induction js arbitrary: s) (auto split: option.split)

lemma unat_pred: "0 < unat (n :: u64) \<Longrightarrow> unat (n - 1) = unat n - 1"
  by (simp add: unat_minus_exact word_le_nat_alt)

lemma openIdx_add:
  assumes "ob_slots_ok c A" "t \<in> A" "t' \<in> A" "length (openIdx c s t sd) < 2 ^ 64 - 1"
  shows "openIdx c (exec (addOpenIndex c t sd i) s) t' sd' =
    (if t' = t \<and> sd' = sd then openIdx c s t sd @ [i] else openIdx c s t' sd')"
proof -
  define n where "n = (ucast (obv c s (BOpenLen t sd)) :: u64)"
  have n1: "unat (n + 1) = Suc (unat n)"
    using assms(4) by (simp add: length_openIdx n_def [symmetric] unat_plus_exact)
  note obv = addOpenIndex_obv [OF assms(1) _ assms(2), folded n_def]
  show ?thesis
    using assms(3) n1 by (auto simp: openIdx_def obv n_def [symmetric] of_nat_idx [of _ n] intro!: nth_equalityI)
qed

lemma openIdx_remove:
  assumes "ob_slots_ok c A" "t \<in> A" "t' \<in> A"
  shows "openIdx c (exec (removeOpenIndex c t sd i) s) t' sd' =
    (if t' = t \<and> sd' = sd then swapRemove i (openIdx c s t sd) else openIdx c s t' sd')"
proof -
  define n where "n = (ucast (obv c s (BOpenLen t sd)) :: u64)"
  let ?xs = "openIdx c s t sd"
  have len: "length ?xs = unat n" by (simp add: length_openIdx n_def)
  have nth: "j < unat n \<Longrightarrow> ucast (obv c s (BOpenAt t sd (of_nat j))) = ?xs ! j" for j
    by (simp add: openIdx_def n_def)
  have fnd: "find (\<lambda>j. (ucast (obv c s (BOpenAt t sd (of_nat j))) :: u64) = i) [0..<unat n] =
      find (\<lambda>j. ?xs ! j = i) [0..<length ?xs]"
    by (rule find_cong) (simp_all add: len nth)
  have obv: "obKeyIn A k \<Longrightarrow> obv c (exec (removeOpenIndex c t sd i) s) k =
    (case find (\<lambda>j. ?xs ! j = i) [0..<length ?xs] of None \<Rightarrow> obv c s k
     | Some j \<Rightarrow> if k = BOpenLen t sd then ucast (n - 1) else if k = BOpenAt t sd (n - 1) then 0
        else if k = BOpenAt t sd (of_nat j) then obv c s (BOpenAt t sd (n - 1)) else obv c s k)" for k
    using fnd by (simp add: removeOpenIndex_def removeScan_obv [OF assms(1) _ assms(2)] n_def split: option.split)
  show ?thesis
  proof (cases "find (\<lambda>j. ?xs ! j = i) [0..<length ?xs]")
    case None
    then show ?thesis using assms(3) by (simp add: openIdx_def [of c "exec _ _"] obv swapRemove_def) (simp add: openIdx_def)
  next
    case (Some j)
    then have j: "j < unat n" by (auto simp: find_Some_iff len)
    note obvS = obv [unfolded Some option.case]
    from j have pred: "unat (n - 1) = unat n - 1" by (intro unat_pred) simp
    have lst: "last ?xs = ucast (obv c s (BOpenAt t sd (n - 1)))"
      using nth [of "unat n - 1"] j pred len of_nat_idx [of "unat n - 1" n "n - 1"]
      last_conv_nth [of ?xs] by (cases ?xs) simp_all
    show ?thesis
    proof (cases "t' = t \<and> sd' = sd")
      case True
      have "ucast (obv c (exec (removeOpenIndex c t sd i) s) (BOpenAt t sd (of_nat k))) = butlast (?xs[j := last ?xs]) ! k"
        if "k < unat n - 1" for k
        using that j lst nth [of k] of_nat_idx [of k n "n - 1"] of_nat_idx [of k n "of_nat j"] unat_of_nat_u64 [of j] unat_u64_bound [of n]
        by (simp add: obvS assms(2) pred nth_butlast len nth_list_update del: unat_u64_bound)
      moreover have "length (openIdx c (exec (removeOpenIndex c t sd i) s) t sd) = unat n - 1"
        by (simp add: length_openIdx obvS assms(2) pred)
      ultimately have "openIdx c (exec (removeOpenIndex c t sd i) s) t sd = butlast (?xs[j := last ?xs])"
        by (intro nth_equalityI) (simp_all add: len openIdx_def [of c "exec _ _"])
      then show ?thesis using True by (simp add: swapRemove_def Some)
    next
      case False
      then show ?thesis using assms(3)
        by (auto simp: openIdx_def obvS)
    qed
  qed
qed

end
