(* ===== verification/OrderbookSpec.thy ===== *)
theory OrderbookSpec
  imports OrderbookLaws
begin

text \<open>
  An abstract order book, with orders, open counts, escrow accounts and open-order lists as plain
  functions, and the proof that the operations on storage slots implement it.
\<close>

section \<open>The abstract book\<close>

record book =
  bkNext :: u64
  bkOrders :: "u64 \<Rightarrow> Order"
  bkCount :: "address \<Rightarrow> u64"
  bkEscQ :: "address \<Rightarrow> u256"
  bkEscB :: "address \<Rightarrow> address \<Rightarrow> u256"
  bkIndex :: "address \<Rightarrow> byte \<Rightarrow> u64 list"

datatype obOp =
    OBuy address address u256 u256 u64 | OSell address address u256 u256 u64 | OCancel address u64
  | OFill address u64 u256

datatype obOut = OFailed obError | OPlaced u64 u256 | ORefunded Refund | OTraded u256 u256

definition bookFind :: "book \<Rightarrow> u64 \<Rightarrow> Order option" where
  "bookFind B i = (if i = 0 \<or> i > bkNext B then None
     else let ord = bkOrders B i in
       if oBaseOrig ord = 0 \<and> oBaseOpen ord = 0 \<and> oPriceX18 ord = 0 \<and> oMaker ord = 0 then None else Some ord)"

definition bookPlace :: "address \<Rightarrow> address \<Rightarrow> byte \<Rightarrow> u256 \<Rightarrow> u256 \<Rightarrow> u64 \<Rightarrow> book \<Rightarrow> book" where
  "bookPlace m t sd price b bn B = (let i = bkNext B + 1 in
     B\<lparr>bkNext := i, bkOrders := (bkOrders B)(i := newOrder i m t sd price b bn),
       bkCount := (bkCount B)(m := bkCount B m + 1),
       bkEscQ := (if sd = OrderSideBuy then (bkEscQ B)(m := bkEscQ B m + QuoteLockCeil b price) else bkEscQ B),
       bkEscB := (if sd = OrderSideBuy then bkEscB B else (bkEscB B)(m := (bkEscB B m)(t := bkEscB B m t + b))),
       bkIndex := (bkIndex B)(t := (bkIndex B t)(sd := bkIndex B t sd @ [i]))\<rparr>)"

definition placeError :: "address \<Rightarrow> address \<Rightarrow> byte \<Rightarrow> u256 \<Rightarrow> u256 \<Rightarrow> book \<Rightarrow> obError option" where
  "placeError m t sd price b B =
     (if m = 0 then Some ZeroMaker else if price = 0 then Some ZeroPrice else if b = 0 then Some ZeroBaseAmount
      else if bkCount B m \<ge> OrderbookMaxOpenPerMaker then Some MaxOpenOrders
      else if t = 0 then Some ZeroBaseToken
      else if sd = OrderSideBuy \<and> QuoteLockCeil b price = 0 then Some ZeroQuoteLock else None)"

text \<open>Taking an order off the book: one open order less for the maker, and its id off the list.\<close>

definition bookClose :: "Order \<Rightarrow> book \<Rightarrow> book" where
  "bookClose ord B = B\<lparr>bkCount := (bkCount B)(oMaker ord := (if bkCount B (oMaker ord) = 0 then 0 else bkCount B (oMaker ord) - 1)),
     bkIndex := (bkIndex B)(oBaseToken ord := (bkIndex B (oBaseToken ord))
       (oSide ord := swapRemove (oID ord) (bkIndex B (oBaseToken ord) (oSide ord))))\<rparr>"

definition bookPay :: "Order \<Rightarrow> u256 \<Rightarrow> u256 \<Rightarrow> book \<Rightarrow> obError + book" where
  "bookPay ord q b B =
     (if oSide ord = OrderSideBuy then
        (if bkEscQ B (oMaker ord) < q then Inl EscrowQuoteUnderflow
         else Inr (B\<lparr>bkEscQ := (bkEscQ B)(oMaker ord := bkEscQ B (oMaker ord) - q)\<rparr>))
      else if bkEscB B (oMaker ord) (oBaseToken ord) < b then Inl EscrowBaseUnderflow
      else Inr (B\<lparr>bkEscB := (bkEscB B)(oMaker ord :=
        (bkEscB B (oMaker ord))(oBaseToken ord := bkEscB B (oMaker ord) (oBaseToken ord) - b))\<rparr>))"

definition bookPut :: "Order \<Rightarrow> book \<Rightarrow> book" where
  "bookPut ord B = B\<lparr>bkOrders := (bkOrders B)(oID ord := ord)\<rparr>"

fun bookStep :: "obOp \<Rightarrow> book \<Rightarrow> obOut \<times> book" where
  "bookStep (OBuy m t price b bn) B =
     (case placeError m t OrderSideBuy price b B of Some e \<Rightarrow> (OFailed e, B)
      | None \<Rightarrow> (OPlaced (bkNext B + 1) (QuoteLockCeil b price), bookPlace m t OrderSideBuy price b bn B))"
| "bookStep (OSell m t price b bn) B =
     (case placeError m t OrderSideSell price b B of Some e \<Rightarrow> (OFailed e, B)
      | None \<Rightarrow> (OPlaced (bkNext B + 1) 0, bookPlace m t OrderSideSell price b bn B))"
| "bookStep (OCancel actor i) B =
     (case bookFind B i of None \<Rightarrow> (OFailed OrderNotFound, B)
      | Some ord \<Rightarrow>
        if oStatus ord \<noteq> OrderStatusOpen then (OFailed OrderNotOpen, B)
        else if oMaker ord \<noteq> actor then (OFailed NotMaker, B)
        else let q = min (QuoteLockCeil (oBaseOpen ord) (oPriceX18 ord)) (bkEscQ B (oMaker ord)) in
          case bookPay ord q (oBaseOpen ord) B of Inl e \<Rightarrow> (OFailed e, B)
          | Inr B1 \<Rightarrow>
            (ORefunded \<lparr>rQuote = (if oSide ord = OrderSideBuy then q else 0),
                        rBase = (if oSide ord = OrderSideBuy then 0 else oBaseOpen ord),
                        rToken = oBaseToken ord, rSide = oSide ord\<rparr>,
             bookClose ord (bookPut (ord\<lparr>oStatus := OrderStatusCancelled, oBaseOpen := 0\<rparr>) B1)))"
| "bookStep (OFill taker i mx) B =
     (if taker = 0 then (OFailed ZeroTaker, B) else if mx = 0 then (OFailed ZeroFill, B)
      else case bookFind B i of None \<Rightarrow> (OFailed OrderNotFound, B)
      | Some ord \<Rightarrow>
        if oStatus ord \<noteq> OrderStatusOpen then (OFailed OrderNotOpen, B)
        else let b = min mx (oBaseOpen ord); q = QuoteFloor b (oPriceX18 ord) in
          case bookPay ord q b B of Inl e \<Rightarrow> (OFailed e, B)
          | Inr B1 \<Rightarrow> (OTraded b q,
              if oBaseOpen ord - b = 0
              then bookPut (ord\<lparr>oStatus := OrderStatusFilled, oBaseOpen := 0\<rparr>) (bookClose ord B1)
              else bookPut (ord\<lparr>oBaseOpen := oBaseOpen ord - b\<rparr>) B1))"


section \<open>The book held in storage\<close>

definition bookOf :: "('key, 'z) stateLib_scheme \<Rightarrow> address set \<Rightarrow> StateDB \<Rightarrow> book" where
  "bookOf c A s = \<lparr>bkNext = ucast (obv c s BNextID), bkOrders = orderOf c s,
     bkCount = (\<lambda>m. if m \<in> A then ucast (obv c s (BOpenCount m)) else 0),
     bkEscQ = (\<lambda>m. if m \<in> A then obv c s (BEscrowQ m) else 0),
     bkEscB = (\<lambda>m t. if m \<in> A \<and> t \<in> A then obv c s (BEscrowB m t) else 0),
     bkIndex = (\<lambda>t sd. if t \<in> A then openIdx c s t sd else [])\<rparr>"

lemma bookOf_cong:
  assumes "\<And>k. obKeyIn A k \<Longrightarrow> obv c s k = obv c s' k"
  shows "bookOf c A s = bookOf c A s'"
proof -
  have "orderOf c s = orderOf c s'" using assms by (auto intro!: orderOf_cong)
  then show ?thesis using assms by (simp add: bookOf_def fun_eq_iff openIdx_def)
qed

lemma bookOf_reads [simp]:
  "bookOf c A (exec (getU256 c k) s) = bookOf c A s" "bookOf c A (exec (GetOrder c i) s) = bookOf c A s"
  "bookOf c A (exec (OpenCount c m) s) = bookOf c A s" "bookOf c A (exec (EscrowQuote c m) s) = bookOf c A s"
  "bookOf c A (exec (EscrowBase c m t) s) = bookOf c A s"
  by (auto intro!: bookOf_cong simp: GetOrder_view)

lemma bookOf_GetOrder: "result (GetOrder c i) s = bookFind (bookOf c A s) i"
  by (simp add: GetOrder_view bookFind_def bookOf_def)

text \<open>Writing one entry outside the orders and the index changes one field of the book.\<close>

lemma bookOf_setU256:
  assumes ok: "ob_slots_ok c A" and inA: "obKeyIn A k"
    and k: "\<forall>i f. k \<noteq> BOrder i f" "\<forall>t sd. k \<noteq> BOpenLen t sd" "\<forall>t sd j. k \<noteq> BOpenAt t sd j"
  shows "bkOrders (bookOf c A (exec (setU256 c k v) s)) = bkOrders (bookOf c A s)"
    "bkIndex (bookOf c A (exec (setU256 c k v) s)) = bkIndex (bookOf c A s)"
  using inA k ob_slot_eq [OF ok]
  by (auto simp: bookOf_def fun_eq_iff openIdx_def intro!: orderOf_cong)

lemma bookOf_set:
  assumes ok: "ob_slots_ok c A"
  shows "bookOf c A (exec (setU256 c BNextID v) s) = (bookOf c A s)\<lparr>bkNext := ucast v\<rparr>"
    "m \<in> A \<Longrightarrow> bookOf c A (exec (setU256 c (BOpenCount m) v) s) =
       (bookOf c A s)\<lparr>bkCount := (bkCount (bookOf c A s))(m := ucast v)\<rparr>"
    "m \<in> A \<Longrightarrow> bookOf c A (exec (setU256 c (BEscrowQ m) v) s) =
       (bookOf c A s)\<lparr>bkEscQ := (bkEscQ (bookOf c A s))(m := v)\<rparr>"
    "m \<in> A \<Longrightarrow> t \<in> A \<Longrightarrow> bookOf c A (exec (setU256 c (BEscrowB m t) v) s) =
       (bookOf c A s)\<lparr>bkEscB := (bkEscB (bookOf c A s))(m := (bkEscB (bookOf c A s) m)(t := v))\<rparr>"
proof -
  note eqs = ob_slot_eq [OF ok] bookOf_setU256 [OF ok]
  show "bookOf c A (exec (setU256 c BNextID v) s) = (bookOf c A s)\<lparr>bkNext := ucast v\<rparr>"
    by (rule book.equality; simp add: eqs) (simp_all add: bookOf_def fun_eq_iff eqs)
  show "m \<in> A \<Longrightarrow> bookOf c A (exec (setU256 c (BOpenCount m) v) s) =
       (bookOf c A s)\<lparr>bkCount := (bkCount (bookOf c A s))(m := ucast v)\<rparr>"
    by (rule book.equality; simp add: eqs) (simp_all add: bookOf_def fun_eq_iff eqs)
  show "m \<in> A \<Longrightarrow> bookOf c A (exec (setU256 c (BEscrowQ m) v) s) =
       (bookOf c A s)\<lparr>bkEscQ := (bkEscQ (bookOf c A s))(m := v)\<rparr>"
    by (rule book.equality; simp add: eqs) (simp_all add: bookOf_def fun_eq_iff eqs)
  show "m \<in> A \<Longrightarrow> t \<in> A \<Longrightarrow> bookOf c A (exec (setU256 c (BEscrowB m t) v) s) =
       (bookOf c A s)\<lparr>bkEscB := (bkEscB (bookOf c A s))(m := (bkEscB (bookOf c A s) m)(t := v))\<rparr>"
    by (rule book.equality; simp add: eqs) (simp_all add: bookOf_def fun_eq_iff eqs)
qed

lemma bookOf_writeOrder:
  assumes "ob_slots_ok c A"
  shows "bookOf c A (exec (writeOrder c ord) s) = bookPut ord (bookOf c A s)"
  unfolding bookOf_def bookPut_def
  by (simp add: writeOrder_orderOf [OF assms] writeOrder_obv [OF assms] openIdx_def fun_eq_iff cong: if_cong)

lemma bookOf_addIndex:
  assumes "ob_slots_ok c A" "t \<in> A" "length (bkIndex (bookOf c A s) t sd) < 2 ^ 64 - 1"
  shows "bookOf c A (exec (addOpenIndex c t sd i) s) = (let B = bookOf c A s in
    B\<lparr>bkIndex := (bkIndex B)(t := (bkIndex B t)(sd := bkIndex B t sd @ [i]))\<rparr>)"
proof -
  have "length (openIdx c s t sd) < 2 ^ 64 - 1" using assms by (simp add: bookOf_def)
  moreover have "orderOf c (exec (addOpenIndex c t sd i) s) = orderOf c s"
    by (auto intro!: orderOf_cong simp: addOpenIndex_obv [OF assms(1) _ assms(2)])
  ultimately show ?thesis
    using openIdx_add [OF assms(1,2)] assms(2)
    by (auto simp: bookOf_def Let_def fun_eq_iff addOpenIndex_obv [OF assms(1) _ assms(2)])
qed

lemma removeIndex_obv:
  assumes "ob_slots_ok c A" "t \<in> A" "obKeyIn A k" "\<forall>t sd. k \<noteq> BOpenLen t sd" "\<forall>t sd j. k \<noteq> BOpenAt t sd j"
  shows "obv c (exec (removeOpenIndex c t sd i) s) k = obv c s k"
  using assms(3-) by (simp add: removeOpenIndex_def removeScan_obv [OF assms(1) _ assms(2)] split: option.split)

lemma bookOf_removeIndex:
  assumes "ob_slots_ok c A" "t \<in> A"
  shows "bookOf c A (exec (removeOpenIndex c t sd i) s) = (let B = bookOf c A s in
    B\<lparr>bkIndex := (bkIndex B)(t := (bkIndex B t)(sd := swapRemove i (bkIndex B t sd)))\<rparr>)"
proof -
  have "orderOf c (exec (removeOpenIndex c t sd i) s) = orderOf c s"
    by (auto intro!: orderOf_cong simp: removeIndex_obv [OF assms])
  then show ?thesis
    using openIdx_remove [OF assms] assms(2)
    by (auto simp: bookOf_def Let_def fun_eq_iff removeIndex_obv [OF assms])
qed


section \<open>The operations implement the book\<close>

lemma bookOf_entries:
  "ucast (obv c s BNextID) = bkNext (bookOf c A s)"
  "m \<in> A \<Longrightarrow> ucast (obv c s (BOpenCount m)) = bkCount (bookOf c A s) m"
  "m \<in> A \<Longrightarrow> obv c s (BEscrowQ m) = bkEscQ (bookOf c A s) m"
  "m \<in> A \<Longrightarrow> t \<in> A \<Longrightarrow> obv c s (BEscrowB m t) = bkEscB (bookOf c A s) m t"
  by (simp_all add: bookOf_def)

lemma next_book:
  assumes "ob_slots_ok c A"
  shows "result (nextOrderID c) s = bkNext (bookOf c A s) + 1"
    "bookOf c A (exec (nextOrderID c) s) = (bookOf c A s)\<lparr>bkNext := bkNext (bookOf c A s) + 1\<rparr>"
  by (simp_all add: nextOrderID_def Let_def bookOf_entries [where A = A] bookOf_set [OF assms])

lemma book_same [simp]: "B\<lparr>bkCount := bkCount B\<rparr> = B"
  by simp

lemma count_book:
  assumes "ob_slots_ok c A" "m \<in> A"
  shows "result (incOpenCount c m) s =
      (if bkCount (bookOf c A s) m \<ge> OrderbookMaxOpenPerMaker then Inl MaxOpenOrders else Inr ())"
    "bkCount (bookOf c A s) m < OrderbookMaxOpenPerMaker \<Longrightarrow> bookOf c A (exec (incOpenCount c m) s) =
      (let B = bookOf c A s in B\<lparr>bkCount := (bkCount B)(m := bkCount B m + 1)\<rparr>)"
    "bkCount (bookOf c A s) m \<ge> OrderbookMaxOpenPerMaker \<Longrightarrow> bookOf c A (exec (incOpenCount c m) s) = bookOf c A s"
    "bookOf c A (exec (decOpenCount c m) s) = (let B = bookOf c A s in
      B\<lparr>bkCount := (bkCount B)(m := (if bkCount B m = 0 then 0 else bkCount B m - 1))\<rparr>)"
  using bookOf_entries(2) [OF assms(2), of c] bookOf_set [OF assms(1)] assms(2)
  by (auto simp: incOpenCount_def decOpenCount_def Let_def fun_upd_idem)

lemma escrow_book:
  assumes "ob_slots_ok c A" "m \<in> A"
  shows "bookOf c A (exec (addEscrowQ c m x) s) = (let B = bookOf c A s in B\<lparr>bkEscQ := (bkEscQ B)(m := bkEscQ B m + x)\<rparr>)"
    "t \<in> A \<Longrightarrow> bookOf c A (exec (addEscrowB c m t x) s) = (let B = bookOf c A s in
       B\<lparr>bkEscB := (bkEscB B)(m := (bkEscB B m)(t := bkEscB B m t + x))\<rparr>)"
    "result (subEscrowQ c m x) s = (if bkEscQ (bookOf c A s) m < x then Inl EscrowQuoteUnderflow else Inr ())"
    "bookOf c A (exec (subEscrowQ c m x) s) = (let B = bookOf c A s in
       if bkEscQ B m < x then B else B\<lparr>bkEscQ := (bkEscQ B)(m := bkEscQ B m - x)\<rparr>)"
    "t \<in> A \<Longrightarrow> result (subEscrowB c m t x) s = (if bkEscB (bookOf c A s) m t < x then Inl EscrowBaseUnderflow else Inr ())"
    "t \<in> A \<Longrightarrow> bookOf c A (exec (subEscrowB c m t x) s) = (let B = bookOf c A s in
       if bkEscB B m t < x then B else B\<lparr>bkEscB := (bkEscB B)(m := (bkEscB B m)(t := bkEscB B m t - x))\<rparr>)"
  using bookOf_entries(3,4) [OF assms(2), where c = c] bookOf_set [OF assms(1)] assms(2)
  by (auto simp: addEscrowQ_def addEscrowB_def subEscrowQ_def subEscrowB_def Let_def)

fun obRun :: "('key, 'z) stateLib_scheme \<Rightarrow> obOp \<Rightarrow> obOut stk" where
  "obRun c (OBuy m t price b bn) = do {
     r \<leftarrow> PlaceBuy c m t price b bn;
     State_Monad.return (case r of Inl e \<Rightarrow> OFailed e | Inr (i, q) \<Rightarrow> OPlaced i q) }"
| "obRun c (OSell m t price b bn) = do {
     r \<leftarrow> PlaceSell c m t price b bn;
     State_Monad.return (case r of Inl e \<Rightarrow> OFailed e | Inr i \<Rightarrow> OPlaced i 0) }"
| "obRun c (OCancel actor i) = do {
     r \<leftarrow> Cancel c actor i; State_Monad.return (case r of Inl e \<Rightarrow> OFailed e | Inr rf \<Rightarrow> ORefunded rf) }"
| "obRun c (OFill taker i mx) = do {
     r \<leftarrow> Fill c taker i mx; State_Monad.return (case r of Inl e \<Rightarrow> OFailed e | Inr (b, q) \<Rightarrow> OTraded b q) }"

fun obOpIn :: "address set \<Rightarrow> obOp \<Rightarrow> bool" where
  "obOpIn A (OBuy m t _ _ _) = (m \<in> A \<and> t \<in> A)" | "obOpIn A (OSell m t _ _ _) = (m \<in> A \<and> t \<in> A)"
| "obOpIn A _ = True"

definition book_ok :: "address set \<Rightarrow> book \<Rightarrow> bool" where
  "book_ok A B \<longleftrightarrow> (\<forall>i. 0 < i \<and> i \<le> bkNext B \<longrightarrow> oMaker (bkOrders B i) \<in> A \<and> oBaseToken (bkOrders B i) \<in> A
       \<and> oID (bkOrders B i) = i) \<and>
     (\<forall>t sd. length (bkIndex B t sd) < 2 ^ 64 - 1)"

lemma place_refines:
  assumes ok: "ob_slots_ok c A" and inA: "m \<in> A" "t \<in> A" and bok: "book_ok A (bookOf c A s)"
  shows "result (obRun c (OBuy m t price b bn)) s = fst (bookStep (OBuy m t price b bn) (bookOf c A s))"
    "bookOf c A (exec (obRun c (OBuy m t price b bn)) s) = snd (bookStep (OBuy m t price b bn) (bookOf c A s))"
    "result (obRun c (OSell m t price b bn)) s = fst (bookStep (OSell m t price b bn) (bookOf c A s))"
    "bookOf c A (exec (obRun c (OSell m t price b bn)) s) = snd (bookStep (OSell m t price b bn) (bookOf c A s))"
proof -
  note eqs = count_book [OF ok inA(1)] next_book [OF ok] bookOf_writeOrder [OF ok] escrow_book [OF ok inA(1)]
    bookOf_addIndex [OF ok inA(2)]
  have len: "length (bkIndex (bookOf c A s) t sd) < 18446744073709551615" for sd
    using bok by (simp add: book_ok_def)
  have nowrap: "n < OrderbookMaxOpenPerMaker \<Longrightarrow> n + 1 \<noteq> 0" for n :: u64
  proof
    assume "n < OrderbookMaxOpenPerMaker" "n + 1 = 0"
    then have "n = -1" by (simp add: eq_neg_iff_add_eq_0)
    with \<open>n < OrderbookMaxOpenPerMaker\<close> show False by (simp add: OrderbookMaxOpenPerMaker_def)
  qed
  show "result (obRun c (OBuy m t price b bn)) s = fst (bookStep (OBuy m t price b bn) (bookOf c A s))"
    by (simp add: PlaceBuy_def validatePlace_def placeError_def eqs Let_def split: sum.split) 
  show "bookOf c A (exec (obRun c (OBuy m t price b bn)) s) = snd (bookStep (OBuy m t price b bn) (bookOf c A s))"
    using nowrap len
    by (simp add: PlaceBuy_def validatePlace_def placeError_def eqs Let_def bookPlace_def bookPut_def newOrder_def
        not_le inA split: sum.split)
  show "result (obRun c (OSell m t price b bn)) s = fst (bookStep (OSell m t price b bn) (bookOf c A s))"
    by (simp add: PlaceSell_def validatePlace_def placeError_def eqs Let_def OrderSideBuy_def OrderSideSell_def split: sum.split)
  show "bookOf c A (exec (obRun c (OSell m t price b bn)) s) = snd (bookStep (OSell m t price b bn) (bookOf c A s))"
    using nowrap len
    by (simp add: PlaceSell_def validatePlace_def placeError_def eqs Let_def bookPlace_def bookPut_def newOrder_def
        not_le inA OrderSideBuy_def OrderSideSell_def split: sum.split)
qed


lemma bookFind_in:
  "book_ok A B \<Longrightarrow> bookFind B i = Some ord \<Longrightarrow> oMaker ord \<in> A \<and> oBaseToken ord \<in> A \<and> oID ord = i \<and> ord = bkOrders B i"
  by (auto simp: bookFind_def book_ok_def Let_def word_neq_0_conv split: if_splits)

lemma close_book:
  assumes "ob_slots_ok c A" "oMaker ord \<in> A" "oBaseToken ord \<in> A"
  shows "bookOf c A (exec (removeOpenIndex c (oBaseToken ord) (oSide ord) (oID ord)) (exec (decOpenCount c (oMaker ord)) s)) =
    bookClose ord (bookOf c A s)"
  by (simp add: bookOf_removeIndex [OF assms(1,3)] count_book [OF assms(1,2)] bookClose_def Let_def)

lemma cancelRefund_book:
  assumes "ob_slots_ok c A" "oMaker ord \<in> A" "oBaseToken ord \<in> A"
  defines "q s \<equiv> min (QuoteLockCeil (oBaseOpen ord) (oPriceX18 ord)) (bkEscQ (bookOf c A s) (oMaker ord))"
  shows "case bookPay ord (q s) (oBaseOpen ord) (bookOf c A s) of
      Inl e \<Rightarrow> result (cancelRefund c ord) s = Inl e \<and> bookOf c A (exec (cancelRefund c ord) s) = bookOf c A s
    | Inr B1 \<Rightarrow> result (cancelRefund c ord) s = Inr \<lparr>rQuote = (if oSide ord = OrderSideBuy then q s else 0),
                        rBase = (if oSide ord = OrderSideBuy then 0 else oBaseOpen ord),
                        rToken = oBaseToken ord, rSide = oSide ord\<rparr> \<and>
        bookOf c A (exec (cancelRefund c ord) s) = B1"
  using bookOf_entries(3) [OF assms(2), of c s]
  by (simp add: cancelRefund_def bookPay_def Let_def escrow_book [OF assms(1,2)] assms(3) q_def min_def not_le
      split: sum.split) (auto simp: not_le [symmetric])

lemma cancel_refines:
  assumes ok: "ob_slots_ok c A" and bok: "book_ok A (bookOf c A s)"
  shows "result (obRun c (OCancel actor i)) s = fst (bookStep (OCancel actor i) (bookOf c A s)) \<and>
    bookOf c A (exec (obRun c (OCancel actor i)) s) = snd (bookStep (OCancel actor i) (bookOf c A s))"
proof (cases "bookFind (bookOf c A s) i")
  case None
  then show ?thesis by (simp add: Cancel_def bookOf_GetOrder [where A = A])
next
  case (Some ord)
  note ord = bookFind_in [OF bok Some]
  let ?B = "bookOf c A s" and ?s = "exec (GetOrder c i) s"
  let ?q = "min (QuoteLockCeil (oBaseOpen ord) (oPriceX18 ord)) (bkEscQ ?B (oMaker ord))"
  note cr = cancelRefund_book [OF ok, of ord ?s, simplified]
  note close = close_book [OF ok, of ord, unfolded conjunct1 [OF conjunct2 [OF conjunct2 [OF ord]]]]
  show ?thesis
    using cr ord close
    by (cases "bookPay ord ?q (oBaseOpen ord) ?B")
      (auto simp: Cancel_def bookOf_GetOrder [where A = A] Some bookOf_writeOrder [OF ok] Let_def)
qed

lemma fillCharge_book:
  assumes "ob_slots_ok c A" "oMaker ord \<in> A" "oBaseToken ord \<in> A"
  shows "case bookPay ord q b (bookOf c A s) of
      Inl e \<Rightarrow> result (fillCharge c ord b q) s = Inl e \<and> bookOf c A (exec (fillCharge c ord b q) s) = bookOf c A s
    | Inr B1 \<Rightarrow> result (fillCharge c ord b q) s = Inr () \<and> bookOf c A (exec (fillCharge c ord b q) s) = B1"
  by (simp add: fillCharge_def bookPay_def Let_def escrow_book [OF assms(1,2)] assms(3) split: sum.split)

lemma status_same: "oStatus ord = st \<Longrightarrow> ord\<lparr>oStatus := st, oBaseOpen := x\<rparr> = ord\<lparr>oBaseOpen := x\<rparr>"
  by (cases ord) simp

lemma fill_refines:
  assumes ok: "ob_slots_ok c A" and bok: "book_ok A (bookOf c A s)"
  shows "result (obRun c (OFill taker i mx)) s = fst (bookStep (OFill taker i mx) (bookOf c A s)) \<and>
    bookOf c A (exec (obRun c (OFill taker i mx)) s) = snd (bookStep (OFill taker i mx) (bookOf c A s))"
proof (cases "bookFind (bookOf c A s) i")
  case None
  then show ?thesis by (simp add: Fill_def bookOf_GetOrder [where A = A])
next
  case (Some ord)
  from bookFind_in [OF bok Some] have ord: "oMaker ord \<in> A" "oBaseToken ord \<in> A" and i: "oID ord = i" by auto
  let ?B = "bookOf c A s" and ?s = "exec (GetOrder c i) s"
  define b where "b = min mx (oBaseOpen ord)"
  let ?q = "QuoteFloor b (oPriceX18 ord)"
  note fc = fillCharge_book [OF ok ord, where q = ?q and b = b and s = ?s, unfolded bookOf_reads]
  note close = close_book [OF ok ord, unfolded i]
  have b: "(if oBaseOpen ord < mx then oBaseOpen ord else mx) = b" "min mx (oBaseOpen ord) = b"
    by (auto simp: min_def b_def)
  note defs = Fill_def bookOf_GetOrder [where A = A] Some bookOf_writeOrder [OF ok] close Let_def b
  show ?thesis
  proof (cases "bookPay ord ?q b ?B")
    case (Inl e)
    then have "result (fillCharge c ord b ?q) ?s = Inl e" "bookOf c A (exec (fillCharge c ord b ?q) ?s) = ?B"
      using fc by simp_all
    then show ?thesis using Inl by (simp add: defs)
  next
    case (Inr B1)
    then have "result (fillCharge c ord b ?q) ?s = Inr ()" "bookOf c A (exec (fillCharge c ord b ?q) ?s) = B1"
      using fc by simp_all
    then show ?thesis using Inr by (simp add: defs status_same)
  qed
qed

lemma step_refines:
  assumes "ob_slots_ok c A" "book_ok A (bookOf c A s)" "obOpIn A op"
  shows "result (obRun c op) s = fst (bookStep op (bookOf c A s))"
    "bookOf c A (exec (obRun c op) s) = snd (bookStep op (bookOf c A s))"
  using place_refines [OF assms(1) _ _ assms(2)] cancel_refines [OF assms(1,2)] fill_refines [OF assms(1,2)] assms(3)
  by (cases op; simp del: obRun.simps bookStep.simps)+

end
