(* ===== verification/OrderbookInv.thy ===== *)
theory OrderbookInv
  imports OrderbookSpec
begin

text \<open>
  The invariant of the order book: open counts, escrow and open-order lists agree with the orders,
  and the escrow of a maker covers the locks of all their open orders.
\<close>

section \<open>Quotes\<close>

lemma add_div_le: "a div k + b div k \<le> (a + b) div (k :: nat)"
proof (cases "k = 0")
  case False
  have "(a div k + b div k) * k \<le> a + b"
    by (metis add_mono distrib_right div_times_less_eq_dividend)
  then show ?thesis using False by (simp add: less_eq_div_iff_mult_less_eq)
qed simp

text \<open>The exact quote of an amount at a price, rounded up.\<close>

definition ceilQuote :: "u256 \<Rightarrow> u256 \<Rightarrow> nat" where
  "ceilQuote b p = (unat b * unat p + (10 ^ 18 - 1)) div 10 ^ 18"

lemma unat_word_of_nat: "n < 2 ^ 256 \<Longrightarrow> unat (word_of_int (int n) :: u256) = n"
  by (simp add: unsigned_of_nat take_bit_nat_eq_self)

lemma quotes_as_nat:
  "(uint (b :: u256) * uint (p :: u256) + (10 ^ 18 - 1)) div 10 ^ 18 = int (ceilQuote b p)"
  "uint b * uint p div 10 ^ 18 = int (unat b * unat p div 10 ^ 18)"
  unfolding ceilQuote_def by (simp_all add: zdiv_int of_nat_diff)

lemma QuoteLockCeil_exact: "ceilQuote b p < 2 ^ 256 \<Longrightarrow> unat (QuoteLockCeil b p) = ceilQuote b p"
  unfolding QuoteLockCeil_def quotes_as_nat using unat_word_of_nat by (auto simp: ceilQuote_def)

lemma floor_le_ceil: "unat b * unat p div 10 ^ 18 \<le> ceilQuote b p"
  unfolding ceilQuote_def by (intro div_le_mono) simp

lemma QuoteFloor_exact: "ceilQuote b p < 2 ^ 256 \<Longrightarrow> unat (QuoteFloor b p) = unat b * unat p div 10 ^ 18"
  unfolding QuoteFloor_def quotes_as_nat using unat_word_of_nat floor_le_ceil [of b p] by auto

lemma ceilQuote_mono: "b \<le> b' \<Longrightarrow> ceilQuote b p \<le> ceilQuote b' p"
  unfolding ceilQuote_def by (intro div_le_mono add_right_mono mult_right_mono) (simp_all add: word_le_nat_alt)

text \<open>What a fill pays and what the rest must still lock never exceed the lock before the fill.\<close>

lemma fill_lock_le:
  assumes "b \<le> b'" "ceilQuote b' p < 2 ^ 256"
  shows "unat (QuoteFloor b p) + ceilQuote (b' - b) p \<le> ceilQuote b' p"
proof -
  have "unat (QuoteFloor b p) = unat b * unat p div 10 ^ 18"
    using assms ceilQuote_mono [OF assms(1), of p] by (intro QuoteFloor_exact) simp
  moreover have "unat b * unat p + unat (b' - b) * unat p = unat b' * unat p"
    using assms(1) by (simp add: unat_minus_exact word_le_nat_alt flip: distrib_right)
  ultimately show ?thesis
    using add_div_le [of "unat b * unat p" "10 ^ 18" "unat (b' - b) * unat p + (10 ^ 18 - 1)"]
    by (simp add: ceilQuote_def add.assoc [symmetric])
qed

section \<open>Swap-removal\<close>

lemma mset_swap_last:
  assumes "j < length xs"
  shows "add_mset (xs ! j) (mset (butlast (xs[j := last xs]))) = mset xs"
proof -
  have ne: "xs \<noteq> []" using assms by auto
  have "mset (xs[j := last xs]) = add_mset (last xs) (mset xs - {#xs ! j#})"
    using assms by (simp add: mset_update)
  moreover have "last (xs[j := last xs]) = last xs"
    using assms ne by (simp add: last_list_update)
  moreover have "mset ys = add_mset (last ys) (mset (butlast ys))" if "ys \<noteq> []" for ys :: "'a list"
    using that by (metis append_butlast_last_id mset.simps union_code mset_append add_mset_add_single)
  ultimately have "mset (butlast (xs[j := last xs])) = mset xs - {#xs ! j#}"
    using ne by (metis add_mset_add_single add_right_cancel list_update_nonempty)
  then show ?thesis using assms by simp
qed

lemma swapRemove_distinct:
  assumes "distinct xs"
  shows "distinct (swapRemove x xs) \<and> set (swapRemove x xs) = set xs - {x}"
proof (cases "find (\<lambda>j. xs ! j = x) [0..<length xs]")
  case None
  then have "x \<notin> set xs" by (auto simp: find_None_iff in_set_conv_nth)
  then show ?thesis using assms None by (simp add: swapRemove_def)
next
  case (Some j)
  then have j: "j < length xs" "xs ! j = x" by (auto simp: find_Some_iff)
  let ?ys = "butlast (xs[j := last xs])"
  have m: "add_mset x (mset ?ys) = mset xs" using mset_swap_last [OF j(1)] j(2) by simp
  then have "distinct (x # ?ys)" using assms by (metis mset.simps(2) mset_eq_imp_distinct_iff)
  moreover have "set (x # ?ys) = set xs" using m by (metis mset.simps(2) mset_eq_setD)
  ultimately show ?thesis using Some by (auto simp: swapRemove_def)
qed

section \<open>The invariant\<close>

definition liveO :: "Order \<Rightarrow> bool" where
  "liveO ord \<longleftrightarrow> oMaker ord \<noteq> 0 \<and> oStatus ord = OrderStatusOpen"

definition lockOf :: "Order \<Rightarrow> nat" where "lockOf ord = ceilQuote (oBaseOpen ord) (oPriceX18 ord)"

definition cCount :: "address \<Rightarrow> Order \<Rightarrow> nat" where
  "cCount m ord = (if liveO ord \<and> oMaker ord = m then 1 else 0)"

definition cBase :: "address \<Rightarrow> address \<Rightarrow> Order \<Rightarrow> nat" where
  "cBase m t ord = (if liveO ord \<and> oMaker ord = m \<and> oBaseToken ord = t \<and> oSide ord \<noteq> OrderSideBuy
     then unat (oBaseOpen ord) else 0)"

definition cQuote :: "address \<Rightarrow> Order \<Rightarrow> nat" where
  "cQuote m ord = (if liveO ord \<and> oMaker ord = m \<and> oSide ord = OrderSideBuy then lockOf ord else 0)"

definition bookSum :: "(Order \<Rightarrow> nat) \<Rightarrow> book \<Rightarrow> nat" where
  "bookSum f B = (\<Sum>i\<in>UNIV. f (bkOrders B i))"

definition ids_inv :: "address set \<Rightarrow> book \<Rightarrow> bool" where
  "ids_inv A B \<longleftrightarrow> (\<forall>i. (i = 0 \<or> bkNext B < i \<longrightarrow> oMaker (bkOrders B i) = 0) \<and>
     (0 < i \<and> i \<le> bkNext B \<longrightarrow> oMaker (bkOrders B i) \<in> A - {0} \<and> oBaseToken (bkOrders B i) \<in> A \<and> oID (bkOrders B i) = i))"

definition sizes_inv :: "book \<Rightarrow> bool" where
  "sizes_inv B \<longleftrightarrow> (\<forall>i. liveO (bkOrders B i) \<longrightarrow> oBaseOpen (bkOrders B i) \<noteq> 0 \<and> oPriceX18 (bkOrders B i) \<noteq> 0 \<and>
     (oSide (bkOrders B i) = OrderSideBuy \<longrightarrow> lockOf (bkOrders B i) < 2 ^ 256))"

definition count_inv :: "book \<Rightarrow> bool" where
  "count_inv B \<longleftrightarrow> (\<forall>m. unat (bkCount B m) = bookSum (cCount m) B \<and> bkCount B m \<le> OrderbookMaxOpenPerMaker)"

definition base_inv :: "nat \<Rightarrow> book \<Rightarrow> bool" where
  "base_inv S B \<longleftrightarrow> (\<forall>m t. unat (bkEscB B m t) = bookSum (cBase m t) B \<and> unat (bkEscB B m t) \<le> S)"

definition quote_inv :: "nat \<Rightarrow> book \<Rightarrow> bool" where
  "quote_inv S B \<longleftrightarrow> (\<forall>m. bookSum (cQuote m) B \<le> unat (bkEscQ B m) \<and> unat (bkEscQ B m) \<le> S)"

definition index_inv :: "book \<Rightarrow> bool" where
  "index_inv B \<longleftrightarrow> (\<forall>t sd. distinct (bkIndex B t sd) \<and> set (bkIndex B t sd) =
     {i. liveO (bkOrders B i) \<and> oBaseToken (bkOrders B i) = t \<and> oSide (bkOrders B i) = sd})"

definition book_inv :: "address set \<Rightarrow> nat \<Rightarrow> nat \<Rightarrow> book \<Rightarrow> bool" where
  "book_inv A n S B \<longleftrightarrow> unat (bkNext B) \<le> n \<and> ids_inv A B \<and> sizes_inv B \<and> count_inv B \<and> base_inv S B \<and>
     quote_inv S B \<and> index_inv B"

lemmas book_invs = ids_inv_def sizes_inv_def count_inv_def base_inv_def quote_inv_def index_inv_def

lemma ids_live: "ids_inv A B \<Longrightarrow> liveO (bkOrders B i) \<Longrightarrow> 0 < i \<and> i \<le> bkNext B"
  unfolding ids_inv_def liveO_def by (metis not_less word_neq_0_conv)

lemma bookSum_update:
  assumes "bkOrders B' = (bkOrders B)(i := ord)"
  shows "bookSum f B' + f (bkOrders B i) = bookSum f B + f ord"
proof -
  have "bookSum f B = f (bkOrders B i) + (\<Sum>j\<in>UNIV - {i}. f (bkOrders B j))"
    unfolding bookSum_def by (rule sum.remove) simp_all
  moreover have "bookSum f B' = f ord + (\<Sum>j\<in>UNIV - {i}. f (bkOrders B j))"
    unfolding bookSum_def assms by (subst sum.remove [of _ i]) simp_all
  ultimately show ?thesis by simp
qed

lemma bookSum_ge: "f (bkOrders B i) \<le> bookSum f B"
  unfolding bookSum_def by (rule member_le_sum) simp_all


section \<open>Placing an order\<close>

lemma place_orders: "bkOrders (bookPlace m t sd p b bn B) = (bkOrders B)(bkNext B + 1 := newOrder (bkNext B + 1) m t sd p b bn)"
  by (simp add: bookPlace_def Let_def)

lemma place_fields:
  "bkNext (bookPlace m t sd p b bn B) = bkNext B + 1"
  "bkCount (bookPlace m t sd p b bn B) = (bkCount B)(m := bkCount B m + 1)"
  "bkEscQ (bookPlace m t sd p b bn B) a =
     (if sd = OrderSideBuy \<and> a = m then bkEscQ B m + QuoteLockCeil b p else bkEscQ B a)"
  "bkEscB (bookPlace m t sd p b bn B) a u =
     (if sd \<noteq> OrderSideBuy \<and> a = m \<and> u = t then bkEscB B m t + b else bkEscB B a u)"
  "bkIndex (bookPlace m t sd p b bn B) u sd' =
     (if u = t \<and> sd' = sd then bkIndex B t sd @ [bkNext B + 1] else bkIndex B u sd')"
  by (simp_all add: bookPlace_def Let_def)

lemma newOrder_simps [simp]:
  "oMaker (newOrder i m t sd p b bn) = m" "oBaseToken (newOrder i m t sd p b bn) = t" "oSide (newOrder i m t sd p b bn) = sd"
  "oPriceX18 (newOrder i m t sd p b bn) = p" "oBaseOpen (newOrder i m t sd p b bn) = b" "oID (newOrder i m t sd p b bn) = i"
  "oStatus (newOrder i m t sd p b bn) = OrderStatusOpen" "liveO (newOrder i m t sd p b bn) \<longleftrightarrow> m \<noteq> 0"
  by (simp_all add: newOrder_def liveO_def)

definition placeAmt :: "byte \<Rightarrow> u256 \<Rightarrow> u256 \<Rightarrow> nat" where
  "placeAmt sd p b = (if sd = OrderSideBuy then ceilQuote b p else unat b)"

lemma place_inv:
  assumes inv: "book_inv A n S B" and inA: "m \<in> A" "t \<in> A" and n: "n < 2 ^ 64 - 1"
    and err: "placeError m t sd p b B = None" and S: "S + placeAmt sd p b < 2 ^ 256"
  shows "book_inv A (Suc n) (S + placeAmt sd p b) (bookPlace m t sd p b bn B)"
proof -
  let ?i = "bkNext B + 1" and ?B = "bookPlace m t sd p b bn B"
  have ok: "m \<noteq> 0" "p \<noteq> 0" "b \<noteq> 0" "bkCount B m < OrderbookMaxOpenPerMaker"
    using err by (auto simp: placeError_def split: if_splits)
  have i: "unat ?i = Suc (unat (bkNext B))"
    using inv n by (simp add: book_inv_def unat_plus_exact)
  then have i0: "?i \<noteq> 0" by (metis unat_0 nat.distinct(1))
  have lt: "j \<le> ?i \<longleftrightarrow> j \<le> bkNext B \<or> j = ?i" "?i < j \<longleftrightarrow> bkNext B < j \<and> j \<noteq> ?i" "bkNext B < ?i" for j
    using i by (auto simp: word_le_nat_alt word_less_nat_alt word_unat_eq_iff)
  have dead: "oMaker (bkOrders B ?i) = 0"
    using inv lt(3) by (auto simp: book_inv_def ids_inv_def)
  then have zero: "cCount a (bkOrders B ?i) = 0" "cBase a u (bkOrders B ?i) = 0" "cQuote a (bkOrders B ?i) = 0" for a u
    by (simp_all add: cCount_def cBase_def cQuote_def liveO_def)
  have tot: "bookSum (cCount a) ?B = bookSum (cCount a) B + (if a = m then 1 else 0)"
    "bookSum (cBase a u) ?B = bookSum (cBase a u) B + (if sd \<noteq> OrderSideBuy \<and> a = m \<and> u = t then unat b else 0)"
    "bookSum (cQuote a) ?B = bookSum (cQuote a) B + (if sd = OrderSideBuy \<and> a = m then ceilQuote b p else 0)" for a u
    using ok(1) bookSum_update [OF place_orders, of _ m t sd p b bn B, of "cCount a"]
      bookSum_update [OF place_orders, of _ m t sd p b bn B, of "cBase a u"]
      bookSum_update [OF place_orders, of _ m t sd p b bn B, of "cQuote a"]
    by (simp_all add: zero) (simp_all add: cCount_def cBase_def cQuote_def lockOf_def)
  have "unat (bkNext ?B) \<le> Suc n" using inv i by (simp add: book_inv_def place_fields)
  moreover have "ids_inv A ?B"
    using inv inA i0 ok(1) by (auto simp: book_inv_def ids_inv_def place_orders place_fields lt)
  moreover have "sizes_inv ?B"
    using inv ok S by (auto simp: book_inv_def sizes_inv_def place_orders lockOf_def placeAmt_def)
  moreover have "count_inv ?B"
  proof -
    have "unat (bkCount B m + 1) = Suc (unat (bkCount B m))" "bkCount B m + 1 \<le> OrderbookMaxOpenPerMaker"
      using ok(4) by (simp_all add: OrderbookMaxOpenPerMaker_def unat_plus_exact word_le_nat_alt word_less_nat_alt)
    then show ?thesis
      using inv by (simp add: book_inv_def count_inv_def tot place_fields)
  qed
  moreover have "base_inv (S + placeAmt sd p b) ?B"
  proof -
    have esc: "unat (bkEscB B a u) = bookSum (cBase a u) B" "unat (bkEscB B a u) \<le> S" for a u
      using inv unfolding book_inv_def base_inv_def by blast+
    moreover have "unat (bkEscB B m t + b) = unat (bkEscB B m t) + unat b" if "sd \<noteq> OrderSideBuy"
      using esc(2) [of m t] S that by (intro unat_plus_exact) (simp add: placeAmt_def)
    ultimately show ?thesis by (auto simp: base_inv_def tot place_fields placeAmt_def trans_le_add1)
  qed
  moreover have "quote_inv (S + placeAmt sd p b) ?B"
  proof -
    have "unat (bkEscQ B m + QuoteLockCeil b p) = unat (bkEscQ B m) + ceilQuote b p" if "sd = OrderSideBuy"
    proof -
      have "unat (QuoteLockCeil b p) = ceilQuote b p"
        using S that by (intro QuoteLockCeil_exact) (simp add: placeAmt_def)
      moreover have "unat (bkEscQ B m) \<le> S" using inv by (simp add: book_inv_def quote_inv_def)
      ultimately show ?thesis using S that by (subst unat_plus_exact) (simp_all add: placeAmt_def)
    qed
    moreover have "bookSum (cQuote a) B \<le> unat (bkEscQ B a)" "unat (bkEscQ B a) \<le> S" for a
      using inv unfolding book_inv_def quote_inv_def by blast+
    ultimately show ?thesis by (auto simp: quote_inv_def tot place_fields placeAmt_def trans_le_add1)
  qed
  moreover have "index_inv ?B"
    using inv dead ok(1) by (auto simp: book_inv_def index_inv_def place_orders place_fields liveO_def)
  ultimately show ?thesis by (simp add: book_inv_def)
qed


section \<open>Taking from an order\<close>

definition settle :: "Order \<Rightarrow> Order \<Rightarrow> book \<Rightarrow> book" where
  "settle ord ord' B = (if liveO ord' then bookPut ord' B else bookClose ord (bookPut ord' B))"

lemma pay_covered:
  assumes inv: "book_inv A n S B" and ord: "ord = bkOrders B i" "liveO ord"
    and q: "oSide ord = OrderSideBuy \<Longrightarrow> unat q \<le> lockOf ord" and b: "oSide ord \<noteq> OrderSideBuy \<Longrightarrow> b \<le> oBaseOpen ord"
  obtains B1 where "bookPay ord q b B = Inr B1"
proof -
  have "bookSum (cQuote (oMaker ord)) B \<le> unat (bkEscQ B (oMaker ord))"
    "unat (bkEscB B (oMaker ord) (oBaseToken ord)) = bookSum (cBase (oMaker ord) (oBaseToken ord)) B"
    using inv unfolding book_inv_def quote_inv_def base_inv_def by blast+
  then have "q \<le> bkEscQ B (oMaker ord)" if "oSide ord = OrderSideBuy"
    using that q ord bookSum_ge [of "cQuote (oMaker ord)" B i] by (simp add: cQuote_def word_le_nat_alt)
  moreover have "b \<le> bkEscB B (oMaker ord) (oBaseToken ord)" if "oSide ord \<noteq> OrderSideBuy"
    using that b ord bookSum_ge [of "cBase (oMaker ord) (oBaseToken ord)" B i]
      \<open>unat (bkEscB B (oMaker ord) (oBaseToken ord)) = bookSum (cBase (oMaker ord) (oBaseToken ord)) B\<close>
    by (simp add: cBase_def word_le_nat_alt)
  ultimately have "\<exists>B1. bookPay ord q b B = Inr B1"
    by (cases "oSide ord = OrderSideBuy") (simp_all add: bookPay_def not_less)
  then show ?thesis using that by blast
qed

lemma pay_fields:
  assumes "bookPay ord q b B = Inr B1"
  shows "bkNext B1 = bkNext B" "bkOrders B1 = bkOrders B" "bkCount B1 = bkCount B" "bkIndex B1 = bkIndex B"
    "unat (bkEscQ B1 a) = unat (bkEscQ B a) - (if oSide ord = OrderSideBuy \<and> a = oMaker ord then unat q else 0)"
    "unat (bkEscB B1 a u) = unat (bkEscB B a u) -
       (if oSide ord \<noteq> OrderSideBuy \<and> a = oMaker ord \<and> u = oBaseToken ord then unat b else 0)"
  using assms by (auto simp: bookPay_def not_less unat_minus_exact word_le_nat_alt split: if_splits)

lemma settle_fields:
  "bkNext (settle ord ord' B) = bkNext B" "bkOrders (settle ord ord' B) = (bkOrders B)(oID ord' := ord')"
  "bkEscQ (settle ord ord' B) = bkEscQ B" "bkEscB (settle ord ord' B) = bkEscB B"
  "bkCount (settle ord ord' B) a = (if \<not> liveO ord' \<and> a = oMaker ord \<and> bkCount B a \<noteq> 0 then bkCount B a - 1 else bkCount B a)"
  "bkIndex (settle ord ord' B) u sd = (if \<not> liveO ord' \<and> u = oBaseToken ord \<and> sd = oSide ord
     then swapRemove (oID ord) (bkIndex B u sd) else bkIndex B u sd)"
  by (auto simp: settle_def bookPut_def bookClose_def)

lemma settle_inv:
  assumes inv: "book_inv A n S B" and ord: "ord = bkOrders B i" "liveO ord" and pay: "bookPay ord q b B = Inr B1"
    and ord': "ord' = ord\<lparr>oStatus := st, oBaseOpen := x\<rparr>"
    and x: "liveO ord' \<Longrightarrow> x \<noteq> 0 \<and> x \<le> oBaseOpen ord"
    and q: "oSide ord = OrderSideBuy \<Longrightarrow> unat q + (if liveO ord' then ceilQuote x (oPriceX18 ord) else 0) \<le> lockOf ord"
    and b: "oSide ord \<noteq> OrderSideBuy \<Longrightarrow> unat b + (if liveO ord' then unat x else 0) = unat (oBaseOpen ord)"
  shows "book_inv A n S (settle ord ord' B1)"
proof -
  let ?B = "settle ord ord' B1" and ?m = "oMaker ord" and ?t = "oBaseToken ord"
  have ids: "ids_inv A B" using inv by (simp add: book_inv_def)
  have i: "0 < i" "i \<le> bkNext B" using ids_live [OF ids] ord by auto
  then have oid: "oID ord = i" "?m \<in> A - {0}" "?t \<in> A" using ids ord by (auto simp: ids_inv_def)
  have bi: "bkOrders B i = ord" by (simp add: ord)
  note [simp] = bi
  have fields: "oID ord' = i" "oMaker ord' = ?m" "oBaseToken ord' = ?t" "oSide ord' = oSide ord" "oPriceX18 ord' = oPriceX18 ord"
      "oBaseOpen ord' = x"
    using ord' oid by simp_all
  have upd: "bkOrders ?B = (bkOrders B)(i := ord')" by (simp add: settle_fields pay_fields [OF pay] fields)
  note sums = bookSum_update [OF upd, folded ord(1)]
  have "unat (bkNext ?B) \<le> n" using inv by (simp add: book_inv_def settle_fields pay_fields [OF pay])
  moreover have "ids_inv A ?B"
    using ids oid i by (auto simp: ids_inv_def upd settle_fields(1) pay_fields(1) [OF pay] fields)
  moreover have "sizes_inv ?B"
  proof -
    have sz: "oPriceX18 ord \<noteq> 0 \<and> (oSide ord = OrderSideBuy \<longrightarrow> lockOf ord < 2 ^ 256)"
      using inv ord(2) bi unfolding book_inv_def sizes_inv_def by metis
    have "lockOf ord' < 2 ^ 256" if "liveO ord'" "oSide ord = OrderSideBuy"
    proof -
      have "lockOf ord < 2 ^ 256" using sz that by simp
      moreover have "lockOf ord' \<le> lockOf ord" using x [OF that(1)] ceilQuote_mono by (simp add: lockOf_def fields)
      ultimately show ?thesis by simp
    qed
    then show ?thesis using inv sz x by (simp add: book_inv_def sizes_inv_def upd fields)
  qed
  moreover have "count_inv ?B"
  proof -
    have c: "unat (bkCount B a) = bookSum (cCount a) B" "bkCount B a \<le> OrderbookMaxOpenPerMaker" for a
      using inv unfolding book_inv_def count_inv_def by blast+
    have pos: "0 < unat (bkCount B ?m)"
      using c(1) [of ?m] bookSum_ge [of "cCount ?m" B i] ord(2) by (simp add: cCount_def)
    have "unat (bkCount B ?m - 1) = unat (bkCount B ?m) - 1" "bkCount B ?m - 1 \<le> bkCount B ?m"
      using pos by (simp_all add: unat_minus_exact word_le_nat_alt)
    moreover have "bookSum (cCount a) ?B = bookSum (cCount a) B - (if \<not> liveO ord' \<and> a = ?m then 1 else 0)" for a
      using sums [of "cCount a"] ord(2) by (auto simp: cCount_def fields split: if_splits)
    ultimately show ?thesis
      using c pos by (auto simp: count_inv_def settle_fields(5) pay_fields [OF pay] intro: order_trans)
  qed
  moreover have "base_inv S ?B"
  proof -
    have esc: "unat (bkEscB B a u) = bookSum (cBase a u) B \<and> unat (bkEscB B a u) \<le> S" for a u
      using inv unfolding book_inv_def base_inv_def by blast
    have new: "bookSum (cBase a u) ?B + (if oSide ord \<noteq> OrderSideBuy \<and> a = ?m \<and> u = ?t then unat b else 0) =
        bookSum (cBase a u) B" for a u
    proof (cases "oSide ord \<noteq> OrderSideBuy \<and> a = ?m \<and> u = ?t")
      case True
      then have "cBase a u ord = unat (oBaseOpen ord)" "cBase a u ord' = (if liveO ord' then unat x else 0)"
        using ord(2) by (simp_all add: cBase_def fields)
      then show ?thesis unfolding if_P [OF True] using sums [of "cBase a u"] b [OF conjunct1 [OF True]] by linarith
    next
      case False
      then have "cBase a u ord = 0" "cBase a u ord' = 0" by (auto simp: cBase_def fields)
      then show ?thesis unfolding if_not_P [OF False] using sums [of "cBase a u"] by simp
    qed
    show ?thesis
      unfolding base_inv_def settle_fields pay_fields [OF pay]
    proof (intro allI)
      show "unat (bkEscB B a u) - (if oSide ord \<noteq> OrderSideBuy \<and> a = ?m \<and> u = ?t then unat b else 0) = bookSum (cBase a u) ?B \<and>
          unat (bkEscB B a u) - (if oSide ord \<noteq> OrderSideBuy \<and> a = ?m \<and> u = ?t then unat b else 0) \<le> S" for a u
        using esc [of a u] new [of a u] by linarith
    qed
  qed
  moreover have "quote_inv S ?B"
  proof -
    have esc: "bookSum (cQuote a) B \<le> unat (bkEscQ B a) \<and> unat (bkEscQ B a) \<le> S" for a
      using inv unfolding book_inv_def quote_inv_def by blast
    have new: "bookSum (cQuote a) ?B + (if oSide ord = OrderSideBuy \<and> a = ?m then unat q else 0) \<le> bookSum (cQuote a) B" for a
    proof (cases "oSide ord = OrderSideBuy \<and> a = ?m")
      case True
      then have "cQuote a ord = lockOf ord" "cQuote a ord' = (if liveO ord' then ceilQuote x (oPriceX18 ord) else 0)"
        using ord(2) by (simp_all add: cQuote_def fields lockOf_def)
      then show ?thesis unfolding if_P [OF True] using sums [of "cQuote a"] q [OF conjunct1 [OF True]] by linarith
    next
      case False
      then have "cQuote a ord = 0" "cQuote a ord' = 0" by (auto simp: cQuote_def fields)
      then show ?thesis unfolding if_not_P [OF False] using sums [of "cQuote a"] by simp
    qed
    show ?thesis
      unfolding quote_inv_def settle_fields pay_fields [OF pay]
    proof (intro allI)
      show "bookSum (cQuote a) ?B \<le> unat (bkEscQ B a) - (if oSide ord = OrderSideBuy \<and> a = ?m then unat q else 0) \<and>
          unat (bkEscQ B a) - (if oSide ord = OrderSideBuy \<and> a = ?m then unat q else 0) \<le> S" for a
        using esc [of a] new [of a] by linarith
    qed
  qed
  moreover have "index_inv ?B"
  proof -
    have idx: "distinct (bkIndex B u sd)" "set (bkIndex B u sd) =
        {j. liveO (bkOrders B j) \<and> oBaseToken (bkOrders B j) = u \<and> oSide (bkOrders B j) = sd}" for u sd
      using inv unfolding book_inv_def index_inv_def by blast+
    have "distinct (swapRemove i (bkIndex B u sd))" "set (swapRemove i (bkIndex B u sd)) = set (bkIndex B u sd) - {i}" for u sd
      using swapRemove_distinct [OF idx(1)] by blast+
    then show ?thesis
      using ord(2) by (auto simp: index_inv_def upd settle_fields(6) pay_fields [OF pay] fields oid(1) idx split: if_splits)
  qed
  ultimately show ?thesis by (simp add: book_inv_def)
qed


section \<open>Steps and runs\<close>

lemma book_inv_mono: "book_inv A n S B \<Longrightarrow> n \<le> n' \<Longrightarrow> S \<le> S' \<Longrightarrow> book_inv A n' S' B"
  unfolding book_inv_def base_inv_def quote_inv_def by (meson le_trans)

lemma bookFind_live:
  assumes "ids_inv A B"
  shows "bookFind B i = Some ord \<and> oStatus ord = OrderStatusOpen \<longleftrightarrow> ord = bkOrders B i \<and> liveO ord"
proof -
  have "0 < i \<Longrightarrow> i \<le> bkNext B \<Longrightarrow> oMaker (bkOrders B i) \<noteq> 0" using assms by (simp add: ids_inv_def)
  moreover have "0 < i \<and> i \<le> bkNext B" if "liveO (bkOrders B i)" using ids_live [OF assms that] .
  ultimately show ?thesis by (auto simp: bookFind_def Let_def liveO_def not_less word_gt_0)
qed

lemma status_codes: "OrderStatusCancelled \<noteq> OrderStatusOpen" "OrderStatusFilled \<noteq> OrderStatusOpen"
  by (simp_all add: OrderStatusCancelled_def OrderStatusOpen_def OrderStatusFilled_def)

text \<open>The maker of an open order can always cancel it, and gets back exactly what the order still locks.\<close>

lemma cancel_step:
  assumes inv: "book_inv A n S B" and ord: "ord = bkOrders B i" "liveO ord"
  obtains B' where "bookStep (OCancel (oMaker ord) i) B =
      (ORefunded \<lparr>rQuote = (if oSide ord = OrderSideBuy then QuoteLockCeil (oBaseOpen ord) (oPriceX18 ord) else 0),
          rBase = (if oSide ord = OrderSideBuy then 0 else oBaseOpen ord), rToken = oBaseToken ord, rSide = oSide ord\<rparr>, B')"
    "book_inv A n S B'"
proof -
  have ids: "ids_inv A B" and sz: "sizes_inv B" and qi: "quote_inv S B" using inv by (simp_all add: book_inv_def)
  let ?q = "QuoteLockCeil (oBaseOpen ord) (oPriceX18 ord)"
  have find: "bookFind B i = Some ord" "oStatus ord = OrderStatusOpen" using bookFind_live [OF ids] ord by auto
  have q: "unat ?q = lockOf ord \<and> ?q \<le> bkEscQ B (oMaker ord)" if "oSide ord = OrderSideBuy"
  proof -
    have "lockOf ord < 2 ^ 256" using sz ord that unfolding sizes_inv_def by blast
    then have "unat ?q = lockOf ord" by (simp add: lockOf_def QuoteLockCeil_exact)
    moreover have "lockOf ord \<le> bookSum (cQuote (oMaker ord)) B"
      using bookSum_ge [of "cQuote (oMaker ord)" B i] ord that by (simp add: cQuote_def)
    moreover have "bookSum (cQuote (oMaker ord)) B \<le> unat (bkEscQ B (oMaker ord))" using qi by (simp add: quote_inv_def)
    ultimately show ?thesis by (simp add: word_le_nat_alt)
  qed
  let ?m = "min ?q (bkEscQ B (oMaker ord))"
  have m: "?m = ?q" if "oSide ord = OrderSideBuy" using q [OF that] by (simp add: min_def)
  obtain B1 where pay: "bookPay ord ?m (oBaseOpen ord) B = Inr B1"
    using q m by (elim pay_covered [OF inv ord, rotated 2]) simp_all
  let ?ord = "ord\<lparr>oStatus := OrderStatusCancelled, oBaseOpen := 0\<rparr>"
  have dead: "\<not> liveO ?ord" by (simp add: liveO_def status_codes)
  have "book_inv A n S (settle ord ?ord B1)"
    by (rule settle_inv [OF inv ord pay refl]) (simp_all add: dead m q)
  moreover have "settle ord ?ord B1 = bookClose ord (bookPut ?ord B1)" by (simp add: settle_def dead)
  ultimately show ?thesis using pay find m by (intro that) (auto simp: Let_def)
qed

text \<open>An open order can be filled by anyone, up to its open size, at its price.\<close>

lemma fill_step:
  assumes inv: "book_inv A n S B" and ord: "ord = bkOrders B i" "liveO ord" and tk: "taker \<noteq> 0" "mx \<noteq> 0"
  obtains B' where "bookStep (OFill taker i mx) B =
      (OTraded (min mx (oBaseOpen ord)) (QuoteFloor (min mx (oBaseOpen ord)) (oPriceX18 ord)), B')"
    "book_inv A n S B'"
proof -
  have ids: "ids_inv A B" and sz: "sizes_inv B" using inv by (simp_all add: book_inv_def)
  define b where "b = min mx (oBaseOpen ord)"
  let ?q = "QuoteFloor b (oPriceX18 ord)"
  have find: "bookFind B i = Some ord" "oStatus ord = OrderStatusOpen" using bookFind_live [OF ids] ord by auto
  have b: "b \<le> oBaseOpen ord" by (simp add: b_def)
  then have ub: "unat (oBaseOpen ord - b) = unat (oBaseOpen ord) - unat b" "unat b \<le> unat (oBaseOpen ord)"
    by (simp_all add: unat_minus_exact word_le_nat_alt)
  have q: "unat ?q + ceilQuote (oBaseOpen ord - b) (oPriceX18 ord) \<le> lockOf ord" if "oSide ord = OrderSideBuy"
    using sz ord that fill_lock_le [OF b, of "oPriceX18 ord"] unfolding sizes_inv_def lockOf_def by blast
  obtain B1 where pay: "bookPay ord ?q b B = Inr B1"
    using q b by (elim pay_covered [OF inv ord, rotated 2]) force+
  let ?ord = "ord\<lparr>oStatus := (if oBaseOpen ord - b = 0 then OrderStatusFilled else oStatus ord), oBaseOpen := oBaseOpen ord - b\<rparr>"
  have live: "liveO ?ord \<longleftrightarrow> oBaseOpen ord - b \<noteq> 0" using ord(2) by (simp add: liveO_def status_codes)
  have "book_inv A n S (settle ord ?ord B1)"
  proof (rule settle_inv [OF inv ord pay refl])
    show "liveO ?ord \<Longrightarrow> oBaseOpen ord - b \<noteq> 0 \<and> oBaseOpen ord - b \<le> oBaseOpen ord"
      using live ub by (auto simp: word_le_nat_alt)
    show "oSide ord = OrderSideBuy \<Longrightarrow>
        unat ?q + (if liveO ?ord then ceilQuote (oBaseOpen ord - b) (oPriceX18 ord) else 0) \<le> lockOf ord"
      using q by force
    show "unat b + (if liveO ?ord then unat (oBaseOpen ord - b) else 0) = unat (oBaseOpen ord)"
      using live ub by auto
  qed
  moreover have "settle ord ?ord B1 = (if oBaseOpen ord - b = 0
      then bookPut (ord\<lparr>oStatus := OrderStatusFilled, oBaseOpen := 0\<rparr>) (bookClose ord B1)
      else bookPut (ord\<lparr>oBaseOpen := oBaseOpen ord - b\<rparr>) B1)"
    unfolding settle_def live
    by (cases "oBaseOpen ord - b = 0") (simp_all add: status_same, simp add: bookPut_def bookClose_def)
  ultimately show ?thesis using pay find tk by (intro that) (auto simp: Let_def b_def)
qed

end
