(* ===== verification/OrderbookProps.thy ===== *)
theory OrderbookProps
  imports OrderbookInv
begin

text \<open>
  Properties of runs of order book operations: the storage implements the abstract book, counts and
  escrow stay exact, open orders can always be cancelled and filled, and the best quotes are best.
\<close>

section \<open>Runs\<close>

fun opAmt :: "obOp \<Rightarrow> nat" where
  "opAmt (OBuy m t p b bn) = ceilQuote b p" | "opAmt (OSell m t p b bn) = unat b" | "opAmt _ = 0"

lemma side_codes: "OrderSideSell \<noteq> OrderSideBuy"
  by (simp add: OrderSideSell_def OrderSideBuy_def)

lemma step_inv:
  assumes inv: "book_inv A n S B" and inA: "obOpIn A op" and n: "n < 2 ^ 64 - 1" and S: "S + opAmt op < 2 ^ 256"
  shows "book_inv A (Suc n) (S + opAmt op) (snd (bookStep op B))"
proof -
  have keep: "book_inv A (Suc n) (S + opAmt op) B" by (rule book_inv_mono [OF inv]) simp_all
  have ids: "ids_inv A B" using inv by (simp add: book_inv_def)
  have found: "ord = bkOrders B i \<and> liveO (bkOrders B i)" if "bookFind B i = Some ord" "oStatus ord = OrderStatusOpen" for i ord
    using bookFind_live [OF ids, of i ord] that by blast
  show ?thesis
  proof (cases op)
    case (OBuy m t p b bn)
    then show ?thesis
      using keep place_inv [OF inv _ _ n, of m t OrderSideBuy p b bn] inA S
      by (simp add: placeAmt_def split: option.split)
  next
    case (OSell m t p b bn)
    then show ?thesis
      using keep place_inv [OF inv _ _ n, of m t OrderSideSell p b bn] inA S
      by (simp add: placeAmt_def side_codes split: option.split)
  next
    case (OCancel a i)
    show ?thesis
    proof (cases "liveO (bkOrders B i) \<and> a = oMaker (bkOrders B i)")
      case True
      then obtain B' where "snd (bookStep op B) = B'" "book_inv A n S B'"
        unfolding OCancel by (metis cancel_step [OF inv refl] snd_conv)
      then show ?thesis using book_inv_mono by (metis le_add1 le_SucI order_refl)
    next
      case False
      then have "snd (bookStep op B) = B" using found [of i] by (cases "bookFind B i") (auto simp: OCancel)
      then show ?thesis using keep by simp
    qed
  next
    case (OFill a i mx)
    show ?thesis
    proof (cases "liveO (bkOrders B i) \<and> a \<noteq> 0 \<and> mx \<noteq> 0")
      case True
      then obtain B' where "snd (bookStep op B) = B'" "book_inv A n S B'"
        unfolding OFill by (metis fill_step [OF inv refl] snd_conv)
      then show ?thesis using book_inv_mono by (metis le_add1 le_SucI order_refl)
    next
      case False
      then have "snd (bookStep op B) = B" using found [of i] by (cases "bookFind B i") (auto simp: OFill)
      then show ?thesis using keep by simp
    qed
  qed
qed

lemma book_inv_ok:
  assumes inv: "book_inv A n S B" and n: "n < 2 ^ 64 - 1"
  shows "book_ok A B"
proof -
  have ids: "ids_inv A B" using inv by (simp add: book_inv_def)
  have "length (bkIndex B t sd) < 2 ^ 64 - 1" for t sd
  proof -
    have d: "distinct (bkIndex B t sd)" "set (bkIndex B t sd) \<subseteq> {i. 0 < i \<and> i \<le> bkNext B}"
      using inv ids_live [OF ids] unfolding book_inv_def index_inv_def by blast+
    have "unat ` {i. 0 < i \<and> i \<le> bkNext B} \<subseteq> {0<..unat (bkNext B)}"
      by (auto simp: word_le_nat_alt word_less_nat_alt)
    then have "card {i. 0 < i \<and> i \<le> bkNext B} \<le> unat (bkNext B)"
      using card_inj_on_le [of unat "{i. 0 < i \<and> i \<le> bkNext B}" "{0<..unat (bkNext B)}"] by (simp add: inj_on_def word_unat_eq_iff)
    moreover have "length (bkIndex B t sd) = card (set (bkIndex B t sd))" using d(1) by (simp add: distinct_card)
    moreover have "card (set (bkIndex B t sd)) \<le> card {i. 0 < i \<and> i \<le> bkNext B}" using d(2) by (intro card_mono) simp_all
    moreover have "unat (bkNext B) \<le> n" using inv by (simp add: book_inv_def)
    ultimately show ?thesis using n by linarith
  qed
  then show ?thesis using ids by (auto simp: book_ok_def ids_inv_def)
qed

definition obExecs :: "('key, 'z) stateLib_scheme \<Rightarrow> obOp list \<Rightarrow> StateDB \<Rightarrow> StateDB" where
  "obExecs c ops s = fold (\<lambda>op. exec (obRun c op)) ops s"

fun obOuts :: "('key, 'z) stateLib_scheme \<Rightarrow> obOp list \<Rightarrow> StateDB \<Rightarrow> obOut list" where
  "obOuts c [] s = []"
| "obOuts c (op # ops) s = result (obRun c op) s # obOuts c ops (exec (obRun c op) s)"

fun bookRun :: "obOp list \<Rightarrow> book \<Rightarrow> obOut list \<times> book" where
  "bookRun [] B = ([], B)"
| "bookRun (op # ops) B = (case bookStep op B of (out, B1) \<Rightarrow> case bookRun ops B1 of (outs, B2) \<Rightarrow> (out # outs, B2))"

lemma run_refines:
  assumes "ob_slots_ok c A" "list_all (obOpIn A) ops" "book_inv A n S (bookOf c A s)"
    "n + length ops < 2 ^ 64" "S + sum_list (map opAmt ops) < 2 ^ 256"
  shows "(obOuts c ops s, bookOf c A (obExecs c ops s)) = bookRun ops (bookOf c A s) \<and>
    book_inv A (n + length ops) (S + sum_list (map opAmt ops)) (bookOf c A (obExecs c ops s))"
  using assms(2-)
proof (induction ops arbitrary: n S s)
  case Nil
  then show ?case by (simp add: obExecs_def)
next
  case (Cons op ops)
  let ?s = "exec (obRun c op) s"
  have n: "n < 2 ^ 64 - 1" and inA: "obOpIn A op" and S: "S + opAmt op < 2 ^ 256" using Cons.prems by auto
  have ok: "book_ok A (bookOf c A s)" by (rule book_inv_ok [OF Cons.prems(2) n])
  note st = step_refines [OF assms(1) ok inA]
  have inv: "book_inv A (Suc n) (S + opAmt op) (bookOf c A ?s)"
    unfolding st by (rule step_inv [OF Cons.prems(2) inA n S])
  have "(obOuts c ops ?s, bookOf c A (obExecs c ops ?s)) = bookRun ops (bookOf c A ?s) \<and>
    book_inv A (Suc n + length ops) (S + opAmt op + sum_list (map opAmt ops)) (bookOf c A (obExecs c ops ?s))"
    using Cons.prems by (intro Cons.IH [OF _ inv]) simp_all
  then show ?case
    using st by (auto simp: obExecs_def add.assoc split: prod.split simp del: bookStep.simps)
qed

definition emptyOb :: "('key, 'z) stateLib_scheme \<Rightarrow> address set \<Rightarrow> StateDB \<Rightarrow> bool" where
  "emptyOb c A s \<longleftrightarrow> (\<forall>k. obKeyIn A k \<longrightarrow> obv c s k = 0)"

lemma emptyOb_inv:
  assumes "emptyOb c A s"
  shows "book_inv A 0 0 (bookOf c A s)"
proof -
  have z: "obKeyIn A k \<Longrightarrow> obv c s k = 0" for k using assms by (simp add: emptyOb_def)
  have "hashBytes 0 = replicate 32 0" by (simp add: hashBytes_def beBytes_0)
  moreover have "beNat (replicate k 0) = 0" for k by (induction k) (simp_all add: beNat_def)
  ultimately have mk: "oMaker (orderOf c s i) = 0" for i
    by (simp add: orderOf_def unpackOrder_def z bytesAddr_def Let_def)
  then have dead: "\<not> liveO (orderOf c s i)" for i by (simp add: liveO_def)
  show ?thesis
    by (simp add: book_inv_def book_invs bookOf_def z mk dead bookSum_def cCount_def cBase_def cQuote_def openIdx_def word_gt_0)
qed


section \<open>Properties of runs\<close>

lemma empty_run:
  assumes "ob_slots_ok c A" "emptyOb c A s" "list_all (obOpIn A) ops" "length ops < 2 ^ 64"
    "sum_list (map opAmt ops) < 2 ^ 256"
  shows "(obOuts c ops s, bookOf c A (obExecs c ops s)) = bookRun ops (bookOf c A s)"
    "book_inv A (length ops) (sum_list (map opAmt ops)) (bookOf c A (obExecs c ops s))"
  using run_refines [OF assms(1,3) emptyOb_inv [OF assms(2)]] assms(4,5) by simp_all

text \<open>C24: run from empty storage, every sequence of place, cancel and fill operations gives the
  outcomes of the abstract book and leaves in storage the book the abstract operations reach:
  the hashed slots, the rollback of the open count on a failed place and the swap-removal of
  index entries implement plain orders, accounts and lists.\<close>

theorem orderbook_refines_book:
  assumes "ob_slots_ok c A" "emptyOb c A s" "list_all (obOpIn A) ops" "length ops < 2 ^ 64"
    "sum_list (map opAmt ops) < 2 ^ 256"
  shows "bookRun ops (bookOf c A s) = (obOuts c ops s, bookOf c A (obExecs c ops s))"
  using empty_run [OF assms] by simp

text \<open>C25: after every run from an empty book in which the amounts of all calls (placed sizes and buy
  quotes) sum to less than \<^verbatim>\<open>2 ^ 256\<close>, so that no quote wraps, the open count of a maker is the number of
  their open orders and at most 64, the base escrow of a maker and token is the sum of the open sizes of their sell orders,
  and the quote escrow of a maker covers the rounded-up quotes of all their open buy orders.\<close>

theorem orderbook_accounts_exact:
  assumes "ob_slots_ok c A" "emptyOb c A s" "list_all (obOpIn A) ops" "length ops < 2 ^ 64"
    "sum_list (map opAmt ops) < 2 ^ 256" "m \<in> A" "t \<in> A"
  defines "s' \<equiv> obExecs c ops s"
  defines "open' \<equiv> {i. liveO (orderOf c s' i) \<and> oMaker (orderOf c s' i) = m}"
  shows "unat (result (OpenCount c m) s') = card open' \<and> card open' \<le> 64 \<and>
    unat (result (EscrowBase c m t) s') = (\<Sum>i | i \<in> open' \<and> oBaseToken (orderOf c s' i) = t \<and>
       oSide (orderOf c s' i) \<noteq> OrderSideBuy. unat (oBaseOpen (orderOf c s' i))) \<and>
    (\<Sum>i | i \<in> open' \<and> oSide (orderOf c s' i) = OrderSideBuy. lockOf (orderOf c s' i)) \<le> unat (result (EscrowQuote c m) s')"
proof -
  have inv: "book_inv A (length ops) (sum_list (map opAmt ops)) (bookOf c A s')"
    unfolding s'_def by (rule empty_run [OF assms(1-5)])
  have ord: "bkOrders (bookOf c A s') = orderOf c s'" by (simp add: bookOf_def)
  have cnt: "unat (bkCount (bookOf c A s') m) = bookSum (cCount m) (bookOf c A s')"
    "bkCount (bookOf c A s') m \<le> OrderbookMaxOpenPerMaker"
    and bas: "unat (bkEscB (bookOf c A s') m t) = bookSum (cBase m t) (bookOf c A s')"
    and quo: "bookSum (cQuote m) (bookOf c A s') \<le> unat (bkEscQ (bookOf c A s') m)"
    using inv unfolding book_inv_def count_inv_def base_inv_def quote_inv_def by blast+
  have sum_if: "(\<Sum>i\<in>UNIV. if P i then f i else 0) = (\<Sum>i | P i. f i)" for P and f :: "u64 \<Rightarrow> nat"
    by (simp add: sum.If_cases)
  have "bookSum (cCount m) (bookOf c A s') = card open'"
    by (simp add: bookSum_def cCount_def ord sum_if open'_def)
  then have "unat (result (OpenCount c m) s') = card open'" "card open' \<le> 64"
    using cnt assms(6) by (simp_all add: bookOf_def OrderbookMaxOpenPerMaker_def word_le_nat_alt)
  moreover have "unat (result (EscrowBase c m t) s') = (\<Sum>i | i \<in> open' \<and> oBaseToken (orderOf c s' i) = t \<and>
       oSide (orderOf c s' i) \<noteq> OrderSideBuy. unat (oBaseOpen (orderOf c s' i)))"
    using bas assms(6,7) by (simp add: bookSum_def cBase_def ord sum_if open'_def) (simp add: bookOf_def conj_assoc)
  moreover have "(\<Sum>i | i \<in> open' \<and> oSide (orderOf c s' i) = OrderSideBuy. lockOf (orderOf c s' i)) \<le> unat (result (EscrowQuote c m) s')"
    using quo assms(6) by (simp add: bookSum_def cQuote_def ord sum_if open'_def) (simp add: bookOf_def conj_assoc)
  ultimately show ?thesis by blast
qed

text \<open>C26: no open order is stuck after a run from an empty book in which the amounts of all calls
  (placed sizes and buy quotes) sum to less than \<^verbatim>\<open>2 ^ 256\<close>, so that no quote wraps: its maker can cancel it and is refunded
  exactly what it locks (the rounded-up quote of a buy, the open size of a sell), and anyone can
  fill any part of it at its price; neither call fails on the escrow accounts.\<close>

theorem open_orders_never_stuck:
  assumes "ob_slots_ok c A" "emptyOb c A s" "list_all (obOpIn A) ops" "length ops < 2 ^ 64 - 1"
    "sum_list (map opAmt ops) < 2 ^ 256" "liveO (orderOf c (obExecs c ops s) i)" "taker \<noteq> 0" "mx \<noteq> 0"
  defines "s' \<equiv> obExecs c ops s"
  defines "ord \<equiv> orderOf c s' i"
  shows "result (Cancel c (oMaker ord) i) s' =
      Inr \<lparr>rQuote = (if oSide ord = OrderSideBuy then QuoteLockCeil (oBaseOpen ord) (oPriceX18 ord) else 0),
           rBase = (if oSide ord = OrderSideBuy then 0 else oBaseOpen ord), rToken = oBaseToken ord, rSide = oSide ord\<rparr> \<and>
    result (Fill c taker i mx) s' = Inr (min mx (oBaseOpen ord), QuoteFloor (min mx (oBaseOpen ord)) (oPriceX18 ord))"
proof -
  have inv: "book_inv A (length ops) (sum_list (map opAmt ops)) (bookOf c A s')"
    unfolding s'_def using assms(4) by (intro empty_run [OF assms(1-3) _ assms(5)]) simp
  have ord: "ord = bkOrders (bookOf c A s') i" "liveO ord" using assms(6) by (simp_all add: bookOf_def ord_def s'_def)
  have ok: "book_ok A (bookOf c A s')" by (rule book_inv_ok [OF inv assms(4)])
  from cancel_step [OF inv ord] have
    "fst (bookStep (OCancel (oMaker ord) i) (bookOf c A s')) =
      ORefunded \<lparr>rQuote = (if oSide ord = OrderSideBuy then QuoteLockCeil (oBaseOpen ord) (oPriceX18 ord) else 0),
           rBase = (if oSide ord = OrderSideBuy then 0 else oBaseOpen ord), rToken = oBaseToken ord, rSide = oSide ord\<rparr>"
    by (metis fst_conv)
  then have "result (Cancel c (oMaker ord) i) s' =
      Inr \<lparr>rQuote = (if oSide ord = OrderSideBuy then QuoteLockCeil (oBaseOpen ord) (oPriceX18 ord) else 0),
           rBase = (if oSide ord = OrderSideBuy then 0 else oBaseOpen ord), rToken = oBaseToken ord, rSide = oSide ord\<rparr>"
    using step_refines(1) [OF assms(1) ok, of "OCancel (oMaker ord) i"] by (simp split: sum.splits del: bookStep.simps)
  moreover from fill_step [OF inv ord assms(7,8)] have "fst (bookStep (OFill taker i mx) (bookOf c A s')) =
      OTraded (min mx (oBaseOpen ord)) (QuoteFloor (min mx (oBaseOpen ord)) (oPriceX18 ord))"
    by (metis fst_conv)
  then have "result (Fill c taker i mx) s' = Inr (min mx (oBaseOpen ord), QuoteFloor (min mx (oBaseOpen ord)) (oPriceX18 ord))"
    using step_refines(1) [OF assms(1) ok, of "OFill taker i mx"] by (simp split: sum.splits prod.splits del: bookStep.simps)
  ultimately show ?thesis by blast
qed


section \<open>Best quotes\<close>

text \<open>The order in which \<^verbatim>\<open>best\<close> prefers a price and id over another.\<close>

definition better :: "bool \<Rightarrow> u256 \<times> u64 \<Rightarrow> u256 \<times> u64 \<Rightarrow> bool" where
  "better hi x y \<longleftrightarrow> (if hi then fst x > fst y else fst x < fst y) \<or> fst x = fst y \<and> snd x < snd y"

lemma better_trans: "\<not> better hi y x \<Longrightarrow> better hi y z \<Longrightarrow> better hi x z"
  unfolding better_def by (cases hi) (auto simp: not_less dest: order_antisym)

definition bestOf :: "bool \<Rightarrow> (u256 \<times> u64) list \<Rightarrow> (u256 \<times> u64) option \<Rightarrow> (u256 \<times> u64) option" where
  "bestOf hi = fold (\<lambda>x bst. case bst of None \<Rightarrow> Some x | Some y \<Rightarrow> if better hi x y then Some x else bst)"

lemma bestOf_Some:
  "bestOf hi xs (Some y) = Some z \<Longrightarrow> z \<in> insert y (set xs) \<and> (\<forall>x \<in> insert y (set xs). \<not> better hi x z)"
proof (induction xs arbitrary: y)
  case Nil
  then show ?case by (auto simp: bestOf_def better_def)
next
  case (Cons x xs)
  have asym: "better hi x y \<Longrightarrow> \<not> better hi y x" by (auto simp: better_def split: if_splits)
  have step: "bestOf hi (x # xs) (Some y) = bestOf hi xs (Some (if better hi x y then x else y))"
    by (simp add: bestOf_def)
  show ?case
  proof (cases "better hi x y")
    case True
    then have "z \<in> insert x (set xs) \<and> (\<forall>w \<in> insert x (set xs). \<not> better hi w z)" using Cons step by simp
    moreover have "\<not> better hi y z" using calculation better_trans asym [OF True] by blast
    ultimately show ?thesis by auto
  next
    case False
    then have "z \<in> insert y (set xs) \<and> (\<forall>w \<in> insert y (set xs). \<not> better hi w z)" using Cons step by simp
    moreover have "\<not> better hi x z" using calculation better_trans False by blast
    ultimately show ?thesis by auto
  qed
qed

lemma bestOf_exists: "\<exists>z. bestOf hi xs (Some y) = Some z"
  by (induction xs arbitrary: y) (auto simp: bestOf_def)

lemma bestOf_spec:
  "(case bestOf hi xs None of None \<Rightarrow> xs = [] | Some z \<Rightarrow> z \<in> set xs \<and> (\<forall>x \<in> set xs. \<not> better hi x z))"
proof (cases xs)
  case (Cons x ys)
  then have "bestOf hi xs None = bestOf hi ys (Some x)" by (simp add: bestOf_def)
  then show ?thesis using bestOf_exists [of hi ys x] bestOf_Some [of hi ys x] Cons by auto
qed (simp add: bestOf_def)

lemma orderOf_reads [simp]:
  "orderOf c (exec (getU256 c k) s) = orderOf c s" "orderOf c (exec (GetOrder c i) s) = orderOf c s"
  by (simp_all add: orderOf_def fun_eq_iff GetOrder_view)

lemma bestScan_run:
  assumes "\<forall>j \<in> set js. ids_inv A (bookOf c A s) \<and> liveO (orderOf c s (ucast (obv c s (BOpenAt t sd (of_nat j)))))"
  shows "result (bestScan c t sd hi js bst) s =
    bestOf hi (map (\<lambda>j. let i = ucast (obv c s (BOpenAt t sd (of_nat j))) in (oPriceX18 (orderOf c s i), i)) js) bst"
  using assms
proof (induction js arbitrary: bst s)
  case (Cons j js)
  let ?i = "ucast (obv c s (BOpenAt t sd (of_nat j))) :: u64"
  have ids: "ids_inv A (bookOf c A s)" and live: "liveO (orderOf c s ?i)" using Cons.prems by simp_all
  have ord: "bkOrders (bookOf c A s) = orderOf c s" by (simp add: bookOf_def)
  have "bookFind (bookOf c A s) ?i = Some (orderOf c s ?i) \<and> oStatus (orderOf c s ?i) = OrderStatusOpen"
    using bookFind_live [OF ids, of ?i "orderOf c s ?i"] live by (simp add: ord)
  then have "result (GetOrder c ?i) (exec (getU256 c k) s) = Some (orderOf c s ?i)" "oStatus (orderOf c s ?i) = OrderStatusOpen" for k
    by (simp_all add: bookOf_GetOrder [where A = A])
  then show ?case
    using Cons.prems by (simp add: Cons.IH GetOrder_view(2) Let_def) (auto simp: bestOf_def better_def split: option.split)
qed (simp add: bestOf_def)

lemma best_run:
  assumes inv: "book_inv A n S (bookOf c A s)" and t: "t \<in> A"
  shows "result (best c t sd hi) s = bestOf hi (map (\<lambda>i. (oPriceX18 (orderOf c s i), i)) (openIdx c s t sd)) None"
    "set (openIdx c s t sd) = {i. liveO (orderOf c s i) \<and> oBaseToken (orderOf c s i) = t \<and> oSide (orderOf c s i) = sd}"
proof -
  have ids: "ids_inv A (bookOf c A s)" using inv by (simp add: book_inv_def)
  have ix: "set (bkIndex (bookOf c A s) t sd) =
      {i. liveO (bkOrders (bookOf c A s) i) \<and> oBaseToken (bkOrders (bookOf c A s) i) = t \<and> oSide (bkOrders (bookOf c A s) i) = sd}"
    using inv unfolding book_inv_def index_inv_def by blast
  then show idx: "set (openIdx c s t sd) = {i. liveO (orderOf c s i) \<and> oBaseToken (orderOf c s i) = t \<and> oSide (orderOf c s i) = sd}"
    using t by (simp add: bookOf_def)
  have "\<forall>j \<in> set [0..<unat (ucast (obv c s (BOpenLen t sd)) :: u64)].
      liveO (orderOf c s (ucast (obv c s (BOpenAt t sd (of_nat j)))))"
    using idx by (auto simp: openIdx_def)
  then show "result (best c t sd hi) s = bestOf hi (map (\<lambda>i. (oPriceX18 (orderOf c s i), i)) (openIdx c s t sd)) None"
    using ids by (simp add: best_def bestScan_run [where A = A] openIdx_def Let_def comp_def)
qed

text \<open>C27: after every such run the best bid of a token is an open buy order of that token with the
  highest price, the oldest among equals, the best ask an open sell order with the lowest price,
  and no quote is returned exactly when there is no such open order.\<close>

theorem best_quotes_are_best:
  assumes "ob_slots_ok c A" "emptyOb c A s" "list_all (obOpIn A) ops" "length ops < 2 ^ 64"
    "sum_list (map opAmt ops) < 2 ^ 256" "t \<in> A"
  defines "s' \<equiv> obExecs c ops s"
  defines "side' sd \<equiv> {i. liveO (orderOf c s' i) \<and> oBaseToken (orderOf c s' i) = t \<and> oSide (orderOf c s' i) = sd}"
  shows "(case result (BestBid c t) s' of None \<Rightarrow> side' OrderSideBuy = {}
      | Some (p, i) \<Rightarrow> i \<in> side' OrderSideBuy \<and> p = oPriceX18 (orderOf c s' i) \<and>
          (\<forall>j \<in> side' OrderSideBuy. oPriceX18 (orderOf c s' j) < p \<or> oPriceX18 (orderOf c s' j) = p \<and> i \<le> j)) \<and>
    (case result (BestAsk c t) s' of None \<Rightarrow> side' OrderSideSell = {}
      | Some (p, i) \<Rightarrow> i \<in> side' OrderSideSell \<and> p = oPriceX18 (orderOf c s' i) \<and>
          (\<forall>j \<in> side' OrderSideSell. p < oPriceX18 (orderOf c s' j) \<or> oPriceX18 (orderOf c s' j) = p \<and> i \<le> j))"
proof -
  have inv: "book_inv A (length ops) (sum_list (map opAmt ops)) (bookOf c A s')"
    unfolding s'_def by (rule empty_run [OF assms(1-5)])
  note run = best_run [OF inv assms(6), folded side'_def]
  have best: "case result (best c t sd hi) s' of None \<Rightarrow> side' sd = {}
      | Some (p, i) \<Rightarrow> i \<in> side' sd \<and> p = oPriceX18 (orderOf c s' i) \<and>
          (\<forall>j \<in> side' sd. \<not> better hi (oPriceX18 (orderOf c s' j), j) (p, i))" for sd hi
    using bestOf_spec [of "map (\<lambda>i. (oPriceX18 (orderOf c s' i), i)) (openIdx c s' t sd)" hi]
    by (auto simp: run(1) simp flip: run(2) split: option.splits)
  show ?thesis
    using best [of OrderSideBuy True] best [of OrderSideSell False]
    by (fastforce simp: BestBid_def BestAsk_def better_def split: option.splits)
qed

end
