(* ===== verification/OrderbookRun.thy ===== *)
theory OrderbookRun
  imports OrderbookProps StakingSet
begin

text \<open>
  The rounding of quotes, and runs of the order book on a concrete hash.
\<close>

section \<open>Rounding\<close>

text \<open>C28: the lock of a buy order is the exact rounded-up quote reduced modulo 2 to the 256. Unless that
  quote exceeds 256 bits, the rounded-down quote is within one of it, and paying for a part of an
  amount leaves enough of the lock for the rest.\<close>

theorem quote_rounding_bounds:
  assumes "a \<le> b"
  shows "unat (QuoteLockCeil b p) = ceilQuote b p mod 2 ^ 256 \<and>
    (ceilQuote b p < 2 ^ 256 \<longrightarrow>
      unat (QuoteFloor b p) \<le> unat (QuoteLockCeil b p) \<and> unat (QuoteLockCeil b p) \<le> unat (QuoteFloor b p) + 1 \<and>
      unat (QuoteFloor a p) + unat (QuoteLockCeil (b - a) p) \<le> unat (QuoteLockCeil b p))"
proof -
  have "unat (word_of_int (int n) :: u256) = n mod 2 ^ 256" for n
    by (simp add: unsigned_of_nat take_bit_eq_mod)
  then have "unat (QuoteLockCeil b p) = ceilQuote b p mod 2 ^ 256"
    unfolding QuoteLockCeil_def quotes_as_nat by (auto simp: ceilQuote_def)
  moreover have "unat (QuoteFloor b p) \<le> unat (QuoteLockCeil b p) \<and> unat (QuoteLockCeil b p) \<le> unat (QuoteFloor b p) + 1 \<and>
      unat (QuoteFloor a p) + unat (QuoteLockCeil (b - a) p) \<le> unat (QuoteLockCeil b p)" if fits: "ceilQuote b p < 2 ^ 256"
  proof -
    have "b - a \<le> b" using assms by (simp add: word_le_nat_alt unat_minus_exact)
    then have "ceilQuote (b - a) p < 2 ^ 256" using fits ceilQuote_mono le_less_trans by blast
    moreover have "ceilQuote b p \<le> unat b * unat p div 10 ^ 18 + 1"
      unfolding ceilQuote_def by simp
    ultimately show ?thesis
      using fits floor_le_ceil [of b p] fill_lock_le [OF assms fits] by (simp add: QuoteLockCeil_exact QuoteFloor_exact)
  qed
  ultimately show ?thesis by blast
qed

text \<open>Half a coin per unit, and 2 to the 128 units at a price just above 2 to the 128, which lock
  about 340 coins.\<close>

theorem quote_rounding_bounds_witness:
  "unat (QuoteFloor 3 (10 ^ 18 div 2)) + unat (QuoteLockCeil (10 - 3) (10 ^ 18 div 2)) \<le> unat (QuoteLockCeil 10 (10 ^ 18 div 2)) \<and>
   unat (QuoteFloor 3 (10 ^ 18 div 2)) = 1 \<and> unat (QuoteLockCeil 10 (10 ^ 18 div 2)) = 5 \<and>
   unat (QuoteLockCeil (2 ^ 128) (10 ^ 18 * 2 ^ 128 + 1)) = 340282366920938463464"
proof -
  have "ceilQuote 10 (10 ^ 18 div 2) < 2 ^ 256" by (simp add: ceilQuote_def)
  with quote_rounding_bounds [of 3 10 "10 ^ 18 div 2"]
  have "unat (QuoteFloor 3 (10 ^ 18 div 2)) + unat (QuoteLockCeil (10 - 3) (10 ^ 18 div 2)) \<le> unat (QuoteLockCeil 10 (10 ^ 18 div 2))"
    by simp
  moreover have "unat (QuoteLockCeil (2 ^ 128) (10 ^ 18 * 2 ^ 128 + 1)) = 340282366920938463464"
    using quote_rounding_bounds [of 0 "2 ^ 128" "10 ^ 18 * 2 ^ 128 + 1"] by (simp add: ceilQuote_def)
  ultimately show ?thesis by (simp add: QuoteFloor_def QuoteLockCeil_def)
qed

section \<open>A concrete hash\<close>

definition exObHash :: "byte list \<Rightarrow> byte list" where
  "exObHash b = (let n = length b in [of_nat n, (if n \<ge> 21 then b ! (n - 21) else 0)] @ drop (n - 10) b)"

definition exOb :: "address stateLib" where "exOb = exLib\<lparr>keccak := exObHash\<rparr>"

lemma exObHash_length: "length (exObHash (obPreimage k)) = 12"
  by (cases k) (simp_all add: exObHash_def Let_def)

lemma exObHash_inj:
  assumes "obKeyIn exPeople k" "obKeyIn exPeople k'" "exObHash (obPreimage k) = exObHash (obPreimage k')"
  shows "k = k'"
proof -
  have "(of_nat (obKeyLen k) :: byte) = of_nat (obKeyLen k')"
    using assms(3) by (simp add: exObHash_def Let_def obPreimage_length)
  moreover have "obKeyLen j < 256" for j by (cases j) simp_all
  ultimately have "obKeyLen k = obKeyLen k'" by (metis unat_of_nat_byte mod_less)
  then show ?thesis
    using assms by (cases k; cases k'; simp) (simp_all add: exObHash_def small_addrBytes small_inj nth_append)
qed

lemma exOb_slots_ok: "ob_slots_ok exOb exPeople"
proof -
  have "obSlot exOb k = BytesToHash (exObHash (obPreimage k))" for k
    by (simp add: obSlot_def exOb_def)
  then show ?thesis
    by (auto simp: ob_slots_ok_def inj_on_def exObHash_length intro!: exObHash_inj dest: BytesToHash_inj [rotated -1])
qed

lemma exOb_empty: "emptyOb exOb exPeople (New [])"
  by (simp add: emptyOb_def obv_def slotOf_def New_def)

definition exOps :: "obOp list" where
  "exOps = [OBuy 11 20 (3 * 10 ^ 18) 5 7, OSell 12 20 (4 * 10 ^ 18) 6 8, OFill 12 1 2]"

lemma exOps_ok: "list_all (obOpIn exPeople) exOps" "length exOps < 2 ^ 64 - 1" "length exOps < 2 ^ 64"
  "sum_list (map opAmt exOps) < 2 ^ 256"
  by (simp_all add: exOps_def exPeople_def ceilQuote_def)


lemma exBook0:
  "bkNext (bookOf exOb exPeople (New [])) = 0" "bkCount (bookOf exOb exPeople (New [])) m = 0"
  "bkEscQ (bookOf exOb exPeople (New [])) m = 0" "bkEscB (bookOf exOb exPeople (New [])) m t = 0"
  "bkIndex (bookOf exOb exPeople (New [])) t sd = []"
  using exOb_empty by (simp_all add: bookOf_def emptyOb_def openIdx_def)

lemma exOps_run:
  "fst (bookRun exOps (bookOf exOb exPeople (New []))) = [OPlaced 1 15, OPlaced 2 0, OTraded 2 6]"
  "bkOrders (snd (bookRun exOps (bookOf exOb exPeople (New [])))) 1 =
     (newOrder 1 11 20 OrderSideBuy (3 * 10 ^ 18) 5 7)\<lparr>oBaseOpen := 3\<rparr>"
  "bkOrders (snd (bookRun exOps (bookOf exOb exPeople (New [])))) 2 = newOrder 2 12 20 OrderSideSell (4 * 10 ^ 18) 6 8"
  by (simp_all add: exOps_def placeError_def bookPlace_def bookFind_def bookPay_def bookPut_def bookClose_def exBook0
      OrderbookMaxOpenPerMaker_def QuoteLockCeil_def QuoteFloor_def OrderSideBuy_def OrderSideSell_def OrderStatusOpen_def
      newOrder_def Let_def min_def)


lemmas exRun = empty_run [OF exOb_slots_ok exOb_empty exOps_ok(1,3,4)]

lemma exOps_orders:
  "orderOf exOb (obExecs exOb exOps (New [])) 1 = (newOrder 1 11 20 OrderSideBuy (3 * 10 ^ 18) 5 7)\<lparr>oBaseOpen := 3\<rparr>"
  "obOuts exOb exOps (New []) = [OPlaced 1 15, OPlaced 2 0, OTraded 2 6]"
proof -
  have "orderOf exOb s = bkOrders (bookOf exOb exPeople s)" for s by (simp add: bookOf_def)
  then show "orderOf exOb (obExecs exOb exOps (New [])) 1 = (newOrder 1 11 20 OrderSideBuy (3 * 10 ^ 18) 5 7)\<lparr>oBaseOpen := 3\<rparr>"
    using exOps_run(2) unfolding exRun(1) [symmetric] snd_conv by metis
  show "obOuts exOb exOps (New []) = [OPlaced 1 15, OPlaced 2 0, OTraded 2 6]"
    using exOps_run(1) unfolding exRun(1) [symmetric] fst_conv .
qed

lemma exOps_live: "liveO (orderOf exOb (obExecs exOb exOps (New [])) 1)"
  by (simp add: exOps_orders liveO_def)

theorem orderbook_refines_book_witness:
  "bookRun exOps (bookOf exOb exPeople (New [])) =
     (obOuts exOb exOps (New []), bookOf exOb exPeople (obExecs exOb exOps (New []))) \<and>
   obOuts exOb exOps (New []) = [OPlaced 1 15, OPlaced 2 0, OTraded 2 6]"
  using orderbook_refines_book [OF exOb_slots_ok exOb_empty exOps_ok(1,3,4)] exOps_orders(2) by blast

theorem orderbook_accounts_exact_witness:
  "unat (result (OpenCount exOb 11) (obExecs exOb exOps (New []))) =
     card {i. liveO (orderOf exOb (obExecs exOb exOps (New [])) i) \<and> oMaker (orderOf exOb (obExecs exOb exOps (New [])) i) = 11} \<and>
   card {i. liveO (orderOf exOb (obExecs exOb exOps (New [])) i) \<and> oMaker (orderOf exOb (obExecs exOb exOps (New [])) i) = 11} \<le> 64"
  using orderbook_accounts_exact [OF exOb_slots_ok exOb_empty exOps_ok(1,3,4), of 11 20] by (simp add: exPeople_def)

theorem open_orders_never_stuck_witness:
  "result (Cancel exOb 11 1) (obExecs exOb exOps (New [])) = Inr \<lparr>rQuote = 9, rBase = 0, rToken = 20, rSide = 0\<rparr> \<and>
   result (Fill exOb 13 1 100) (obExecs exOb exOps (New [])) = Inr (3, 9)"
  using open_orders_never_stuck [OF exOb_slots_ok exOb_empty exOps_ok(1,2,4) exOps_live, of 13 100]
  by (simp add: exOps_orders newOrder_def QuoteLockCeil_def QuoteFloor_def OrderSideBuy_def min_def)

theorem best_quotes_are_best_witness:
  "\<exists>p i. result (BestBid exOb 20) (obExecs exOb exOps (New [])) = Some (p, i) \<and>
     oSide (orderOf exOb (obExecs exOb exOps (New [])) i) = OrderSideBuy"
proof -
  let ?s = "obExecs exOb exOps (New [])"
  have "1 \<in> {i. liveO (orderOf exOb ?s i) \<and> oBaseToken (orderOf exOb ?s i) = 20 \<and> oSide (orderOf exOb ?s i) = OrderSideBuy}"
    by (simp add: exOps_live) (simp add: exOps_orders)
  then show ?thesis
    using best_quotes_are_best [OF exOb_slots_ok exOb_empty exOps_ok(1,3,4), of 20]
    by (auto simp: exPeople_def split: option.splits)
qed

section \<open>Dust of a filled buy order\<close>

definition exDust :: "obOp list" where "exDust = [OBuy 11 20 1 1 7, OFill 12 1 1]"

text \<open>One unit at the smallest price locks one wei, is paid for with none, and when the order is filled
  the wei stays in the maker's escrow although no open order is left to release it.\<close>

lemma filled_buy_strands_dust:
  "result (EscrowQuote exOb 11) (obExecs exOb exDust (New [])) = 1 \<and>
   result (OpenCount exOb 11) (obExecs exOb exDust (New [])) = 0"
proof -
  have ok: "list_all (obOpIn exPeople) exDust" "length exDust < 2 ^ 64" "sum_list (map opAmt exDust) < 2 ^ 256"
    by (simp_all add: exDust_def exPeople_def ceilQuote_def)
  have "bkEscQ (snd (bookRun exDust (bookOf exOb exPeople (New [])))) 11 = 1"
    "bkCount (snd (bookRun exDust (bookOf exOb exPeople (New [])))) 11 = 0"
    by (simp_all add: exDust_def placeError_def bookPlace_def bookFind_def bookPay_def bookPut_def bookClose_def exBook0
        OrderbookMaxOpenPerMaker_def QuoteLockCeil_def QuoteFloor_def OrderSideBuy_def OrderStatusOpen_def newOrder_def Let_def)
  then have "bkEscQ (bookOf exOb exPeople (obExecs exOb exDust (New []))) 11 = 1"
    "bkCount (bookOf exOb exPeople (obExecs exOb exDust (New []))) 11 = 0"
    using empty_run(1) [OF exOb_slots_ok exOb_empty ok] by (metis snd_conv)+
  then show ?thesis by (simp add: bookOf_def exPeople_def)
qed

end
