(* ===== verification/DewTx.thy ===== *)
theory DewTx
  imports Evidence
begin

text \<open>
  Native transactions (\<^verbatim>\<open>src/core/types/dewtx.go\<close>): the transaction, its RLP envelope with the
  tag \<^verbatim>\<open>0xdf\<close>, the domain-separated signing hash, signing and sender recovery.

  The RLP decoder of go-ethereum is the field \<^verbatim>\<open>rlpDecodeDewTx\<close> of the library record; the
  encoder is \<^verbatim>\<open>rlpEncode\<close>, which reports an error on negative numbers only.  A \<^verbatim>\<open>*big.Int\<close> or
  \<^verbatim>\<open>*uint256.Int\<close> that may be nil is an option.  \<^verbatim>\<open>None\<close> as the result of an operation is a
  run-time panic; errors are values of \<^verbatim>\<open>dewTxErr\<close>.
\<close>

section \<open>Transactions\<close>

type_synonym u32 = "32 word"

definition DewTxVersion :: u32 where "DewTxVersion = 1"
definition DewTxDomainTag :: string where "DewTxDomainTag = ''DewTx:v1''"
definition DefaultDewTxFeeWei :: u64 where "DefaultDewTxFeeWei = 2100000000000"
definition MinDewTxFeeWei :: u64 where "MinDewTxFeeWei = DefaultDewTxFeeWei"
definition DewTxType :: byte where "DewTxType = 0xdf"

record DewTx =
  dxVersion :: u32
  dxChainID :: "int option"
  dxNonce :: u64
  dxSender :: address
  dxReceiver :: address
  dxAmount :: "u256 option"
  dxFee :: u64
  dxPayload :: "byte list"
  dxAccessList :: "address list"
  dxV :: "int option"
  dxR :: "int option"
  dxS :: "int option"
  dxHash :: hash

text \<open>\<^verbatim>\<open>NewDewTx\<close> dereferences the chain id, so a nil chain id panics.\<close>

definition NewDewTx :: "int option \<Rightarrow> u64 \<Rightarrow> address \<Rightarrow> address \<Rightarrow> u256 option \<Rightarrow> u64 \<Rightarrow> byte list \<Rightarrow>
    address list \<Rightarrow> DewTx option" where
  "NewDewTx chainID nonce sender receiver amount fee payload accessList =
     (case chainID of
        None \<Rightarrow> None
      | Some cid \<Rightarrow>
          (let amt = (case amount of None \<Rightarrow> 0 | Some x \<Rightarrow> x);
               f = (if fee = 0 then DefaultDewTxFeeWei else fee)
           in Some \<lparr>dxVersion = DewTxVersion, dxChainID = Some cid, dxNonce = nonce, dxSender = sender,
                dxReceiver = receiver, dxAmount = Some amt, dxFee = f, dxPayload = payload,
                dxAccessList = accessList, dxV = Some 0, dxR = Some 0, dxS = Some 0, dxHash = 0\<rparr>))"

definition copyBig :: "int option \<Rightarrow> int" where
  "copyBig v = (case v of None \<Rightarrow> 0 | Some x \<Rightarrow> x)"

section \<open>RLP envelope\<close>

record dewTxUnsignedRLP =
  duVersion :: u32
  duChainID :: int
  duNonce :: u64
  duSender :: "byte list"
  duReceiver :: "byte list"
  duAmount :: int
  duFee :: u64
  duPayload :: "byte list"
  duAccessList :: "byte list list"

record dewTxSignedRLP = dewTxUnsignedRLP +
  duYParity :: int
  duR :: int
  duS :: int

record 'key txLib = "'key cryptoLib" +
  rlpDecodeDewTx :: "byte list \<Rightarrow> dewTxSignedRLP option"

definition unsignedRLP :: "DewTx \<Rightarrow> dewTxUnsignedRLP" where
  "unsignedRLP tx =
     (let amt = (case dxAmount tx of None \<Rightarrow> 0 | Some x \<Rightarrow> uint x)
      in \<lparr>duVersion = dxVersion tx, duChainID = copyBig (dxChainID tx), duNonce = dxNonce tx,
          duSender = addrBytes (dxSender tx), duReceiver = addrBytes (dxReceiver tx), duAmount = amt,
          duFee = dxFee tx, duPayload = dxPayload tx, duAccessList = map addrBytes (dxAccessList tx)\<rparr>)"

definition signedRLP :: "DewTx \<Rightarrow> dewTxSignedRLP" where
  "signedRLP tx =
     (let u = unsignedRLP tx
      in \<lparr>duVersion = duVersion u, duChainID = duChainID u, duNonce = duNonce u, duSender = duSender u,
          duReceiver = duReceiver u, duAmount = duAmount u, duFee = duFee u, duPayload = duPayload u,
          duAccessList = duAccessList u, duYParity = copyBig (dxV tx), duR = copyBig (dxR tx),
          duS = copyBig (dxS tx)\<rparr>)"

text \<open>The values handed to the RLP encoder, in field order.\<close>

definition unsignedFields :: "'z dewTxUnsignedRLP_scheme \<Rightarrow> rlp list" where
  "unsignedFields r = [RUint (unat (duVersion r)), RBig (Some (duChainID r)), RUint (unat (duNonce r)),
     RBytes (duSender r), RBytes (duReceiver r), RBig (Some (duAmount r)), RUint (unat (duFee r)),
     RBytes (duPayload r), RList (map RBytes (duAccessList r))]"

definition signedFields :: "dewTxSignedRLP \<Rightarrow> rlp list" where
  "signedFields r = unsignedFields r @ [RBig (Some (duYParity r)), RBig (Some (duR r)), RBig (Some (duS r))]"

text \<open>\<^verbatim>\<open>rlp.EncodeToBytes\<close> fails on negative numbers.\<close>

definition encodeUnsigned :: "('key, 'z) cryptoLib_scheme \<Rightarrow> dewTxUnsignedRLP \<Rightarrow> byte list option" where
  "encodeUnsigned c r = (if duChainID r < 0 then None else Some (rlpEncode c (RList (unsignedFields r))))"

definition encodeSigned :: "('key, 'z) cryptoLib_scheme \<Rightarrow> dewTxSignedRLP \<Rightarrow> byte list option" where
  "encodeSigned c r = (if duChainID r < 0 \<or> duYParity r < 0 \<or> duR r < 0 \<or> duS r < 0 then None
     else Some (rlpEncode c (RList (signedFields r))))"

text \<open>\<^verbatim>\<open>SigningHash\<close> and \<^verbatim>\<open>Hash\<close> panic when the encoding fails; \<^verbatim>\<open>Hash\<close> caches its value.\<close>

definition DewSigningHash :: "('key, 'z) cryptoLib_scheme \<Rightarrow> DewTx \<Rightarrow> hash option" where
  "DewSigningHash c tx =
     (case encodeUnsigned c (unsignedRLP tx) of
        None \<Rightarrow> None
      | Some enc \<Rightarrow> (let domain = keccak c (strBytes DewTxDomainTag) in Some (Keccak256Hash c (domain @ enc))))"

datatype dewTxErr =
    RlpNegative | NotDewTx | DewRlp | DewUnsupportedVersion | DewAddressLength | DewAccessAddressLength
  | DewAmountOverflow | DewSignFailed | DewSenderMismatch | MissingSignature | InvalidYParity
  | DewEcrecover | BadPubkeyLen | SignatureMismatch

definition MarshalDewTx :: "('key, 'z) cryptoLib_scheme \<Rightarrow> DewTx \<Rightarrow> dewTxErr + byte list" where
  "MarshalDewTx c tx =
     (case encodeSigned c (signedRLP tx) of
        None \<Rightarrow> Inl RlpNegative
      | Some payload \<Rightarrow> Inr (DewTxType # payload))"

definition DewTxHash :: "('key, 'z) cryptoLib_scheme \<Rightarrow> DewTx \<Rightarrow> (hash \<times> DewTx) option" where
  "DewTxHash c tx =
     (if dxHash tx \<noteq> 0 then Some (dxHash tx, tx)
      else case MarshalDewTx c tx of
        Inl e \<Rightarrow> None
      | Inr enc \<Rightarrow> (let h = Keccak256Hash c enc in Some (h, tx\<lparr>dxHash := h\<rparr>)))"

fun accessAddrs :: "byte list list \<Rightarrow> dewTxErr + address list" where
  "accessAddrs [] = Inr []"
| "accessAddrs (a # as) =
     (if length a \<noteq> 20 then Inl DewAccessAddressLength
      else case accessAddrs as of Inl e \<Rightarrow> Inl e | Inr al \<Rightarrow> Inr (bytesAddr a # al))"

text \<open>\<^verbatim>\<open>SetFromBig\<close> reports an overflow for numbers that need more than 256 bits; the decoder
  returns no negative number.\<close>

definition UnmarshalDewTx :: "('key, 'z) txLib_scheme \<Rightarrow> byte list \<Rightarrow> dewTxErr + DewTx" where
  "UnmarshalDewTx c b =
     (if length b < 2 \<or> b ! 0 \<noteq> DewTxType then Inl NotDewTx
      else case rlpDecodeDewTx c (drop 1 b) of
        None \<Rightarrow> Inl DewRlp
      | Some raw \<Rightarrow>
          if duVersion raw \<noteq> DewTxVersion then Inl DewUnsupportedVersion
          else if length (duSender raw) \<noteq> 20 \<or> length (duReceiver raw) \<noteq> 20 then Inl DewAddressLength
          else case accessAddrs (duAccessList raw) of
            Inl e \<Rightarrow> Inl e
          | Inr al \<Rightarrow>
              if \<bar>duAmount raw\<bar> \<ge> 2 ^ 256 then Inl DewAmountOverflow
              else Inr \<lparr>dxVersion = duVersion raw, dxChainID = Some (duChainID raw), dxNonce = duNonce raw,
                dxSender = bytesAddr (duSender raw), dxReceiver = bytesAddr (duReceiver raw),
                dxAmount = Some (of_int (duAmount raw)), dxFee = duFee raw, dxPayload = duPayload raw,
                dxAccessList = al, dxV = Some (duYParity raw), dxR = Some (duR raw), dxS = Some (duS raw),
                dxHash = 0\<rparr>)"


section \<open>Signatures\<close>

text \<open>\<^verbatim>\<open>SignDewTx\<close> fills in the signature before it compares the key with the sender; the
  transaction it leaves behind is part of the result.\<close>

definition SignDewTx :: "('key, 'z) cryptoLib_scheme \<Rightarrow> DewTx \<Rightarrow> 'key \<Rightarrow> (DewTx \<times> dewTxErr option) option" where
  "SignDewTx c tx key =
     (case DewSigningHash c tx of
        None \<Rightarrow> None
      | Some h \<Rightarrow>
          (case ecSign c (hashBytes h) key of
             None \<Rightarrow> Some (tx, Some DewSignFailed)
           | Some sig \<Rightarrow>
               if length sig < 65 then None
               else let tx' = tx\<lparr>dxR := Some (int (beNat (take 32 sig))),
                      dxS := Some (int (beNat (take 32 (drop 32 sig)))),
                      dxV := Some (int (unat (sig ! 64))), dxHash := 0\<rparr>
                    in Some (tx', if pubkeyAddress c key \<noteq> dxSender tx then Some DewSenderMismatch else None)))"

text \<open>\<^verbatim>\<open>big.Int.Bytes\<close>: the big-endian digits of the absolute value without leading zeros.\<close>

fun natDigits :: "nat \<Rightarrow> byte list" where
  "natDigits n = (if n = 0 then [] else natDigits (n div 256) @ [of_nat n])"

declare natDigits.simps [simp del]

definition bigBytes :: "int \<Rightarrow> byte list" where
  "bigBytes x = natDigits (nat \<bar>x\<bar>)"

text \<open>\<^verbatim>\<open>copy(dst[hi-len(src):hi], src)\<close>: a source longer than \<^verbatim>\<open>hi\<close> makes the lower bound negative and
  panics.\<close>

definition copyRight :: "byte list \<Rightarrow> nat \<Rightarrow> byte list \<Rightarrow> byte list option" where
  "copyRight dst hi src = (if length src > hi then None
     else Some (take (hi - length src) dst @ src @ drop hi dst))"

definition RecoverSender :: "('key, 'z) cryptoLib_scheme \<Rightarrow> DewTx \<Rightarrow> (dewTxErr + address) option" where
  "RecoverSender c tx =
     (case (dxR tx, dxS tx, dxV tx) of
        (Some r, Some s, Some vv) \<Rightarrow>
          (case copyRight (replicate 65 0) 32 (bigBytes r) of
             None \<Rightarrow> None
           | Some sig1 \<Rightarrow>
               (case copyRight sig1 64 (bigBytes s) of
                  None \<Rightarrow> None
                | Some sig2 \<Rightarrow>
                    (let v = (of_int vv :: u64) in
                     if v > 1 then Some (Inl InvalidYParity)
                     else case DewSigningHash c tx of
                       None \<Rightarrow> None
                     | Some h \<Rightarrow>
                         (case ecRecover c (hashBytes h) (sig2[64 := ucast v]) of
                            None \<Rightarrow> Some (Inl DewEcrecover)
                          | Some pub \<Rightarrow>
                              if length pub \<noteq> 65 then Some (Inl BadPubkeyLen)
                              else let addr = bytesAddr (take 20 (drop 12 (keccak c (drop 1 pub))))
                                   in if addr \<noteq> dxSender tx then Some (Inl SignatureMismatch)
                                      else Some (Inr addr)))))
      | _ \<Rightarrow> Some (Inl MissingSignature))"

definition ContainsAccess :: "DewTx \<Rightarrow> address \<Rightarrow> bool" where
  "ContainsAccess tx addr \<longleftrightarrow> addr = dxSender tx \<or> addr = dxReceiver tx \<or> addr \<in> set (dxAccessList tx)"


section \<open>Encoding laws\<close>

lemma natDigits_0 [simp]: "natDigits 0 = []"
  by (simp add: natDigits.simps)

lemma natDigits_pos: "n \<noteq> 0 \<Longrightarrow> natDigits n = natDigits (n div 256) @ [of_nat n]"
  by (simp add: natDigits.simps [of n])

lemma length_natDigits: "length (natDigits n) \<le> k \<longleftrightarrow> n < 256 ^ k"
proof (induction k arbitrary: n)
  case 0
  then show ?case by (cases "n = 0") (simp_all add: natDigits_pos)
next
  case (Suc k)
  show ?case
    using Suc.IH [of "n div 256"]
    by (cases "n = 0") (simp_all add: natDigits_pos div_less_iff_less_mult mult.commute)
qed

lemma natDigits_pad: "n < 256 ^ k \<Longrightarrow> replicate (k - length (natDigits n)) 0 @ natDigits n = beBytes k n"
proof (induction k arbitrary: n)
  case 0
  then show ?case by simp
next
  case (Suc k)
  then have "n div 256 < 256 ^ k" by (simp add: div_less_iff_less_mult mult.commute)
  with Suc.IH [of "n div 256"] show ?case
    by (cases "n = 0") (simp_all add: natDigits_pos beBytes_0 replicate_append_same flip: append_assoc)
qed

lemma copyRight_pad:
  assumes "n < 256 ^ 32" "length pre + 32 = hi"
  shows "copyRight (pre @ replicate 32 0 @ post) hi (bigBytes (int n)) = Some (pre @ beBytes 32 n @ post)"
proof -
  have "length (natDigits n) \<le> 32" using assms(1) length_natDigits by blast
  moreover have "replicate (32 - length (natDigits n)) 0 @ natDigits n = beBytes 32 n"
    using assms(1) by (rule natDigits_pad)
  moreover have "hi - length (natDigits n) - length pre = 32 - length (natDigits n)"
    "length (natDigits n) \<le> hi" "length pre \<le> hi - length (natDigits n)"
    using assms(2) calculation(1) by auto
  ultimately show ?thesis using assms(2)
    by (simp add: copyRight_def bigBytes_def)
qed

lemma DewSigningHash_cong: "unsignedRLP tx = unsignedRLP tx' \<Longrightarrow> DewSigningHash c tx = DewSigningHash c tx'"
  by (simp add: DewSigningHash_def)

lemma unsigned_ignores [simp]:
  "unsignedRLP (tx\<lparr>dxV := v\<rparr>) = unsignedRLP tx" "unsignedRLP (tx\<lparr>dxR := v\<rparr>) = unsignedRLP tx"
  "unsignedRLP (tx\<lparr>dxS := v\<rparr>) = unsignedRLP tx" "unsignedRLP (tx\<lparr>dxHash := h\<rparr>) = unsignedRLP tx"
  by (simp_all add: unsignedRLP_def)

lemma signingHash_ignores [simp]:
  "DewSigningHash c (tx\<lparr>dxV := v\<rparr>) = DewSigningHash c tx" "DewSigningHash c (tx\<lparr>dxR := v\<rparr>) = DewSigningHash c tx"
  "DewSigningHash c (tx\<lparr>dxS := v\<rparr>) = DewSigningHash c tx" "DewSigningHash c (tx\<lparr>dxHash := h\<rparr>) = DewSigningHash c tx"
  by (simp_all add: DewSigningHash_def)

lemma accessAddrs_bytes [simp]: "accessAddrs (map addrBytes as) = Inr as"
  by (induction as) simp_all

text \<open>Documented behaviour of the libraries: signatures carry a recovery id 0 or 1 and recover to an
  uncompressed key; decoding inverts encoding for the signed envelope, whose encoding is not empty.\<close>

definition dew_signatures :: "('key, 'z) cryptoLib_scheme \<Rightarrow> bool" where
  "dew_signatures c \<longleftrightarrow> signatures_recover c \<and> (\<forall>digest key sig pub. ecSign c digest key = Some sig \<longrightarrow>
     sig ! 64 \<le> 1 \<and> (ecRecover c digest sig = Some pub \<longrightarrow> length pub = 65))"

definition dew_rlp_codec :: "('key, 'z) txLib_scheme \<Rightarrow> bool" where
  "dew_rlp_codec c \<longleftrightarrow> (\<forall>r. rlpEncode c (RList (signedFields r)) \<noteq> [] \<and>
     (duChainID r \<ge> 0 \<and> duAmount r \<ge> 0 \<and> duYParity r \<ge> 0 \<and> duR r \<ge> 0 \<and> duS r \<ge> 0 \<longrightarrow>
      rlpDecodeDewTx c (rlpEncode c (RList (signedFields r))) = Some r))"

lemma sig_parts:
  assumes "length sig = 65"
  shows "(take 32 sig @ take 32 (drop 32 sig) @ [0])[64 := sig ! 64] = sig"
proof -
  have "drop 32 sig = take 32 (drop 32 sig) @ drop 64 sig"
    using append_take_drop_id [of 32 "drop 32 sig"] by simp
  then have "sig = take 32 sig @ take 32 (drop 32 sig) @ drop 64 sig"
    by (metis append_take_drop_id)
  moreover have "drop 64 sig = [sig ! 64]"
    using Cons_nth_drop_Suc [of 64 sig] assms by simp
  ultimately show ?thesis using assms by (simp add: list_update_append)
qed

lemma RecoverSender_signed:
  assumes "dew_signatures c" "DewSigningHash c tx = Some h" "ecSign c (hashBytes h) key = Some sig"
    "dxR tx = Some (int (beNat (take 32 sig)))" "dxS tx = Some (int (beNat (take 32 (drop 32 sig))))"
    "dxV tx = Some (int (unat (sig ! 64)))" "dxSender tx = pubkeyAddress c key"
  shows "RecoverSender c tx = Some (Inr (dxSender tx))"
proof -
  let ?R = "take 32 sig" and ?S = "take 32 (drop 32 sig)"
  obtain pub where len: "length sig = 65" and v: "sig ! 64 \<le> 1" and rec: "ecRecover c (hashBytes h) sig = Some pub"
    and pub: "length pub = 65" "pubkeyBytesToAddress c pub = pubkeyAddress c key"
    using assms(1,3) unfolding dew_signatures_def signatures_recover_def by blast
  have bounds: "beNat ?R < 256 ^ 32" "beNat ?S < 256 ^ 32"
    using beNat_less [of ?R] beNat_less [of ?S] len by simp_all
  have bytes: "beBytes 32 (beNat ?R) = ?R" "beBytes 32 (beNat ?S) = ?S"
    using beBytes_beNat [of ?R] beBytes_beNat [of ?S] len by simp_all
  have zeros: "replicate 65 (0 :: byte) = [] @ replicate 32 0 @ replicate 33 0"
    "replicate 33 (0 :: byte) = replicate 32 0 @ [0]"
    using replicate_add [of 32 33 "0 :: byte"] replicate_add [of 32 1 "0 :: byte"] by simp_all
  have sig1: "copyRight (replicate 65 0) 32 (bigBytes (int (beNat ?R))) = Some (?R @ replicate 33 0)"
    unfolding zeros(1) using copyRight_pad [OF bounds(1), of "[]" 32 "replicate 33 0"] unfolding bytes by simp
  have sig2: "copyRight (?R @ replicate 33 0) 64 (bigBytes (int (beNat ?S))) = Some (?R @ ?S @ [0])"
    unfolding zeros(2) using copyRight_pad [OF bounds(2), of ?R 64 "[0]"] len unfolding bytes by simp
  have v01: "sig ! 64 = 0 \<or> sig ! 64 = 1"
    using v by (auto simp: word_le_nat_alt word_unat_eq_iff)
  have "(of_int (int (unat (sig ! 64))) :: u64) = ucast (sig ! 64)" by simp
  moreover have "ucast (sig ! 64) \<le> (1 :: u64)" "ucast (ucast (sig ! 64) :: u64) = sig ! 64"
    using v01 by auto
  ultimately show ?thesis
    using assms(2,4-) pub sig_parts [OF len] rec
    by (simp add: RecoverSender_def sig1 sig2 pubkeyBytesToAddress_def drop_Suc Let_def not_less)
qed

lemma Marshal_Unmarshal:
  assumes "dew_rlp_codec c" "dxVersion tx = DewTxVersion" "dxChainID tx = Some cid" "cid \<ge> 0"
    "dxAmount tx = Some amt" "dxV tx = Some v" "dxR tx = Some r" "dxS tx = Some s" "v \<ge> 0" "r \<ge> 0" "s \<ge> 0"
  shows "\<exists>b. MarshalDewTx c tx = Inr b \<and> UnmarshalDewTx c b = Inr (tx\<lparr>dxHash := 0\<rparr>)"
proof -
  let ?r = "signedRLP tx"
  have fields: "duVersion ?r = DewTxVersion" "duChainID ?r = cid" "duNonce ?r = dxNonce tx"
    "duSender ?r = addrBytes (dxSender tx)" "duReceiver ?r = addrBytes (dxReceiver tx)" "duAmount ?r = uint amt"
    "duFee ?r = dxFee tx" "duPayload ?r = dxPayload tx" "duAccessList ?r = map addrBytes (dxAccessList tx)"
    "duYParity ?r = v" "duR ?r = r" "duS ?r = s"
    using assms by (simp_all add: signedRLP_def unsignedRLP_def Let_def copyBig_def)
  have amt: "uint amt < 2 ^ 256" "0 \<le> uint amt" using uint_lt2p [of amt] by simp_all
  let ?b = "DewTxType # rlpEncode c (RList (signedFields ?r))"
  have "MarshalDewTx c tx = Inr ?b"
    using assms by (simp add: MarshalDewTx_def encodeSigned_def fields)
  moreover have "rlpDecodeDewTx c (rlpEncode c (RList (signedFields ?r))) = Some ?r"
    "rlpEncode c (RList (signedFields ?r)) \<noteq> []"
    using assms(1) amt assms by (simp_all add: dew_rlp_codec_def fields)
  then have "UnmarshalDewTx c ?b = Inr (tx\<lparr>dxHash := 0\<rparr>)"
    using assms amt by (simp add: UnmarshalDewTx_def fields Suc_le_eq not_le)
  ultimately show ?thesis by blast
qed

text \<open>C34: a native transaction that is signed with the sender's key survives the wire: signing
  succeeds, the envelope decodes to the same signed transaction, and the sender is recovered from it.\<close>

theorem dewtx_sign_wire_recover:
  assumes "dew_signatures c" "dew_rlp_codec c" "dxVersion tx = DewTxVersion" "dxChainID tx = Some cid"
    "cid \<ge> 0" "dxAmount tx = Some amt" "DewSigningHash c tx = Some h" "ecSign c (hashBytes h) key = Some sig"
    "pubkeyAddress c key = dxSender tx"
  shows "\<exists>v r s b. SignDewTx c tx key = Some (tx\<lparr>dxR := r, dxS := s, dxV := v, dxHash := 0\<rparr>, None) \<and>
     MarshalDewTx c (tx\<lparr>dxR := r, dxS := s, dxV := v, dxHash := 0\<rparr>) = Inr b \<and>
     UnmarshalDewTx c b = Inr (tx\<lparr>dxR := r, dxS := s, dxV := v, dxHash := 0\<rparr>) \<and>
     RecoverSender c (tx\<lparr>dxR := r, dxS := s, dxV := v, dxHash := 0\<rparr>) = Some (Inr (dxSender tx))"
proof -
  let ?R = "int (beNat (take 32 sig))" and ?S = "int (beNat (take 32 (drop 32 sig)))" and ?V = "int (unat (sig ! 64))"
  let ?tx = "tx\<lparr>dxR := Some ?R, dxS := Some ?S, dxV := Some ?V, dxHash := 0\<rparr>"
  have "length sig = 65" using assms(1,8) unfolding dew_signatures_def signatures_recover_def by blast
  then have "SignDewTx c tx key = Some (?tx, None)"
    using assms(7-) by (simp add: SignDewTx_def Let_def)
  moreover obtain b where "MarshalDewTx c ?tx = Inr b" "UnmarshalDewTx c b = Inr ?tx"
    using Marshal_Unmarshal [of c ?tx cid amt ?V ?R ?S] assms(2-6) by auto
  moreover have "RecoverSender c ?tx = Some (Inr (dxSender ?tx))"
    using assms(1,7-) by (intro RecoverSender_signed [of c _ h key sig]) simp_all
  ultimately show ?thesis by auto
qed

lemma RecoverSender_yParity:
  assumes "dxV tx = Some v" "(of_int v' :: u64) = of_int v"
  shows "RecoverSender c (tx\<lparr>dxV := Some v'\<rparr>) = RecoverSender c tx"
proof -
  have "DewSigningHash c (tx\<lparr>dxV := Some v'\<rparr>) = DewSigningHash c tx" by simp
  then show ?thesis unfolding RecoverSender_def Let_def using assms by (simp split: option.split)
qed

text \<open>C35: the signature fields are not range-checked.  A recovery id shifted by \<^verbatim>\<open>2^64\<close> recovers the same
  sender from a different envelope, so the hash of a valid transaction is not unique; and a signature
  value \<^verbatim>\<open>R\<close> of more than 32 bytes makes sender recovery panic.\<close>

theorem dewtx_signature_fields_unchecked:
  assumes "RecoverSender c tx = Some (Inr a)" "dxV tx = Some v" "r \<ge> 2 ^ 256"
  shows "RecoverSender c (tx\<lparr>dxV := Some (v + 2 ^ 64)\<rparr>) = Some (Inr a) \<and>
    signedRLP (tx\<lparr>dxV := Some (v + 2 ^ 64)\<rparr>) \<noteq> signedRLP tx \<and>
    RecoverSender c (tx\<lparr>dxR := Some r\<rparr>) = None"
proof -
  have "(of_int (v + 2 ^ 64) :: u64) = of_int v"
    by simp
  then have "RecoverSender c (tx\<lparr>dxV := Some (v + 2 ^ 64)\<rparr>) = RecoverSender c tx"
    by (rule RecoverSender_yParity [OF assms(2)])
  moreover have "duYParity (signedRLP (tx\<lparr>dxV := Some (v + 2 ^ 64)\<rparr>)) \<noteq> duYParity (signedRLP tx)"
    using assms(2) by (simp add: signedRLP_def Let_def copyBig_def)
  moreover have "\<not> length (bigBytes r) \<le> 32"
    using assms(3) unfolding bigBytes_def length_natDigits by simp
  then have "copyRight (replicate 65 0) 32 (bigBytes r) = None" by (simp add: copyRight_def)
  then have "RecoverSender c (tx\<lparr>dxR := Some r\<rparr>) = None"
    using assms(1,2) by (auto simp: RecoverSender_def split: option.splits)
  ultimately show ?thesis using assms(1) by auto
qed


section \<open>A concrete library\<close>

text \<open>A library with the documented behaviour: numbers in unary, byte strings with their length in
  front, and signatures that carry the address of the key.\<close>

definition exNat :: "nat \<Rightarrow> byte list" where "exNat n = replicate n 1 @ [0]"

fun exItem :: "rlp \<Rightarrow> byte list" where
  "exItem (RUint n) = exNat n"
| "exItem (RBig v) = exNat (nat (copyBig v))"
| "exItem (RBytes b) = exNat (length b) @ b"
| "exItem (RString t) = exNat (length t) @ strBytes t"
| "exItem (RList xs) = exNat (length xs) @ concat (map exItem xs)"

definition getNat :: "byte list \<Rightarrow> nat \<times> byte list" where
  "getNat b = (length (takeWhile (\<lambda>x. x = 1) b), drop 1 (dropWhile (\<lambda>x. x = 1) b))"

definition getBytes :: "byte list \<Rightarrow> byte list \<times> byte list" where
  "getBytes b = (let (n, r) = getNat b in (take n r, drop n r))"

fun getMany :: "nat \<Rightarrow> byte list \<Rightarrow> byte list list \<times> byte list" where
  "getMany 0 b = ([], b)"
| "getMany (Suc k) b = (let (x, r) = getBytes b; (xs, r') = getMany k r in (x # xs, r'))"

definition exDecode :: "byte list \<Rightarrow> dewTxSignedRLP option" where
  "exDecode b =
     (let (n, b0) = getNat b; (ver, b1) = getNat b0; (cid, b2) = getNat b1; (non, b3) = getNat b2;
          (snd, b4) = getBytes b3; (rcv, b5) = getBytes b4; (amt, b6) = getNat b5; (fee, b7) = getNat b6;
          (pay, b8) = getBytes b7; (k, b9) = getNat b8; (al, b10) = getMany k b9; (v, b11) = getNat b10;
          (r, b12) = getNat b11; (s, b13) = getNat b12
      in Some \<lparr>duVersion = of_nat ver, duChainID = int cid, duNonce = of_nat non, duSender = snd, duReceiver = rcv,
           duAmount = int amt, duFee = of_nat fee, duPayload = pay, duAccessList = al, duYParity = int v,
           duR = int r, duS = int s\<rparr>)"

definition exTxLib :: "address txLib" where
  "exTxLib = \<lparr>
     keccak = (\<lambda>b. drop (length b) (replicate 32 0 @ b)),
     rlpEncode = exItem,
     ecSign = (\<lambda>d k. Some (addrBytes k @ replicate 45 0)),
     ecRecover = (\<lambda>d sig. if length sig = 65 then Some (replicate 45 0 @ take 20 sig) else None),
     pubkeyAddress = (\<lambda>k. k),
     rlpDecodeDewTx = exDecode\<rparr>"

definition exDewTx :: DewTx where
  "exDewTx = \<lparr>dxVersion = DewTxVersion, dxChainID = Some 3, dxNonce = 0, dxSender = 7, dxReceiver = 8,
     dxAmount = Some 5, dxFee = DefaultDewTxFeeWei, dxPayload = [], dxAccessList = [9], dxV = Some 0, dxR = Some 0,
     dxS = Some 0, dxHash = 0\<rparr>"

lemma getNat_exNat [simp]: "getNat (exNat n @ rest) = (n, rest)"
  by (induction n) (simp_all add: getNat_def exNat_def)

lemma getNat_tail [simp]: "getNat (exNat n) = (n, [])"
  using getNat_exNat [of n "[]"] by simp

lemma getBytes_ex [simp]: "getBytes (exNat (length b) @ b @ rest) = (b, rest)"
  by (simp add: getBytes_def)

lemma getMany_ex [simp]: "getMany (length xs) (concat (map (exItem \<circ> RBytes) xs) @ rest) = (xs, rest)"
  by (induction xs) simp_all

lemma exTxLib_codec: "dew_rlp_codec exTxLib"
proof -
  have "exDecode (exItem (RList (signedFields r))) = Some r"
    if "duChainID r \<ge> 0" "duAmount r \<ge> 0" "duYParity r \<ge> 0" "duR r \<ge> 0" "duS r \<ge> 0" for r
    using that
    by (simp add: exDecode_def signedFields_def unsignedFields_def copyBig_def Let_def)
  then show ?thesis by (simp add: dew_rlp_codec_def exTxLib_def exNat_def)
qed

lemma exTxLib_signatures: "dew_signatures exTxLib"
  by (auto simp: dew_signatures_def signatures_recover_def exTxLib_def pubkeyBytesToAddress_def nth_append)

lemma exTxLib_hash: "\<exists>h. DewSigningHash exTxLib exDewTx = Some h"
  by (simp add: DewSigningHash_def encodeUnsigned_def unsignedRLP_def Let_def exDewTx_def copyBig_def)

lemma exTx_fields:
  "ecSign exTxLib d k = Some (addrBytes k @ replicate 45 0)" "pubkeyAddress exTxLib k = k" "dxSender exDewTx = 7"
  by (simp_all add: exTxLib_def exDewTx_def)

theorem dewtx_sign_wire_recover_witness:
  "\<exists>tx b. SignDewTx exTxLib exDewTx 7 = Some (tx, None) \<and> MarshalDewTx exTxLib tx = Inr b \<and>
     UnmarshalDewTx exTxLib b = Inr tx \<and> RecoverSender exTxLib tx = Some (Inr 7)"
proof -
  obtain h where h: "DewSigningHash exTxLib exDewTx = Some h" using exTxLib_hash by blast
  show ?thesis
    using dewtx_sign_wire_recover [OF exTxLib_signatures exTxLib_codec _ _ _ _ h, of 3 5 7]
    by (auto simp: exDewTx_def exTxLib_def)
qed

theorem dewtx_signature_fields_unchecked_witness:
  "\<exists>tx. RecoverSender exTxLib tx = Some (Inr 7) \<and>
     RecoverSender exTxLib (tx\<lparr>dxV := Some (2 ^ 64)\<rparr>) = Some (Inr 7) \<and>
     RecoverSender exTxLib (tx\<lparr>dxR := Some (2 ^ 256)\<rparr>) = None"
proof -
  let ?sig = "addrBytes 7 @ replicate 45 0"
  let ?tx = "exDewTx\<lparr>dxR := Some (int (beNat (take 32 ?sig))), dxS := Some (int (beNat (take 32 (drop 32 ?sig)))),
    dxV := Some (int (unat (?sig ! 64)))\<rparr>"
  obtain h where h: "DewSigningHash exTxLib exDewTx = Some h" using exTxLib_hash by blast
  have "RecoverSender exTxLib ?tx = Some (Inr (dxSender ?tx))"
    using h by (intro RecoverSender_signed [OF exTxLib_signatures, of _ h 7 ?sig])
      (simp_all add: exTx_fields)
  then have ok: "RecoverSender exTxLib ?tx = Some (Inr 7)" by (simp add: exTx_fields)
  have V: "dxV ?tx = Some 0" by (simp add: nth_append)
  show ?thesis
    using dewtx_signature_fields_unchecked [OF ok V, of "2 ^ 256"] ok by (intro exI [of _ ?tx]) simp
qed

end
