(* ===== verification/NativeTx.thy ===== *)
theory NativeTx
  imports DewTx StakingSet
begin

text \<open>
  Execution of native transactions (\<^verbatim>\<open>src/core/native/executor.go\<close>): checks, the optional credit
  module of the payload, the debit and credits, the fee split of the staking module and
  finalisation.  The state database is threaded by the state monad.  An error that rejects the
  transaction is \<^verbatim>\<open>Inl\<close>; a failed result is \<^verbatim>\<open>Inr\<close> with \<^verbatim>\<open>rsFailed\<close> set.
\<close>

section \<open>Executor\<close>

definition PayloadCredit :: byte where "PayloadCredit = 0x01"

datatype nativeErr =
    NilTx | NativeVersion | FeeBelowMinimum | AccessListIncomplete address | NativeBadNonce
  | CreditLength | UnknownModule byte | NativeInsufficientBalance

record Result =
  rsFeePaid :: u64
  rsFailed :: bool
  rsErr :: "nativeErr option"
  rsTouched :: "address list"

text \<open>\<^verbatim>\<open>Executor\<close> without the state database; the staking parameters play no role in the fee split.\<close>

record Executor =
  nxFeeSink :: address
  nxStakingEnabled :: bool

definition NewExecutor :: "address \<Rightarrow> Executor" where
  "NewExecutor feeSink = \<lparr>nxFeeSink = feeSink, nxStakingEnabled = False\<rparr>"

definition EnableStaking :: "Executor \<Rightarrow> bool \<Rightarrow> Executor" where
  "EnableStaking e v = e\<lparr>nxStakingEnabled := v\<rparr>"

definition failResult :: "nativeErr \<Rightarrow> Result" where
  "failResult e = \<lparr>rsFeePaid = 0, rsFailed = True, rsErr = Some e, rsTouched = []\<rparr>"

text \<open>The fee charged, the amount moved, and the accounts a transaction may touch.\<close>

definition dewFee :: "DewTx \<Rightarrow> u64" where
  "dewFee tx = (if dxFee tx = 0 then DefaultDewTxFeeWei else dxFee tx)"

definition dewAmount :: "DewTx \<Rightarrow> u256" where
  "dewAmount tx = (case dxAmount tx of None \<Rightarrow> 0 | Some x \<Rightarrow> x)"

definition allowedAddrs :: "Executor \<Rightarrow> DewTx \<Rightarrow> address list" where
  "allowedAddrs e tx = [dxSender tx, dxReceiver tx] @ dxAccessList tx @ [nxFeeSink e]"

definition requireAccess :: "address list \<Rightarrow> address \<Rightarrow> nativeErr option" where
  "requireAccess allowed addr = (if addr \<in> set allowed then None else Some (AccessListIncomplete addr))"

text \<open>The payload module: a secondary credit of an amount to an address.\<close>

definition parsePayload :: "address list \<Rightarrow> byte list \<Rightarrow> nativeErr + (address \<times> u256) option" where
  "parsePayload allowed payload =
     (if length payload > 0 then
        if payload ! 0 = PayloadCredit then
          if length payload \<noteq> 1 + 20 + 32 then Inl CreditLength
          else let a = bytesAddr (take 20 (drop 1 payload));
                   amt = of_nat (beNat (take 32 (drop 21 payload)))
               in (case requireAccess allowed a of Some e \<Rightarrow> Inl e | None \<Rightarrow> Inr (Some (a, amt)))
        else Inl (UnknownModule (payload ! 0))
      else Inr None)"

definition subBalanceM :: "('key, 'z) stateLib_scheme \<Rightarrow> address \<Rightarrow> u256 \<Rightarrow> unit stk" where
  "subBalanceM c a amount = State (\<lambda>s. ((), snd (SubBalance c s a amount)))"

definition getNonceM :: "('key, 'z) stateLib_scheme \<Rightarrow> address \<Rightarrow> u64 stk" where
  "getNonceM c a = State (\<lambda>s. GetNonce c s a)"

definition getBalanceM :: "('key, 'z) stateLib_scheme \<Rightarrow> address \<Rightarrow> u256 stk" where
  "getBalanceM c a = State (\<lambda>s. GetBalance c s a)"

definition setNonceM :: "('key, 'z) stateLib_scheme \<Rightarrow> address \<Rightarrow> u64 \<Rightarrow> unit stk" where
  "setNonceM c a n = State (\<lambda>s. ((), SetNonceJournaled c s a n))"

definition finaliseM :: "('key, 'z) stateLib_scheme \<Rightarrow> bool \<Rightarrow> unit stk" where
  "finaliseM c d = State (\<lambda>s. ((), Finalise c s d))"

text \<open>The mutation: debit, credits, fee split, nonce.\<close>

definition mutateDewTx :: "('key, 'z) stateLib_scheme \<Rightarrow> Executor \<Rightarrow> DewTx \<Rightarrow> u256 \<Rightarrow> (address \<times> u256) option \<Rightarrow> unit stk" where
  "mutateDewTx c e tx need extra = do {
     subBalanceM c (dxSender tx) need;
     (if dewAmount tx \<noteq> 0 then addBalanceM c (dxReceiver tx) (dewAmount tx) else State_Monad.return ());
     (case extra of
        None \<Rightarrow> State_Monad.return ()
      | Some (a, v) \<Rightarrow> if v \<noteq> 0 then addBalanceM c a v else State_Monad.return ());
     (if dewFee tx > 0 then DistributeProposerIncome c (nxFeeSink e) (ucast (dewFee tx)) (nxStakingEnabled e)
      else State_Monad.return ());
     setNonceM c (dxSender tx) (dxNonce tx + 1) }"

text \<open>The whole debit, added in 256-bit arithmetic.\<close>

definition dewNeed :: "DewTx \<Rightarrow> (address \<times> u256) option \<Rightarrow> u256" where
  "dewNeed tx extra =
     (let need = dewAmount tx;
          need = (case extra of None \<Rightarrow> need | Some (a, v) \<Rightarrow> need + v)
      in need + ucast (dewFee tx))"

definition ApplyDewTx :: "('key, 'z) stateLib_scheme \<Rightarrow> Executor \<Rightarrow> DewTx option \<Rightarrow> (nativeErr + Result) stk" where
  "ApplyDewTx c e txp = (case txp of
     None \<Rightarrow> State_Monad.return (Inl NilTx)
   | Some tx \<Rightarrow>
       if dxVersion tx \<noteq> DewTxVersion then State_Monad.return (Inl NativeVersion)
       else if dewFee tx < MinDewTxFeeWei then State_Monad.return (Inl FeeBelowMinimum)
       else do {
         n \<leftarrow> getNonceM c (dxSender tx);
         if n \<noteq> dxNonce tx then do { getNonceM c (dxSender tx); State_Monad.return (Inl NativeBadNonce) }
         else let allowed = allowedAddrs e tx in
           (case parsePayload allowed (dxPayload tx) of
              Inl err \<Rightarrow> State_Monad.return (Inr (failResult err))
            | Inr extra \<Rightarrow>
                (case requireAccess allowed (dxSender tx) of
                   Some err \<Rightarrow> State_Monad.return (Inr (failResult err))
                 | None \<Rightarrow>
                     (case requireAccess allowed (dxReceiver tx) of
                        Some err \<Rightarrow> State_Monad.return (Inr (failResult err))
                      | None \<Rightarrow> do {
                          bal \<leftarrow> getBalanceM c (dxSender tx);
                          let need = dewNeed tx extra;
                          if bal < need then State_Monad.return (Inl NativeInsufficientBalance)
                          else do {
                            mutateDewTx c e tx need extra;
                            finaliseM c True;
                            State_Monad.return (Inr \<lparr>rsFeePaid = dewFee tx, rsFailed = False, rsErr = None,
                              rsTouched = [dxSender tx, dxReceiver tx, nxFeeSink e] @
                                (case extra of None \<Rightarrow> [] | Some (a, v) \<Rightarrow> [a])\<rparr>) } }))) })"


lemma exec_finalise [simp]: "exec (finaliseM c d) s = Finalise c s d"
  by (simp add: exec_def finaliseM_def)


section \<open>Effect on the accounts\<close>

text \<open>The account views with an amount added to one balance.\<close>

definition credit :: "(address \<Rightarrow> Account) \<Rightarrow> address \<Rightarrow> u256 \<Rightarrow> address \<Rightarrow> Account" where
  "credit f a v = f(a := (f a)\<lparr>aBalance := aBalance (f a) + v\<rparr>)"

definition extraOf :: "DewTx \<Rightarrow> (address \<times> u256) option \<Rightarrow> address \<times> u256" where
  "extraOf tx extra = (case extra of None \<Rightarrow> (dxSender tx, 0) | Some p \<Rightarrow> p)"

definition same_accounts :: "('key, 'z) stateLib_scheme \<Rightarrow> StateDB \<Rightarrow> StateDB \<Rightarrow> bool" where
  "same_accounts c s t \<longleftrightarrow> accountOf c t = accountOf c s \<and> sdSuicides t = sdSuicides s \<and> sdDb t = sdDb s"

lemma credit_zero [simp]: "credit f a 0 = f"
  by (auto simp: credit_def fun_eq_iff)

lemma read_effects [simp]:
  "same_accounts c s (exec (getNonceM c a) s)" "same_accounts c s (exec (getBalanceM c a) s)"
  "result (getNonceM c a) s = aNonce (accountOf c s a)" "result (getBalanceM c a) s = aBalance (accountOf c s a)"
  by (simp_all add: same_accounts_def exec_def result_def getNonceM_def getBalanceM_def accessor_views
      accountOf_def fun_eq_iff)

lemma write_effects:
  assumes "sdSuicides s = []"
  shows "accountOf c (exec (subBalanceM c a v) s) = credit (accountOf c s) a (- v)"
    "accountOf c (exec (addBalanceM c a v) s) = credit (accountOf c s) a v"
    "accountOf c (exec (setNonceM c a n) s) = (accountOf c s)(a := (accountOf c s a)\<lparr>aNonce := n\<rparr>)"
proof -
  show "accountOf c (exec (subBalanceM c a v) s) = credit (accountOf c s) a (- v)"
    using assms by (simp add: credit_def exec_def subBalanceM_def accountOf_SubBalance)
  show "accountOf c (exec (addBalanceM c a v) s) = credit (accountOf c s) a v"
    using assms by (simp add: credit_def addBalanceM_effect)
  show "accountOf c (exec (setNonceM c a n) s) = (accountOf c s)(a := (accountOf c s a)\<lparr>aNonce := n\<rparr>)"
    using assms by (auto simp: exec_def setNonceM_def SetNonceJournaled_def case_prod_beta Let_def accountOf_def fun_eq_iff)
qed

lemma write_frames [simp]:
  "sdSuicides (exec (subBalanceM c a v) s) = sdSuicides s" "sdDb (exec (subBalanceM c a v) s) = sdDb s"
  "sdSuicides (exec (addBalanceM c a v) s) = sdSuicides s" "sdDb (exec (addBalanceM c a v) s) = sdDb s"
  "sdSuicides (exec (setNonceM c a n) s) = sdSuicides s" "sdDb (exec (setNonceM c a n) s) = sdDb s"
  by (simp_all add: exec_def subBalanceM_def addBalanceM_def setNonceM_def SubBalance_def AddBalancePrev_def
      SetNonceJournaled_def case_prod_beta Let_def)

lemma split_credit:
  "split_of c s t p amount V \<Longrightarrow>
     accountOf c t = credit (credit (accountOf c s) p V) StakingModuleAddr (amount - V)"
  by (auto simp: split_of_def credit_def fun_eq_iff)

definition paidAccounts :: "Executor \<Rightarrow> DewTx \<Rightarrow> u256 \<Rightarrow> (address \<times> u256) option \<Rightarrow> u256 \<Rightarrow>
    (address \<Rightarrow> Account) \<Rightarrow> address \<Rightarrow> Account" where
  "paidAccounts e tx need extra V f =
     credit (credit (credit (credit (credit f (dxSender tx) (- need)) (dxReceiver tx) (dewAmount tx))
       (fst (extraOf tx extra)) (snd (extraOf tx extra))) (nxFeeSink e) V)
       StakingModuleAddr (ucast (dewFee tx) - V)"

definition bumped :: "(address \<Rightarrow> Account) \<Rightarrow> DewTx \<Rightarrow> address \<Rightarrow> Account" where
  "bumped g tx = g(dxSender tx := (g (dxSender tx))\<lparr>aNonce := dxNonce tx + 1\<rparr>)"

lemma fee_positive: "dewFee tx \<ge> MinDewTxFeeWei \<Longrightarrow> dewFee tx > 0"
  by (simp add: MinDewTxFeeWei_def DefaultDewTxFeeWei_def word_gt_0) auto

lemma mutate_effect:
  fixes c :: "('key, 'z) stateLib_scheme"
  assumes live: "sdSuicides s = []" and fee: "dewFee tx > 0"
  shows "\<exists>V \<le> ucast (dewFee tx).
     accountOf c (exec (mutateDewTx c e tx need extra) s) =
       bumped (paidAccounts e tx need extra V (accountOf c s)) tx \<and>
     sdSuicides (exec (mutateDewTx c e tx need extra) s) = [] \<and> sdDb (exec (mutateDewTx c e tx need extra) s) = sdDb s"
proof -
  let ?D = "DistributeProposerIncome c (nxFeeSink e) (ucast (dewFee tx)) (nxStakingEnabled e)"
  define s1 where "s1 = exec (subBalanceM c (dxSender tx) need) s"
  define s2 where "s2 = (if dewAmount tx \<noteq> 0 then exec (addBalanceM c (dxReceiver tx) (dewAmount tx)) s1 else s1)"
  define s3 where "s3 = (case extra of None \<Rightarrow> s2 | Some (a, v) \<Rightarrow> if v \<noteq> 0 then exec (addBalanceM c a v) s2 else s2)"
  have s2: "accountOf c s2 = credit (credit (accountOf c s) (dxSender tx) (- need)) (dxReceiver tx) (dewAmount tx)"
    "sdSuicides s2 = []" "sdDb s2 = sdDb s"
    using live by (simp_all add: s1_def s2_def write_effects)
  have s3: "accountOf c s3 = credit (accountOf c s2) (fst (extraOf tx extra)) (snd (extraOf tx extra))"
    "sdSuicides s3 = []" "sdDb s3 = sdDb s"
    using s2 by (auto simp: s3_def extraOf_def write_effects split: option.split prod.split)
  obtain V where V: "V \<le> ucast (dewFee tx)" and split: "split_of c s3 (exec ?D s3) (nxFeeSink e) (ucast (dewFee tx)) V"
    using distribute_split [of "nxFeeSink e" s3 "ucast (dewFee tx)" c "nxStakingEnabled e"] s3(2) by auto
  have run: "exec (mutateDewTx c e tx need extra) s = exec (setNonceM c (dxSender tx) (dxNonce tx + 1)) (exec ?D s3)"
    using fee by (simp add: mutateDewTx_def s1_def s2_def s3_def split: option.split prod.split)
  have "sdSuicides (exec ?D s3) = []" "sdDb (exec ?D s3) = sdDb s"
    using split s3 by (simp_all add: split_of_def)
  then show ?thesis using V unfolding run
    by (intro exI [of _ V]) (simp add: write_effects split_credit [OF split] s3(1) s2(1) paidAccounts_def bumped_def)
qed


section \<open>Conservation\<close>

definition totalOf :: "address set \<Rightarrow> (address \<Rightarrow> Account) \<Rightarrow> nat" where
  "totalOf P f = (\<Sum>a\<in>P. unat (aBalance (f a)))"

lemma total_bound: "finite P \<Longrightarrow> a \<in> P \<Longrightarrow> unat (aBalance (f a)) \<le> totalOf P f"
  unfolding totalOf_def by (rule member_le_sum) simp_all

lemma total_upd:
  "finite P \<Longrightarrow> a \<in> P \<Longrightarrow> totalOf P (f(a := x)) + unat (aBalance (f a)) = totalOf P f + unat (aBalance x)"
  unfolding totalOf_def by (simp add: sum.remove [of P a])

lemma credit_empty:
  assumes "unat (aBalance (f a) + v) = unat (aBalance (f a)) + unat v" "credit f a v b = NewAccount c"
  shows "f b = NewAccount c"
proof (cases "b = a")
  case True
  then have "aBalance (credit f a v a) = 0" using assms(2) by (simp add: NewAccount_def)
  then have "aBalance (f a) + v = 0" by (simp add: credit_def)
  then have "v = 0" using assms(1) by (simp add: unat_eq_zero)
  then show ?thesis using assms(2) by simp
next
  case False
  then show ?thesis using assms(2) by (simp add: credit_def)
qed

lemma total_credit:
  assumes "finite P" "a \<in> P" "totalOf P f + unat v < 2 ^ 256"
  shows "totalOf P (credit f a v) = totalOf P f + unat v"
    "credit f a v b = NewAccount c \<Longrightarrow> f b = NewAccount c"
proof -
  have "unat (aBalance (f a)) + unat v < 2 ^ 256"
    using total_bound [OF assms(1,2), of f] assms(3) by linarith
  then have sum: "unat (aBalance (f a) + v) = unat (aBalance (f a)) + unat v"
    by (intro unat_plus_exact) simp
  then show "totalOf P (credit f a v) = totalOf P f + unat v"
    using total_upd [OF assms(1,2), of f "(f a)\<lparr>aBalance := aBalance (f a) + v\<rparr>"]
    by (simp add: credit_def)
  show "credit f a v b = NewAccount c \<Longrightarrow> f b = NewAccount c"
    using sum by (rule credit_empty)
qed

lemma total_debit:
  assumes "finite P" "a \<in> P" "v \<le> aBalance (f a)"
  shows "totalOf P (credit f a (- v)) + unat v = totalOf P f"
proof -
  have "unat (aBalance (f a) - v) = unat (aBalance (f a)) - unat v" "unat v \<le> unat (aBalance (f a))"
    using assms(3) by (simp_all add: unat_sub word_le_nat_alt)
  then show ?thesis
    using total_upd [OF assms(1,2), of f "(f a)\<lparr>aBalance := aBalance (f a) - v\<rparr>"] by (simp add: credit_def)
qed

lemma unat_ucast_u256: "unat (ucast (x :: u64) :: u256) = unat x"
proof -
  have "unat x < 2 ^ 256" by (rule less_trans [OF unat_u64_bound]) simp
  then show ?thesis by (simp add: unsigned_ucast_eq take_bit_nat_eq_self)
qed

lemma paid_conserves:
  assumes P: "finite P" "{dxSender tx, dxReceiver tx, fst (extraOf tx extra), nxFeeSink e, StakingModuleAddr} \<subseteq> P"
    and tot: "totalOf P f < 2 ^ 256" and V: "V \<le> ucast (dewFee tx)"
    and need: "unat need = unat (dewAmount tx) + unat (snd (extraOf tx extra)) + unat (dewFee tx)"
    and funds: "need \<le> aBalance (f (dxSender tx))"
  shows "totalOf P (paidAccounts e tx need extra V f) = totalOf P f"
    "a \<noteq> dxSender tx \<Longrightarrow> paidAccounts e tx need extra V f a = NewAccount c \<Longrightarrow> f a = NewAccount c"
proof -
  have mem: "dxSender tx \<in> P" "dxReceiver tx \<in> P" "fst (extraOf tx extra) \<in> P" "nxFeeSink e \<in> P" "StakingModuleAddr \<in> P"
    using P(2) by auto
  define f0 where "f0 = credit f (dxSender tx) (- need)"
  define f1 where "f1 = credit f0 (dxReceiver tx) (dewAmount tx)"
  define f2 where "f2 = credit f1 (fst (extraOf tx extra)) (snd (extraOf tx extra))"
  define f3 where "f3 = credit f2 (nxFeeSink e) V"
  define f4 where "f4 = credit f3 StakingModuleAddr (ucast (dewFee tx) - V)"
  have fee: "unat (ucast (dewFee tx) - V) + unat V = unat (dewFee tx)"
    using V by (simp add: unat_sub word_le_nat_alt unat_ucast_u256)
  have t0: "totalOf P f0 + unat need = totalOf P f"
    unfolding f0_def using P(1) mem(1) funds by (rule total_debit)
  have t1: "totalOf P f0 + unat (dewAmount tx) < 2 ^ 256" using t0 need tot by linarith
  note c1 = total_credit [OF P(1) mem(2) t1, folded f1_def]
  have t2: "totalOf P f1 + unat (snd (extraOf tx extra)) < 2 ^ 256" using t0 need tot c1(1) by linarith
  note c2 = total_credit [OF P(1) mem(3) t2, folded f2_def]
  have t3: "totalOf P f2 + unat V < 2 ^ 256" using t0 need tot c1(1) c2(1) fee by linarith
  note c3 = total_credit [OF P(1) mem(4) t3, folded f3_def]
  have t4: "totalOf P f3 + unat (ucast (dewFee tx) - V) < 2 ^ 256"
    using t0 need tot c1(1) c2(1) c3(1) fee by linarith
  note c4 = total_credit [OF P(1) mem(5) t4, folded f4_def]
  have f4: "paidAccounts e tx need extra V f = f4"
    by (simp add: paidAccounts_def f0_def f1_def f2_def f3_def f4_def)
  show "totalOf P (paidAccounts e tx need extra V f) = totalOf P f"
    unfolding f4 using t0 need c1(1) c2(1) c3(1) c4(1) fee by linarith
  assume "a \<noteq> dxSender tx" "paidAccounts e tx need extra V f a = NewAccount c"
  then have "f0 a = NewAccount c" unfolding f4 using c1(2) c2(2) c3(2) c4(2) by blast
  then show "f a = NewAccount c" using \<open>a \<noteq> dxSender tx\<close> by (simp add: f0_def credit_def)
qed

text \<open>A state between transactions: nothing destroyed is pending, and no account that reads as empty
  has another committed value.\<close>

definition settled :: "('key, 'z) stateLib_scheme \<Rightarrow> StateDB \<Rightarrow> bool" where
  "settled c s \<longleftrightarrow> sdSuicides s = [] \<and>
     (\<forall>a. accountOf c s a = NewAccount c \<longrightarrow> fromDb c (sdDb s) a = NewAccount c)"

text \<open>The amount of the credit module of a payload, zero without one.\<close>

definition creditAmount :: "Executor \<Rightarrow> DewTx \<Rightarrow> u256" where
  "creditAmount e tx = (case parsePayload (allowedAddrs e tx) (dxPayload tx) of
     Inl err \<Rightarrow> 0 | Inr extra \<Rightarrow> snd (extraOf tx extra))"

lemma same_accounts_trans: "same_accounts c s t \<Longrightarrow> same_accounts c t u \<Longrightarrow> same_accounts c s u"
  by (simp add: same_accounts_def)

lemma require_own [simp]:
  "requireAccess (allowedAddrs e tx) (dxSender tx) = None" "requireAccess (allowedAddrs e tx) (dxReceiver tx) = None"
  by (simp_all add: requireAccess_def allowedAddrs_def)

lemma parsePayload_allowed:
  "parsePayload (allowedAddrs e tx) p = Inr extra \<Longrightarrow> fst (extraOf tx extra) \<in> set (allowedAddrs e tx)"
  by (auto simp: parsePayload_def requireAccess_def Let_def extraOf_def allowedAddrs_def split: if_splits)

definition accepts :: "('key, 'z) stateLib_scheme \<Rightarrow> Executor \<Rightarrow> DewTx \<Rightarrow> StateDB \<Rightarrow> (address \<times> u256) option \<Rightarrow> bool" where
  "accepts c e tx s extra \<longleftrightarrow> dxVersion tx = DewTxVersion \<and> MinDewTxFeeWei \<le> dewFee tx \<and>
     aNonce (accountOf c s (dxSender tx)) = dxNonce tx \<and>
     parsePayload (allowedAddrs e tx) (dxPayload tx) = Inr extra \<and>
     dewNeed tx extra \<le> aBalance (accountOf c s (dxSender tx))"

lemma ApplyDewTx_accepts:
  assumes "accepts c e tx s extra"
  shows "\<exists>s1 r. same_accounts c s s1 \<and> result (ApplyDewTx c e (Some tx)) s = Inr r \<and> \<not> rsFailed r \<and>
     rsFeePaid r = dewFee tx \<and>
     exec (ApplyDewTx c e (Some tx)) s = Finalise c (exec (mutateDewTx c e tx (dewNeed tx extra) extra) s1) True"
proof -
  let ?s1 = "exec (getNonceM c (dxSender tx)) s" 
  let ?s2 = "exec (getBalanceM c (dxSender tx)) ?s1"
  have "same_accounts c s ?s1" "same_accounts c ?s1 ?s2" by simp_all
  then have same: "same_accounts c s ?s2" by (rule same_accounts_trans)
  have acc: "accountOf c ?s1 = accountOf c s" using read_effects(1) [of c s] by (simp add: same_accounts_def)
  have dec: "dxVersion tx = DewTxVersion" "\<not> dewFee tx < MinDewTxFeeWei" "aNonce (accountOf c s (dxSender tx)) = dxNonce tx"
    "parsePayload (allowedAddrs e tx) (dxPayload tx) = Inr extra"
    "\<not> aBalance (accountOf c s (dxSender tx)) < dewNeed tx extra"
    using assms by (simp_all add: accepts_def not_less)
  have "exec (ApplyDewTx c e (Some tx)) s = Finalise c (exec (mutateDewTx c e tx (dewNeed tx extra) extra) ?s2) True"
    using dec by (simp add: ApplyDewTx_def acc)
  moreover obtain r where "result (ApplyDewTx c e (Some tx)) s = Inr r" "\<not> rsFailed r" "rsFeePaid r = dewFee tx"
    using dec by (simp add: ApplyDewTx_def acc)
  ultimately show ?thesis using same by blast
qed

lemma ApplyDewTx_rejects:
  assumes "\<nexists>extra. accepts c e tx s extra"
  shows "same_accounts c s (exec (ApplyDewTx c e (Some tx)) s) \<and>
    (case result (ApplyDewTx c e (Some tx)) s of Inl err \<Rightarrow> True | Inr r \<Rightarrow> rsFailed r)"
proof -
  let ?s1 = "exec (getNonceM c (dxSender tx)) s"
  let ?s2 = "exec (getBalanceM c (dxSender tx)) ?s1" and ?s3 = "exec (getNonceM c (dxSender tx)) ?s1"
  have s1: "same_accounts c s ?s1" by simp
  then have same: "same_accounts c s ?s2" "same_accounts c s ?s3" by (rule same_accounts_trans, simp)+
  have refl: "same_accounts c s s" by (simp add: same_accounts_def)
  have acc: "accountOf c ?s1 = accountOf c s" using s1 by (simp add: same_accounts_def)
  show ?thesis
  proof (cases "parsePayload (allowedAddrs e tx) (dxPayload tx)")
    case (Inl err)
    then show ?thesis using s1 same refl by (simp add: ApplyDewTx_def acc failResult_def)
  next
    case (Inr extra)
    then have "dxVersion tx \<noteq> DewTxVersion \<or> dewFee tx < MinDewTxFeeWei \<or>
        aNonce (accountOf c s (dxSender tx)) \<noteq> dxNonce tx \<or> aBalance (accountOf c s (dxSender tx)) < dewNeed tx extra"
      using assms by (auto simp: accepts_def not_less)
    then show ?thesis using Inr s1 same refl by (auto simp: ApplyDewTx_def acc)
  qed
qed

lemma Finalise_keep:
  "sdSuicides t = [] \<Longrightarrow> (accountOf c t a = NewAccount c \<Longrightarrow> fromDb c (sdDb t) a = NewAccount c) \<Longrightarrow>
     accountOf c (Finalise c t True) a = accountOf c t a"
  by (auto simp: Finalise_views)

lemma ApplyDewTx_accounts:
  assumes "accepts c e tx s extra" "sdSuicides s = []"
  obtains V where "V \<le> ucast (dewFee tx)"
    "\<And>a. (bumped (paidAccounts e tx (dewNeed tx extra) extra V (accountOf c s)) tx a = NewAccount c \<Longrightarrow>
        fromDb c (sdDb s) a = NewAccount c) \<Longrightarrow>
      accountOf c (exec (ApplyDewTx c e (Some tx)) s) a =
      bumped (paidAccounts e tx (dewNeed tx extra) extra V (accountOf c s)) tx a"
proof -
  obtain s1 where s1: "same_accounts c s s1"
    "exec (ApplyDewTx c e (Some tx)) s = Finalise c (exec (mutateDewTx c e tx (dewNeed tx extra) extra) s1) True"
    using ApplyDewTx_accepts [OF assms(1)] by blast
  let ?t = "exec (mutateDewTx c e tx (dewNeed tx extra) extra) s1"
  have fee: "dewFee tx > 0" using assms(1) by (simp add: accepts_def fee_positive)
  obtain V where V: "V \<le> ucast (dewFee tx)" and
    t: "accountOf c ?t = bumped (paidAccounts e tx (dewNeed tx extra) extra V (accountOf c s)) tx"
      "sdSuicides ?t = []" "sdDb ?t = sdDb s"
    using mutate_effect [of s1 tx c e "dewNeed tx extra" extra] fee s1(1) assms(2)
    by (auto simp: same_accounts_def)
  show thesis
    using V by (rule that) (use Finalise_keep [of ?t c] t in \<open>simp add: s1(2)\<close>)
qed

lemma bumped_balance [simp]: "aBalance (bumped g tx a) = aBalance (g a)"
  by (simp add: bumped_def)

lemma bumped_sender:
  assumes "dxNonce tx + 1 \<noteq> 0"
  shows "bumped g tx (dxSender tx) \<noteq> NewAccount c"
proof
  assume "bumped g tx (dxSender tx) = NewAccount c"
  then have "aNonce (bumped g tx (dxSender tx)) = aNonce (NewAccount c)" by simp
  with assms show False by (simp add: bumped_def NewAccount_def)
qed

lemma dewNeed_exact:
  assumes "unat (dewAmount tx) + unat (snd (extraOf tx extra)) + unat (dewFee tx) < 2 ^ 256"
  shows "unat (dewNeed tx extra) = unat (dewAmount tx) + unat (snd (extraOf tx extra)) + unat (dewFee tx)"
proof -
  have eq: "dewNeed tx extra = dewAmount tx + snd (extraOf tx extra) + ucast (dewFee tx)"
    by (auto simp: dewNeed_def extraOf_def Let_def split: option.split)
  have "unat (dewAmount tx + snd (extraOf tx extra)) = unat (dewAmount tx) + unat (snd (extraOf tx extra))"
    using assms by (intro unat_plus_exact) simp
  then show ?thesis unfolding eq using assms
    by (subst unat_plus_exact) (simp_all add: unat_ucast_u256)
qed

text \<open>C33: executing a native transaction neither creates nor destroys value: over any set of accounts
  that contains those the transaction may touch, the sum of the balances is the same before and after,
  whatever the outcome, as long as the sum \<^verbatim>\<open>Amount + credit + fee\<close> fits 256 bits.  The sender's nonce advances
  exactly when the transaction is executed.\<close>

theorem native_tx_conserves_balances:
  assumes "settled c s" "finite P" "set (StakingModuleAddr # allowedAddrs e tx) \<subseteq> P" "dxNonce tx + 1 \<noteq> 0"
    "(\<Sum>a\<in>P. unat (fst (GetBalance c s a))) < 2 ^ 256"
    "unat (dewAmount tx) + unat (creditAmount e tx) + unat (dewFee tx) < 2 ^ 256"
  shows "(\<Sum>a\<in>P. unat (fst (GetBalance c (exec (ApplyDewTx c e (Some tx)) s) a))) =
      (\<Sum>a\<in>P. unat (fst (GetBalance c s a))) \<and>
    fst (GetNonce c (exec (ApplyDewTx c e (Some tx)) s) (dxSender tx)) =
      (case result (ApplyDewTx c e (Some tx)) s of
         Inl err \<Rightarrow> fst (GetNonce c s (dxSender tx))
       | Inr r \<Rightarrow> if rsFailed r then fst (GetNonce c s (dxSender tx)) else dxNonce tx + 1)"
proof (cases "\<exists>extra. accepts c e tx s extra")
  case False
  then show ?thesis
    using ApplyDewTx_rejects [of c e tx s]
    by (auto simp: accessor_views same_accounts_def split: sum.splits)
next
  case True
  then obtain extra where acc: "accepts c e tx s extra" by blast
  let ?f = "accountOf c s" and ?s = "exec (ApplyDewTx c e (Some tx)) s"
  have mem: "{dxSender tx, dxReceiver tx, fst (extraOf tx extra), nxFeeSink e, StakingModuleAddr} \<subseteq> P"
    using assms(3) parsePayload_allowed [of e tx "dxPayload tx" extra] acc
    by (auto simp: accepts_def allowedAddrs_def)
  have tot: "totalOf P ?f < 2 ^ 256" using assms(5) by (simp add: totalOf_def accessor_views)
  have need: "unat (dewNeed tx extra) = unat (dewAmount tx) + unat (snd (extraOf tx extra)) + unat (dewFee tx)"
    using assms(6) acc by (intro dewNeed_exact) (simp add: creditAmount_def accepts_def)
  have funds: "dewNeed tx extra \<le> aBalance (?f (dxSender tx))" using acc by (simp add: accepts_def)
  obtain V where V: "V \<le> ucast (dewFee tx)" and
    run: "\<And>a. (bumped (paidAccounts e tx (dewNeed tx extra) extra V ?f) tx a = NewAccount c \<Longrightarrow>
        fromDb c (sdDb s) a = NewAccount c) \<Longrightarrow>
      accountOf c ?s a = bumped (paidAccounts e tx (dewNeed tx extra) extra V ?f) tx a"
    using ApplyDewTx_accounts [OF acc] assms(1) unfolding settled_def by blast
  note paid = paid_conserves [OF assms(2) mem tot V need funds]
  have "accountOf c ?s a = bumped (paidAccounts e tx (dewNeed tx extra) extra V ?f) tx a" for a
  proof (rule run)
    assume new: "bumped (paidAccounts e tx (dewNeed tx extra) extra V ?f) tx a = NewAccount c"
    then have "a \<noteq> dxSender tx" using bumped_sender [OF assms(4)] by blast
    with new have "?f a = NewAccount c" using paid(2) by (simp add: bumped_def)
    then show "fromDb c (sdDb s) a = NewAccount c" using assms(1) by (simp add: settled_def)
  qed
  then have views: "accountOf c ?s = bumped (paidAccounts e tx (dewNeed tx extra) extra V ?f) tx" by blast
  have "totalOf P (accountOf c ?s) = totalOf P ?f"
    using paid(1) unfolding views totalOf_def by simp
  then show ?thesis
    using ApplyDewTx_accepts [OF acc] views by (auto simp: accessor_views totalOf_def bumped_def)
qed

text \<open>C32: the debit wraps.  A transaction whose amount is \<^verbatim>\<open>2^256 - fee\<close> needs a balance of zero, so any
  account, funded or not, can credit that amount to a fresh receiver: the executor accepts it, the sender
  pays nothing, and the receiver holds \<^verbatim>\<open>2^256 - fee\<close>.\<close>

theorem native_tx_wrapping_amount_mints:
  assumes "settled c s" "dxVersion tx = DewTxVersion" "dxPayload tx = []" "MinDewTxFeeWei \<le> dewFee tx"
    "dxAmount tx = Some (- ucast (dewFee tx))"
    "fst (GetNonce c s (dxSender tx)) = dxNonce tx" "dxNonce tx + 1 \<noteq> 0" "fst (GetBalance c s (dxReceiver tx)) = 0"
    "dxReceiver tx \<notin> {dxSender tx, nxFeeSink e, StakingModuleAddr}" "dxSender tx \<notin> {nxFeeSink e, StakingModuleAddr}"
  shows "(\<exists>r. result (ApplyDewTx c e (Some tx)) s = Inr r \<and> \<not> rsFailed r) \<and>
    unat (fst (GetBalance c (exec (ApplyDewTx c e (Some tx)) s) (dxReceiver tx))) = 2 ^ 256 - unat (dewFee tx) \<and>
    fst (GetBalance c (exec (ApplyDewTx c e (Some tx)) s) (dxSender tx)) = fst (GetBalance c s (dxSender tx))"
proof -
  have amount: "dewAmount tx = - ucast (dewFee tx)" using assms(5) by (simp add: dewAmount_def)
  have need: "dewNeed tx None = 0" by (simp add: dewNeed_def amount)
  have acc: "accepts c e tx s None"
    using assms(2,3,4,6) by (simp add: accepts_def need accessor_views parsePayload_def)
  have fee: "unat (ucast (dewFee tx) :: u256) = unat (dewFee tx)" "dewFee tx \<noteq> 0"
    using fee_positive [OF assms(4)] by (simp_all add: unat_ucast_u256)
  then have minus: "unat (- ucast (dewFee tx) :: u256) = 2 ^ 256 - unat (dewFee tx)"
    using unat_sub_if' [of 0 "ucast (dewFee tx) :: u256"] by (simp add: unat_eq_zero)
  let ?f = "accountOf c s" and ?s = "exec (ApplyDewTx c e (Some tx)) s"
  obtain V where run: "\<And>a. (bumped (paidAccounts e tx (dewNeed tx None) None V ?f) tx a = NewAccount c \<Longrightarrow>
        fromDb c (sdDb s) a = NewAccount c) \<Longrightarrow>
      accountOf c ?s a = bumped (paidAccounts e tx (dewNeed tx None) None V ?f) tx a"
    using ApplyDewTx_accounts [OF acc] assms(1) unfolding settled_def by blast
  let ?g = "bumped (paidAccounts e tx (dewNeed tx None) None V ?f) tx"
  have g: "aBalance (?g (dxReceiver tx)) = - ucast (dewFee tx)" "aBalance (?g (dxSender tx)) = aBalance (?f (dxSender tx))"
    using assms(8-10) not_sym [of "dxReceiver tx" "dxSender tx"]
    by (simp_all add: bumped_def paidAccounts_def credit_def extraOf_def need amount accessor_views)
  have "(ucast (dewFee tx) :: u256) \<noteq> 0" using fee by (metis unat_0 unat_eq_zero)
  then have "aBalance (?g (dxReceiver tx)) \<noteq> aBalance (NewAccount c)"
    unfolding g(1) by (simp add: NewAccount_def)
  then have "accountOf c ?s (dxReceiver tx) = ?g (dxReceiver tx)" by (intro run) metis
  moreover have "accountOf c ?s (dxSender tx) = ?g (dxSender tx)"
    using bumped_sender [OF assms(7)] by (intro run) blast
  ultimately show ?thesis using ApplyDewTx_accepts [OF acc] minus g by (auto simp: accessor_views)
qed


section \<open>Concrete transactions\<close>

definition exNative :: StateDB where
  "exNative = SetBalance exStake (New []) 7 3000000000000"

lemma exNative_accounts:
  "accountOf exStake exNative = (\<lambda>a. if a = 7 then (NewAccount exStake)\<lparr>aBalance := 3000000000000\<rparr> else NewAccount exStake)"
  "settled exStake exNative"
proof -
  show views: "accountOf exStake exNative =
      (\<lambda>a. if a = 7 then (NewAccount exStake)\<lparr>aBalance := 3000000000000\<rparr> else NewAccount exStake)"
    by (auto simp: fun_eq_iff exNative_def SetBalance_def New_def case_prod_beta accountOf_def rawOf_def fromDb_def)
  show "settled exStake exNative"
    by (simp add: settled_def exNative_def SetBalance_def New_def case_prod_beta fromDb_def)
qed

lemma exDewTx_fields:
  "dewAmount exDewTx = 5" "dewFee exDewTx = 2100000000000" "creditAmount e exDewTx = 0"
  "allowedAddrs (NewExecutor 20) exDewTx = [7, 8, 9, 20]" "dxNonce exDewTx = 0"
  by (simp_all add: exDewTx_def dewAmount_def dewFee_def DefaultDewTxFeeWei_def creditAmount_def parsePayload_def
      extraOf_def allowedAddrs_def NewExecutor_def)

theorem native_tx_conserves_balances_witness:
  "(\<Sum>a\<in>{7, 8, 9, 20, StakingModuleAddr}.
     unat (fst (GetBalance exStake (exec (ApplyDewTx exStake (NewExecutor 20) (Some exDewTx)) exNative) a))) = 3000000000000"
proof -
  have start: "(\<Sum>a\<in>{7, 8, 9, 20, StakingModuleAddr}. unat (fst (GetBalance exStake exNative a))) = 3000000000000"
    by (simp add: accessor_views exNative_accounts StakingModuleAddr_def NewAccount_def)
  show ?thesis
    using native_tx_conserves_balances [OF exNative_accounts(2), of "{7, 8, 9, 20, StakingModuleAddr}" "NewExecutor 20" exDewTx]
    unfolding start exDewTx_fields by (simp del: sum.insert)
qed

theorem native_tx_wrapping_amount_mints_witness:
  "unat (fst (GetBalance exStake (exec (ApplyDewTx exStake (NewExecutor 20)
     (Some (exDewTx\<lparr>dxAmount := Some (- ucast DefaultDewTxFeeWei)\<rparr>))) (New [])) 8)) = 2 ^ 256 - 2100000000000"
proof -
  let ?tx = "exDewTx\<lparr>dxAmount := Some (- ucast DefaultDewTxFeeWei)\<rparr>"
  have tx: "dxVersion ?tx = DewTxVersion" "dxPayload ?tx = []" "dewFee ?tx = DefaultDewTxFeeWei"
    "dxAmount ?tx = Some (- ucast (dewFee ?tx))" "dxNonce ?tx = 0" "dxSender ?tx = 7" "dxReceiver ?tx = 8"
    by (simp_all add: exDewTx_def dewFee_def)
  have empty: "accountOf exStake (New []) = (\<lambda>a. NewAccount exStake)"
    by (simp add: fun_eq_iff accountOf_def rawOf_def New_def fromDb_def)
  have "settled exStake (New [])" by (simp add: settled_def New_def fromDb_def)
  note mints = native_tx_wrapping_amount_mints [OF this tx(1,2) _ tx(4), of "NewExecutor 20", unfolded tx(3,5-7)]
  show ?thesis
    using mints by (simp add: accessor_views empty NewAccount_def NewExecutor_def StakingModuleAddr_def MinDewTxFeeWei_def
        DefaultDewTxFeeWei_def)
qed

end
