(* ===== verification/Mempool.thy ===== *)
theory Mempool
  imports DewTx "HOL-Library.AList" "HOL-Library.While_Combinator" "HOL-Library.Multiset"
begin

text \<open>
  The transaction pool (\<^verbatim>\<open>src/mempool/pool.go\<close>, \<^verbatim>\<open>src/mempool/config.go\<close>): admission of EVM and
  native transactions under size, fee and count limits, replacement by fee, eviction of the cheapest
  entry, removal and the telemetry snapshot.

  Go maps that are ranged over are association lists.  Go picks a new iteration order for each range; where
  the order decides a tie (\<^verbatim>\<open>evictCheaperThan\<close>) the operation takes it as an argument, the ranks of the keys,
  and the theorems hold for every choice.  A go-ethereum transaction is the record of its accessors' values.  The lock makes each
  operation atomic.  \<^verbatim>\<open>None\<close> as the result of an operation is a run-time panic.
\<close>

section \<open>Ranging over a map\<close>

definition ranged :: "('k \<Rightarrow> nat) \<Rightarrow> ('k \<times> 'v) list \<Rightarrow> ('k \<times> 'v) list" where
  "ranged ord m = sort_key (ord \<circ> fst) m"

lemma set_ranged [simp]: "set (ranged ord m) = set m"
  by (simp add: ranged_def)

text \<open>Every iteration order of a map is the order of some ranks.\<close>

lemma ranged_every_order:
  assumes "distinct (map fst m)" "mset xs = mset m"
  shows "\<exists>ord. ranged ord m = xs"
proof -
  have d: "distinct (map fst xs)" using assms mset_map [of fst] by (metis mset_eq_imp_distinct_iff)
  define ord where "ord k = (THE i. i < length xs \<and> fst (xs ! i) = k)" for k
  have at: "ord (fst (xs ! i)) = i" if "i < length xs" for i
    unfolding ord_def by (rule the_equality) (use that d in \<open>auto simp: distinct_conv_nth\<close>)
  have ranks: "map (ord \<circ> fst) xs = [0..<length xs]" by (rule nth_equalityI) (simp_all add: at)
  have "inj_on (ord \<circ> fst) (set xs)" using ranks by (metis distinct_map distinct_upt)
  then have inj: "inj_on (ord \<circ> fst) (set m)" using mset_eq_setD [OF assms(2)] by simp
  have "sorted (map (ord \<circ> fst) xs)" unfolding ranks by (rule sorted_upt)
  with assms(2) [symmetric] inj have "sort_key (ord \<circ> fst) m = xs" by (rule sort_key_inj_key_eq)
  then show ?thesis by (auto simp: ranged_def)
qed


section \<open>Configuration\<close>

record poolConfig =
  pcMaxGlobal :: int
  pcMaxPerSender :: int
  pcMaxTxBytes :: int
  pcMinGasPriceWei :: "int option"
  pcMinTipWei :: "int option"
  pcMinDewFeeWei :: u64
  pcPriceBumpPercent :: u64

definition DefaultConfig :: poolConfig where
  "DefaultConfig = \<lparr>pcMaxGlobal = 4096, pcMaxPerSender = 16, pcMaxTxBytes = 128 * 1024,
     pcMinGasPriceWei = Some 1000000000, pcMinTipWei = Some 1, pcMinDewFeeWei = MinDewTxFeeWei,
     pcPriceBumpPercent = 10\<rparr>"


section \<open>Pool\<close>

datatype Kind = KindEVM | KindDew

datatype poolErr =
    ErrPoolFull | ErrSenderLimit | ErrTxTooLarge | ErrUnderpriced | ErrReplaceUnder | ErrAlreadyKnown
  | ErrRBFDisabled | ErrInvalidTx | ErrWrongChain | ErrNilConfig

record Entry =
  peHash :: hash
  peFrom :: address
  peNonce :: u64
  peKind :: Kind
  peRaw :: "byte list"
  pePrice :: int
  peTip :: "int option"
  peSize :: nat
  peAddedAt :: nat

record RejectCounters =
  rcPoolFull :: u64
  rcSenderLimit :: u64
  rcUnderpriced :: u64
  rcReplaceUnder :: u64
  rcAlreadyKnown :: u64
  rcTxTooLarge :: u64
  rcInvalid :: u64
  rcWrongChain :: u64
  rcRBFDisabled :: u64
  rcTotal :: u64

record Pool =
  plCfg :: poolConfig
  plByHash :: "(hash \<times> Entry) list"
  plBySender :: "(address \<times> (u64 \<times> hash) list) list"
  plAdmits :: u64
  plReplaces :: u64
  plEvictions :: u64
  plRejects :: RejectCounters

definition NewPool :: "poolConfig \<Rightarrow> Pool" where
  "NewPool cfg =
     (let d = DefaultConfig;
          cfg = (if pcMaxGlobal cfg \<le> 0 then cfg\<lparr>pcMaxGlobal := pcMaxGlobal d\<rparr> else cfg);
          cfg = (if pcMaxPerSender cfg \<le> 0 then cfg\<lparr>pcMaxPerSender := pcMaxPerSender d\<rparr> else cfg);
          cfg = (if pcMaxTxBytes cfg \<le> 0 then cfg\<lparr>pcMaxTxBytes := pcMaxTxBytes d\<rparr> else cfg);
          cfg = (if pcMinGasPriceWei cfg = None then cfg\<lparr>pcMinGasPriceWei := pcMinGasPriceWei d\<rparr> else cfg);
          cfg = (if pcMinTipWei cfg = None then cfg\<lparr>pcMinTipWei := pcMinTipWei d\<rparr> else cfg);
          cfg = (if pcMinDewFeeWei cfg = 0 then cfg\<lparr>pcMinDewFeeWei := pcMinDewFeeWei d\<rparr> else cfg)
      in \<lparr>plCfg = cfg, plByHash = [], plBySender = [], plAdmits = 0, plReplaces = 0, plEvictions = 0,
          plRejects = \<lparr>rcPoolFull = 0, rcSenderLimit = 0, rcUnderpriced = 0, rcReplaceUnder = 0,
            rcAlreadyKnown = 0, rcTxTooLarge = 0, rcInvalid = 0, rcWrongChain = 0, rcRBFDisabled = 0,
            rcTotal = 0\<rparr>\<rparr>)"

definition poolLen :: "Pool \<Rightarrow> nat" where "poolLen p = length (plByHash p)"

definition poolGet :: "Pool \<Rightarrow> hash \<Rightarrow> Entry option" where "poolGet p h = map_of (plByHash p) h"

definition Pending :: "Pool \<Rightarrow> Entry list" where "Pending p = map snd (plByHash p)"

definition poolStats :: "Pool \<Rightarrow> nat \<times> nat" where
  "poolStats p = (length (plByHash p), length (plBySender p))"

fun countReject :: "poolErr \<Rightarrow> RejectCounters \<Rightarrow> RejectCounters" where
  "countReject ErrPoolFull r = r\<lparr>rcPoolFull := rcPoolFull r + 1\<rparr>"
| "countReject ErrSenderLimit r = r\<lparr>rcSenderLimit := rcSenderLimit r + 1\<rparr>"
| "countReject ErrUnderpriced r = r\<lparr>rcUnderpriced := rcUnderpriced r + 1\<rparr>"
| "countReject ErrReplaceUnder r = r\<lparr>rcReplaceUnder := rcReplaceUnder r + 1\<rparr>"
| "countReject ErrAlreadyKnown r = r\<lparr>rcAlreadyKnown := rcAlreadyKnown r + 1\<rparr>"
| "countReject ErrTxTooLarge r = r\<lparr>rcTxTooLarge := rcTxTooLarge r + 1\<rparr>"
| "countReject ErrWrongChain r = r\<lparr>rcWrongChain := rcWrongChain r + 1\<rparr>"
| "countReject ErrRBFDisabled r = r\<lparr>rcRBFDisabled := rcRBFDisabled r + 1\<rparr>"
| "countReject _ r = r\<lparr>rcInvalid := rcInvalid r + 1\<rparr>"

definition noteReject :: "poolErr \<Rightarrow> Pool \<Rightarrow> Pool" where
  "noteReject err p = p\<lparr>plRejects := countReject err ((plRejects p)\<lparr>rcTotal := rcTotal (plRejects p) + 1\<rparr>)\<rparr>"

definition removeLocked :: "hash \<Rightarrow> Pool \<Rightarrow> Pool" where
  "removeLocked h p =
     (case map_of (plByHash p) h of
        None \<Rightarrow> p
      | Some e \<Rightarrow>
          (let p1 = p\<lparr>plByHash := AList.delete h (plByHash p)\<rparr>
           in case map_of (plBySender p1) (peFrom e) of
                None \<Rightarrow> p1
              | Some m \<Rightarrow>
                  (let m' = AList.delete (peNonce e) m
                   in if length m' = 0 then p1\<lparr>plBySender := AList.delete (peFrom e) (plBySender p1)\<rparr>
                      else p1\<lparr>plBySender := AList.update (peFrom e) m' (plBySender p1)\<rparr>)))"

definition poolRemove :: "hash \<Rightarrow> Pool \<Rightarrow> Pool" where "poolRemove = removeLocked"

text \<open>The first entry of least price among those strictly cheaper than \<^verbatim>\<open>price\<close>, in iteration order.\<close>

fun worstBelow :: "int \<Rightarrow> (hash \<times> Entry) list \<Rightarrow> Entry option \<Rightarrow> Entry option" where
  "worstBelow price [] worst = worst"
| "worstBelow price ((h, e) # es) worst =
     (if pePrice e \<ge> price then worstBelow price es worst
      else case worst of
        None \<Rightarrow> worstBelow price es (Some e)
      | Some w \<Rightarrow> if pePrice e < pePrice w then worstBelow price es (Some e) else worstBelow price es worst)"

definition evictCheaperThan :: "(hash \<Rightarrow> nat) \<Rightarrow> int \<Rightarrow> Pool \<Rightarrow> bool \<times> Pool" where
  "evictCheaperThan ord price p =
     (case worstBelow price (ranged ord (plByHash p)) None of
        None \<Rightarrow> (False, p)
      | Some w \<Rightarrow>
          (let p1 = removeLocked (peHash w) p in (True, p1\<lparr>plEvictions := plEvictions p1 + 1\<rparr>)))"

text \<open>The first half of \<^verbatim>\<open>add\<close>: same sender and nonce, replace or reject.  The bump is computed on
  \<^verbatim>\<open>int64(100 + bump)\<close>.\<close>

definition replaceSlot :: "Entry \<Rightarrow> Pool \<Rightarrow> poolErr + (bool \<times> Pool)" where
  "replaceSlot e p =
     (case map_of (plBySender p) (peFrom e) of
        None \<Rightarrow> Inr (False, p)
      | Some m \<Rightarrow>
          (case map_of m (peNonce e) of
             None \<Rightarrow> Inr (False, p)
           | Some oldHash \<Rightarrow>
               (case map_of (plByHash p) oldHash of
                  None \<Rightarrow> Inr (False, p\<lparr>plBySender := AList.update (peFrom e) (AList.delete (peNonce e) m) (plBySender p)\<rparr>)
                | Some old \<Rightarrow>
                    if pcPriceBumpPercent (plCfg p) = 0 then Inl ErrRBFDisabled
                    else let mn = pePrice old * sint (100 + pcPriceBumpPercent (plCfg p)) div 100
                         in if pePrice e < mn then Inl ErrReplaceUnder
                            else Inr (True, removeLocked oldHash p))))"

definition senderCount :: "address \<Rightarrow> Pool \<Rightarrow> nat" where
  "senderCount a p = (case map_of (plBySender p) a of None \<Rightarrow> 0 | Some m \<Rightarrow> length m)"

text \<open>The last part of \<^verbatim>\<open>add\<close>: insertion into both maps and the counters.\<close>

definition insertEntry :: "bool \<Rightarrow> Entry \<Rightarrow> Pool \<Rightarrow> Pool" where
  "insertEntry replaced e p =
     (let p1 = p\<lparr>plByHash := AList.update (peHash e) e (plByHash p)\<rparr>;
          m = (case map_of (plBySender p1) (peFrom e) of None \<Rightarrow> [] | Some m \<Rightarrow> m);
          p2 = p1\<lparr>plBySender := AList.update (peFrom e) (AList.update (peNonce e) (peHash e) m) (plBySender p1)\<rparr>;
          p3 = p2\<lparr>plAdmits := plAdmits p2 + 1\<rparr>
      in if replaced then p3\<lparr>plReplaces := plReplaces p3 + 1\<rparr> else p3)"

definition poolAdd :: "(hash \<Rightarrow> nat) \<Rightarrow> Entry \<Rightarrow> Pool \<Rightarrow> (hash \<times> poolErr option) \<times> Pool" where
  "poolAdd ord e p =
     (if map_of (plByHash p) (peHash e) \<noteq> None then ((peHash e, Some ErrAlreadyKnown), noteReject ErrAlreadyKnown p)
      else case replaceSlot e p of
        Inl err \<Rightarrow> ((0, Some err), noteReject err p)
      | Inr (replaced, p1) \<Rightarrow>
          if int (senderCount (peFrom e) p1) \<ge> pcMaxPerSender (plCfg p1)
          then ((0, Some ErrSenderLimit), noteReject ErrSenderLimit p1)
          else if int (length (plByHash p1)) \<ge> pcMaxGlobal (plCfg p1) then
            (case evictCheaperThan ord (pePrice e) p1 of
               (False, p2) \<Rightarrow> ((0, Some ErrPoolFull), noteReject ErrPoolFull p2)
             | (True, p2) \<Rightarrow> ((peHash e, None), insertEntry replaced e p2))
          else ((peHash e, None), insertEntry replaced e p1))"

text \<open>A decoded go-ethereum transaction, by the values of its accessors.\<close>

record ethTx =
  etHash :: hash
  etType :: byte
  etNonce :: u64
  etChainId :: "int option"
  etGasFeeCap :: "int option"
  etGasTipCap :: "int option"
  etGasPrice :: "int option"
  etMarshal :: "byte list option"

definition DynamicFeeTxType :: byte where "DynamicFeeTxType = 0x02"

definition evmPrice :: "ethTx \<Rightarrow> poolConfig \<Rightarrow> (poolErr + int \<times> int option) option" where
  "evmPrice tx cfg =
     (if etType tx = DynamicFeeTxType then
        (case (etGasFeeCap tx, etGasTipCap tx) of
           (Some feeCap, Some tipCap) \<Rightarrow>
             (case pcMinGasPriceWei cfg of
                None \<Rightarrow> None
              | Some minGas \<Rightarrow>
                  if feeCap < minGas then Some (Inl ErrUnderpriced)
                  else (case pcMinTipWei cfg of
                     None \<Rightarrow> None
                   | Some minTip \<Rightarrow>
                       if tipCap < minTip then Some (Inl ErrUnderpriced) else Some (Inr (feeCap, Some tipCap))))
         | _ \<Rightarrow> Some (Inl ErrInvalidTx))
      else case etGasPrice tx of
        None \<Rightarrow> Some (Inl ErrUnderpriced)
      | Some gp \<Rightarrow>
          (case pcMinGasPriceWei cfg of
             None \<Rightarrow> None
           | Some minGas \<Rightarrow> if gp < minGas then Some (Inl ErrUnderpriced) else Some (Inr (gp, None))))"

definition AddEVM :: "(hash \<Rightarrow> nat) \<Rightarrow> ethTx option \<Rightarrow> address \<Rightarrow> byte list \<Rightarrow> int option \<Rightarrow> nat \<Rightarrow> Pool \<Rightarrow>
    ((hash \<times> poolErr option) \<times> Pool) option" where
  "AddEVM ord txp sender raw0 chainID now p =
     (case txp of
        None \<Rightarrow> Some ((0, Some ErrInvalidTx), noteReject ErrInvalidTx p)
      | Some tx \<Rightarrow>
          (case (if length raw0 = 0 then etMarshal tx else Some raw0) of
             None \<Rightarrow> Some ((0, Some ErrInvalidTx), noteReject ErrInvalidTx p)
           | Some raw \<Rightarrow>
               if int (length raw) > pcMaxTxBytes (plCfg p) then Some ((0, Some ErrTxTooLarge), noteReject ErrTxTooLarge p)
               else if etChainId tx \<noteq> None \<and> etChainId tx \<noteq> Some 0 \<and> chainID \<noteq> None \<and> etChainId tx \<noteq> chainID
               then Some ((0, Some ErrWrongChain), noteReject ErrWrongChain p)
               else case evmPrice tx (plCfg p) of
                 None \<Rightarrow> None
               | Some (Inl err) \<Rightarrow> Some ((0, Some err), noteReject err p)
               | Some (Inr (price, tip)) \<Rightarrow>
                   Some (poolAdd ord \<lparr>peHash = BytesToHash (hashBytes (etHash tx)), peFrom = sender, peNonce = etNonce tx,
                     peKind = KindEVM, peRaw = raw, pePrice = price, peTip = tip, peSize = length raw,
                     peAddedAt = now\<rparr> p)))"

definition AddDew :: "('key, 'z) cryptoLib_scheme \<Rightarrow> (hash \<Rightarrow> nat) \<Rightarrow> DewTx option \<Rightarrow> byte list \<Rightarrow> int option \<Rightarrow> nat \<Rightarrow> Pool \<Rightarrow>
    ((hash \<times> poolErr option) \<times> Pool) option" where
  "AddDew c ord txp raw0 chainID now p =
     (case txp of
        None \<Rightarrow> Some ((0, Some ErrInvalidTx), noteReject ErrInvalidTx p)
      | Some tx \<Rightarrow>
          (case (if length raw0 = 0 then MarshalDewTx c tx else Inr raw0) of
             Inl err \<Rightarrow> Some ((0, Some ErrInvalidTx), noteReject ErrInvalidTx p)
           | Inr raw \<Rightarrow>
               if int (length raw) > pcMaxTxBytes (plCfg p) then Some ((0, Some ErrTxTooLarge), noteReject ErrTxTooLarge p)
               else if dxChainID tx = None \<or> chainID \<noteq> None \<and> dxChainID tx \<noteq> chainID
               then Some ((0, Some ErrWrongChain), noteReject ErrWrongChain p)
               else let fee = (if dxFee tx = 0 then pcMinDewFeeWei (plCfg p) else dxFee tx)
                    in if fee < pcMinDewFeeWei (plCfg p) then Some ((0, Some ErrUnderpriced), noteReject ErrUnderpriced p)
                       else case DewTxHash c tx of
                         None \<Rightarrow> None
                       | Some (h, tx') \<Rightarrow>
                           Some (poolAdd ord \<lparr>peHash = h, peFrom = dxSender tx, peNonce = dxNonce tx, peKind = KindDew,
                             peRaw = raw, pePrice = uint fee, peTip = None, peSize = length raw, peAddedAt = now\<rparr> p)))"


section \<open>Telemetry\<close>

text \<open>The insertion sort of \<^verbatim>\<open>Telemetry\<close>, swap by swap; the inner loop is a \<^verbatim>\<open>while\<close> on the list and the
  index.\<close>

type_synonym senderList = "(address \<times> nat) list"

definition siftDown :: "senderList \<Rightarrow> nat \<Rightarrow> (senderList \<times> nat) option" where
  "siftDown xs i = while_option (\<lambda>(l, j). j > 0 \<and> snd (l ! j) > snd (l ! (j - 1)))
     (\<lambda>(l, j). (l[j := l ! (j - 1), j - 1 := l ! j], j - 1)) (xs, i)"

fun sortFrom :: "nat list \<Rightarrow> senderList \<Rightarrow> senderList option" where
  "sortFrom [] l = Some l"
| "sortFrom (i # is) l = (case siftDown l i of None \<Rightarrow> None | Some (l', j) \<Rightarrow> sortFrom is l')"

definition topN :: nat where "topN = 16"

record Telemetry =
  tmPending :: nat
  tmSenders :: nat
  tmPendingEVM :: nat
  tmPendingDew :: nat
  tmMaxGlobal :: int
  tmMaxPerSender :: int
  tmMaxTxBytes :: int
  tmMinGasPriceWei :: int
  tmMinTipWei :: int
  tmMinDewFeeWei :: u64
  tmPriceBumpPercent :: u64
  tmAdmits :: u64
  tmReplaces :: u64
  tmEvictions :: u64
  tmRejects :: RejectCounters
  tmTopSenders :: senderList

definition countKind :: "Kind \<Rightarrow> Pool \<Rightarrow> nat" where
  "countKind k p = length (filter (\<lambda>e. peKind e = k) (map snd (plByHash p)))"

definition poolTelemetry :: "Pool \<Rightarrow> Telemetry option" where
  "poolTelemetry p =
     (let l0 = map (\<lambda>(a, m). (a, length m)) (plBySender p)
      in case sortFrom [1..<length l0] l0 of
           None \<Rightarrow> None
         | Some l \<Rightarrow>
             (let top = (if length l > topN then take topN l else l)
              in Some \<lparr>tmPending = length (plByHash p), tmSenders = length (plBySender p),
                   tmPendingEVM = countKind KindEVM p, tmPendingDew = countKind KindDew p,
                   tmMaxGlobal = pcMaxGlobal (plCfg p), tmMaxPerSender = pcMaxPerSender (plCfg p),
                   tmMaxTxBytes = pcMaxTxBytes (plCfg p), tmMinGasPriceWei = copyBig (pcMinGasPriceWei (plCfg p)),
                   tmMinTipWei = copyBig (pcMinTipWei (plCfg p)), tmMinDewFeeWei = pcMinDewFeeWei (plCfg p),
                   tmPriceBumpPercent = pcPriceBumpPercent (plCfg p), tmAdmits = plAdmits p,
                   tmReplaces = plReplaces p, tmEvictions = plEvictions p, tmRejects = plRejects p,
                   tmTopSenders = top\<rparr>))"

end
