(* ===== verification/MempoolProps.thy ===== *)
theory MempoolProps
  imports Mempool
begin

text \<open>
  Correctness of the pool: the two indexes describe the same entries and stay within the
  configured limits, admission has exactly the intended effect, and the telemetry sort returns.
\<close>

section \<open>Association lists\<close>

declare map_of_eq_Some_iff [simp del] Some_eq_map_of_iff [simp del]

lemma length_delete_present:
  "distinct (map fst al) \<Longrightarrow> map_of al k = Some v \<Longrightarrow> Suc (length (AList.delete k al)) = length al"
proof (induction al)
  case (Cons x al)
  show ?case
  proof (cases "fst x = k")
    case True
    then have "AList.delete k al = al"
      using Cons.prems(1) by (auto simp: AList.delete_eq image_iff intro!: filter_True)
    then show ?thesis using True by (cases x) simp
  next
    case False
    then show ?thesis using Cons by (cases x) auto
  qed
qed simp

lemma length_update_absent: "map_of al k = None \<Longrightarrow> length (AList.update k v al) = Suc (length al)"
  by (induction al) (auto split: if_splits)

lemma length_update_present: "map_of al k = Some x \<Longrightarrow> length (AList.update k v al) = length al"
  by (induction al) (auto split: if_splits)

lemmas alist_simps = update_conv' delete_conv' distinct_update distinct_delete


section \<open>Well-formed pools\<close>

definition slotAt :: "Pool \<Rightarrow> address \<Rightarrow> u64 \<Rightarrow> hash option" where
  "slotAt p a n = (case map_of (plBySender p) a of None \<Rightarrow> None | Some m \<Rightarrow> map_of m n)"

definition pool_shape :: "Pool \<Rightarrow> bool" where
  "pool_shape p \<longleftrightarrow> distinct (map fst (plByHash p)) \<and> distinct (map fst (plBySender p)) \<and>
     (\<forall>a m. map_of (plBySender p) a = Some m \<longrightarrow> m \<noteq> [] \<and> distinct (map fst m))"

text \<open>The index by hash and the index by sender and nonce are inverse to each other.\<close>

definition pool_linked :: "Pool \<Rightarrow> bool" where
  "pool_linked p \<longleftrightarrow>
     (\<forall>h e. poolGet p h = Some e \<longrightarrow> peHash e = h \<and> slotAt p (peFrom e) (peNonce e) = Some h) \<and>
     (\<forall>a n h. slotAt p a n = Some h \<longrightarrow> (\<exists>e. poolGet p h = Some e \<and> peFrom e = a \<and> peNonce e = n))"

definition entry_ok :: "poolConfig \<Rightarrow> Entry \<Rightarrow> bool" where
  "entry_ok cfg e \<longleftrightarrow> peSize e = length (peRaw e) \<and> int (peSize e) \<le> pcMaxTxBytes cfg \<and>
     (case peKind e of
        KindEVM \<Rightarrow> copyBig (pcMinGasPriceWei cfg) \<le> pePrice e \<and>
          (case peTip e of None \<Rightarrow> True | Some t \<Rightarrow> copyBig (pcMinTipWei cfg) \<le> t)
      | KindDew \<Rightarrow> uint (pcMinDewFeeWei cfg) \<le> pePrice e \<and> peTip e = None)"

definition config_ok :: "poolConfig \<Rightarrow> bool" where
  "config_ok cfg \<longleftrightarrow> pcMaxGlobal cfg > 0 \<and> pcMaxPerSender cfg > 0 \<and> pcMaxTxBytes cfg > 0 \<and>
     pcMinGasPriceWei cfg \<noteq> None \<and> pcMinTipWei cfg \<noteq> None \<and> pcMinDewFeeWei cfg \<noteq> 0"

definition pool_limits :: "Pool \<Rightarrow> bool" where
  "pool_limits p \<longleftrightarrow> int (poolLen p) \<le> pcMaxGlobal (plCfg p) \<and>
     (\<forall>a. int (senderCount a p) \<le> pcMaxPerSender (plCfg p))"

definition pool_ok :: "Pool \<Rightarrow> bool" where
  "pool_ok p \<longleftrightarrow> pool_shape p \<and> pool_linked p \<and> pool_limits p \<and> config_ok (plCfg p) \<and>
     (\<forall>h e. poolGet p h = Some e \<longrightarrow> entry_ok (plCfg p) e)"

lemma pool_views_cong:
  assumes "plByHash p' = plByHash p" "plBySender p' = plBySender p" "plCfg p' = plCfg p"
  shows "poolGet p' = poolGet p" "slotAt p' = slotAt p" "pool_ok p' = pool_ok p" "poolLen p' = poolLen p"
    "senderCount a p' = senderCount a p"
proof -
  show views: "poolGet p' = poolGet p" "slotAt p' = slotAt p" "poolLen p' = poolLen p" "senderCount a p' = senderCount a p"
    for a using assms by (simp_all add: poolGet_def slotAt_def poolLen_def senderCount_def fun_eq_iff)
  show "pool_ok p' = pool_ok p"
    using assms by (simp add: pool_ok_def pool_shape_def pool_linked_def pool_limits_def views)
qed

lemma noteReject_fields [simp]:
  "plByHash (noteReject err p) = plByHash p" "plBySender (noteReject err p) = plBySender p"
  "plCfg (noteReject err p) = plCfg p"
  by (simp_all add: noteReject_def)

lemma pool_ok_noteReject: "pool_ok p \<Longrightarrow> pool_ok (noteReject err p)"
  using pool_views_cong(3) [of "noteReject err p" p] by simp


section \<open>Removal and insertion\<close>

lemma remove_effect:
  assumes "pool_shape p" "pool_linked p" "poolGet p h = Some e"
  shows "poolGet (removeLocked h p) = (poolGet p)(h := None)"
    "slotAt (removeLocked h p) a n = (if a = peFrom e \<and> n = peNonce e then None else slotAt p a n)"
    "pool_shape (removeLocked h p)" "Suc (poolLen (removeLocked h p)) = poolLen p"
    "senderCount a p = senderCount a (removeLocked h p) + (if a = peFrom e then 1 else 0)"
    "plCfg (removeLocked h p) = plCfg p"
proof -
  have e: "map_of (plByHash p) h = Some e" using assms(3) by (simp add: poolGet_def)
  obtain m where m: "map_of (plBySender p) (peFrom e) = Some m" "map_of m (peNonce e) = Some h"
    using assms(2,3) by (fastforce simp: pool_linked_def slotAt_def split: option.splits)
  have d: "distinct (map fst (plByHash p))" "distinct (map fst (plBySender p))" "distinct (map fst m)"
    using assms(1) m(1) by (auto simp: pool_shape_def)
  let ?m = "AList.delete (peNonce e) m"
  have rem: "removeLocked h p = p\<lparr>plByHash := AList.delete h (plByHash p),
      plBySender := (if ?m = [] then AList.delete (peFrom e) (plBySender p) else AList.update (peFrom e) ?m (plBySender p))\<rparr>"
    using e m(1) by (simp add: removeLocked_def Let_def)
  have len: "Suc (length ?m) = length m" by (rule length_delete_present [OF d(3) m(2)])
  have empty: "?m = [] \<Longrightarrow> map_of m n = (if n = peNonce e then Some h else None)" for n
    using m(2) delete_conv' [of "peNonce e" m] by (auto simp: fun_eq_iff split: if_splits)
  show "poolGet (removeLocked h p) = (poolGet p)(h := None)"
    by (simp add: rem poolGet_def fun_eq_iff delete_conv')
  show "slotAt (removeLocked h p) a n = (if a = peFrom e \<and> n = peNonce e then None else slotAt p a n)"
    using m(1) empty by (auto simp: rem slotAt_def alist_simps)
  show "pool_shape (removeLocked h p)"
    using assms(1) d by (auto simp: rem pool_shape_def alist_simps split: if_splits)
  show "Suc (poolLen (removeLocked h p)) = poolLen p"
    using length_delete_present [OF d(1) e] by (simp add: rem poolLen_def)
  show "senderCount a p = senderCount a (removeLocked h p) + (if a = peFrom e then 1 else 0)"
    using m(1) len by (auto simp: rem senderCount_def alist_simps)
  show "plCfg (removeLocked h p) = plCfg p" by (simp add: rem)
qed

lemma remove_linked:
  assumes "pool_shape p" "pool_linked p" "poolGet p h = Some e"
  shows "pool_linked (removeLocked h p)"
  unfolding pool_linked_def remove_effect(1) [OF assms] remove_effect(2) [OF assms]
  using assms(2,3) unfolding pool_linked_def by (auto split: if_splits) (metis option.inject)+

lemma remove_ok:
  assumes "pool_ok p"
  shows "pool_ok (removeLocked h p)"
proof (cases "poolGet p h")
  case None
  then show ?thesis using assms by (simp add: removeLocked_def poolGet_def)
next
  case (Some e)
  have ok: "pool_shape p" "pool_linked p" using assms by (simp_all add: pool_ok_def)
  note eff = remove_effect [OF ok Some]
  have "pool_limits (removeLocked h p)"
    unfolding pool_limits_def eff(6)
  proof (intro conjI allI)
    show "int (poolLen (removeLocked h p)) \<le> pcMaxGlobal (plCfg p)"
      using eff(4) assms by (simp add: pool_ok_def pool_limits_def)
    show "int (senderCount a (removeLocked h p)) \<le> pcMaxPerSender (plCfg p)" for a
    proof -
      have "int (senderCount a p) \<le> pcMaxPerSender (plCfg p)" using assms by (simp add: pool_ok_def pool_limits_def)
      then show ?thesis using eff(5) [of a] by linarith
    qed
  qed
  then show ?thesis
    using assms eff(3) remove_linked [OF ok Some]
    unfolding pool_ok_def eff(1,6) by (auto split: if_splits)
qed

lemma insert_effect:
  assumes "pool_shape p" "poolGet p (peHash e) = None" "slotAt p (peFrom e) (peNonce e) = None"
  shows "poolGet (insertEntry b e p) = (poolGet p)(peHash e \<mapsto> e)"
    "slotAt (insertEntry b e p) a n = (if a = peFrom e \<and> n = peNonce e then Some (peHash e) else slotAt p a n)"
    "pool_shape (insertEntry b e p)" "poolLen (insertEntry b e p) = Suc (poolLen p)"
    "senderCount a (insertEntry b e p) = senderCount a p + (if a = peFrom e then 1 else 0)"
    "plCfg (insertEntry b e p) = plCfg p"
proof -
  let ?m = "case map_of (plBySender p) (peFrom e) of None \<Rightarrow> [] | Some m \<Rightarrow> m"
  have fields: "plByHash (insertEntry b e p) = AList.update (peHash e) e (plByHash p)"
    "plBySender (insertEntry b e p) = AList.update (peFrom e) (AList.update (peNonce e) (peHash e) ?m) (plBySender p)"
    "plCfg (insertEntry b e p) = plCfg p"
    by (simp_all add: insertEntry_def Let_def)
  have m: "distinct (map fst ?m)" "map_of ?m (peNonce e) = None"
    using assms(1,3) by (auto simp: pool_shape_def slotAt_def split: option.splits)
  have ne: "AList.update k v al \<noteq> []" for k v and al :: "(u64 \<times> hash) list" by (cases al) auto
  show "poolGet (insertEntry b e p) = (poolGet p)(peHash e \<mapsto> e)"
    by (simp add: fields poolGet_def fun_eq_iff update_conv')
  show "slotAt (insertEntry b e p) a n = (if a = peFrom e \<and> n = peNonce e then Some (peHash e) else slotAt p a n)"
    by (auto simp: fields slotAt_def update_conv' split: option.split)
  show "pool_shape (insertEntry b e p)"
    using assms(1) m(1) ne by (auto simp: pool_shape_def fields alist_simps split: if_splits)
  show "poolLen (insertEntry b e p) = Suc (poolLen p)"
    using assms(2) by (simp add: poolLen_def poolGet_def fields length_update_absent)
  show "senderCount a (insertEntry b e p) = senderCount a p + (if a = peFrom e then 1 else 0)"
    using length_update_absent [OF m(2)] by (auto simp: senderCount_def fields update_conv' split: option.splits)
  show "plCfg (insertEntry b e p) = plCfg p" by (rule fields(3))
qed

lemma insert_ok:
  assumes "pool_shape p" "pool_linked p" "config_ok (plCfg p)" "\<And>h e. poolGet p h = Some e \<Longrightarrow> entry_ok (plCfg p) e"
    "poolGet p (peHash e) = None" "slotAt p (peFrom e) (peNonce e) = None" "entry_ok (plCfg p) e"
    "int (poolLen p) < pcMaxGlobal (plCfg p)" "int (senderCount (peFrom e) p) < pcMaxPerSender (plCfg p)"
    "\<And>a. int (senderCount a p) \<le> pcMaxPerSender (plCfg p)"
  shows "pool_ok (insertEntry b e p)"
proof -
  note eff = insert_effect [OF assms(1,5,6), where b = b]
  have fresh: "poolGet p h = Some x \<Longrightarrow> peHash x = h \<and> slotAt p (peFrom x) (peNonce x) = Some h"
    "slotAt p a n = Some h \<Longrightarrow> \<exists>x. poolGet p h = Some x \<and> peFrom x = a \<and> peNonce x = n" for h x a n
    using assms(2) by (simp_all add: pool_linked_def)
  have "pool_linked (insertEntry b e p)"
    unfolding pool_linked_def eff(1,2)
  proof (intro conjI allI impI)
    fix h x assume "((poolGet p)(peHash e \<mapsto> e)) h = Some x"
    then have "h = peHash e \<and> x = e \<or> poolGet p h = Some x" by (auto split: if_splits)
    then show "peHash x = h" "(if peFrom x = peFrom e \<and> peNonce x = peNonce e then Some (peHash e)
        else slotAt p (peFrom x) (peNonce x)) = Some h"
      using fresh(1) [of h x] assms(6) by auto
  next
    fix a n h assume "(if a = peFrom e \<and> n = peNonce e then Some (peHash e) else slotAt p a n) = Some h"
    then show "\<exists>x. ((poolGet p)(peHash e \<mapsto> e)) h = Some x \<and> peFrom x = a \<and> peNonce x = n"
      using fresh(2) [of a n h] assms(5) by (auto split: if_splits)
  qed
  moreover have "pool_limits (insertEntry b e p)"
    unfolding pool_limits_def eff(4,5,6) using assms(8-10) by (auto split: if_splits)
  ultimately show ?thesis
    unfolding pool_ok_def eff(1,6) using assms(3,4,7) eff(3) by auto
qed


section \<open>Admission\<close>

lemma worst_spec:
  assumes "worst = None \<or> pePrice (the worst) < price"
  shows "case worstBelow price es worst of
      None \<Rightarrow> worst = None \<and> (\<forall>e\<in>snd ` set es. price \<le> pePrice e)
    | Some w \<Rightarrow> (worst = Some w \<or> w \<in> snd ` set es) \<and> pePrice w < price \<and>
        (\<forall>e\<in>snd ` set es. pePrice w \<le> pePrice e) \<and> (worst \<noteq> None \<longrightarrow> pePrice w \<le> pePrice (the worst))"
  using assms
proof (induction es arbitrary: worst)
  case Nil
  then show ?case by (cases worst) simp_all
next
  case (Cons x es)
  obtain h e where x: "x = (h, e)" by (cases x)
  consider "pePrice e \<ge> price" | "pePrice e < price" "worst = None"
    | w where "pePrice e < price" "worst = Some w" "pePrice e < pePrice w"
    | w where "pePrice e < price" "worst = Some w" "pePrice w \<le> pePrice e"
    by (cases worst) force+
  then show ?case
  proof cases
    case 1
    then show ?thesis using Cons.IH [of worst] Cons.prems by (auto simp: x split: option.splits)
  next
    case 2
    then show ?thesis using Cons.IH [of "Some e"] by (auto simp: x split: option.splits)
  next
    case (3 w)
    then show ?thesis using Cons.IH [of "Some e"] by (auto simp: x split: option.splits)
  next
    case (4 w)
    then show ?thesis using Cons.IH [of worst] Cons.prems by (auto simp: x split: option.splits)
  qed
qed

lemma entries_get:
  "pool_shape p \<Longrightarrow> pool_linked p \<Longrightarrow> w \<in> snd ` set (plByHash p) \<longleftrightarrow> poolGet p (peHash w) = Some w"
  unfolding pool_shape_def pool_linked_def poolGet_def
  by (metis (no_types, lifting) image_iff map_of_SomeD map_of_is_SomeI prod.collapse snd_conv)

lemma evict_effect:
  assumes "pool_shape p" "pool_linked p"
  obtains "evictCheaperThan ord price p = (False, p)"
  | w where "poolGet p (peHash w) = Some w" "pePrice w < price"
      "\<forall>h x. poolGet p h = Some x \<longrightarrow> pePrice w \<le> pePrice x"
      "evictCheaperThan ord price p = (True, (removeLocked (peHash w) p)\<lparr>plEvictions :=
         plEvictions (removeLocked (peHash w) p) + 1\<rparr>)"
proof (cases "worstBelow price (ranged ord (plByHash p)) None")
  case None
  then show thesis using that(1) by (simp add: evictCheaperThan_def)
next
  case (Some w)
  then have w: "w \<in> snd ` set (plByHash p)" "pePrice w < price" "\<forall>x\<in>snd ` set (plByHash p). pePrice w \<le> pePrice x"
    using worst_spec [of None price "ranged ord (plByHash p)"] by auto
  have "pePrice w \<le> pePrice x" if "poolGet p h = Some x" for h x
    using w(3) that assms by (metis entries_get pool_linked_def)
  then show thesis
    using that(2) [of w] w entries_get [OF assms] Some by (simp add: evictCheaperThan_def Let_def)
qed

lemma replaceSlot_cases:
  assumes "pool_linked p"
  obtains err where "replaceSlot e p = Inl err"
  | "slotAt p (peFrom e) (peNonce e) = None" "replaceSlot e p = Inr (False, p)"
  | old x where "slotAt p (peFrom e) (peNonce e) = Some old" "poolGet p old = Some x" "peFrom x = peFrom e"
      "peNonce x = peNonce e" "pcPriceBumpPercent (plCfg p) \<noteq> 0"
      "pePrice x * sint (100 + pcPriceBumpPercent (plCfg p)) div 100 \<le> pePrice e"
      "replaceSlot e p = Inr (True, removeLocked old p)"
proof (cases "slotAt p (peFrom e) (peNonce e)")
  case None
  then show thesis using that(2) by (auto simp: replaceSlot_def slotAt_def split: option.splits)
next
  case (Some old)
  then obtain x where x: "poolGet p old = Some x" "peFrom x = peFrom e" "peNonce x = peNonce e"
    using assms unfolding pool_linked_def by blast
  let ?mn = "pePrice x * sint (100 + pcPriceBumpPercent (plCfg p)) div 100"
  have run: "replaceSlot e p = (if pcPriceBumpPercent (plCfg p) = 0 then Inl ErrRBFDisabled
      else if pePrice e < ?mn then Inl ErrReplaceUnder else Inr (True, removeLocked old p))"
    using Some x(1) by (auto simp: replaceSlot_def slotAt_def poolGet_def Let_def split: option.splits)
  then show thesis
    using that(1) that(3) [OF Some x] by (cases "pcPriceBumpPercent (plCfg p) = 0"; cases "pePrice e < ?mn") simp_all
qed

text \<open>The hashes an admitted entry displaces: the entry in its slot, or, when the pool is full, one
  strictly cheaper entry of least price.\<close>

definition displaces :: "Pool \<Rightarrow> Entry \<Rightarrow> hash set \<Rightarrow> bool" where
  "displaces p e gone \<longleftrightarrow>
     (case slotAt p (peFrom e) (peNonce e) of
        Some old \<Rightarrow> gone = {old} \<and> (\<exists>x. poolGet p old = Some x \<and> pcPriceBumpPercent (plCfg p) \<noteq> 0 \<and>
          pePrice x * sint (100 + pcPriceBumpPercent (plCfg p)) div 100 \<le> pePrice e)
      | None \<Rightarrow>
          if int (poolLen p) < pcMaxGlobal (plCfg p) then gone = {}
          else \<exists>w. poolGet p (peHash w) = Some w \<and> gone = {peHash w} \<and> pePrice w < pePrice e \<and>
            (\<forall>h x. poolGet p h = Some x \<longrightarrow> pePrice w \<le> pePrice x))"

lemma poolAdd_new:
  assumes "poolGet p (peHash e) = None"
  shows "poolAdd ord e p = (case replaceSlot e p of Inl err \<Rightarrow> ((0, Some err), noteReject err p)
      | Inr (replaced, p1) \<Rightarrow>
          if int (senderCount (peFrom e) p1) \<ge> pcMaxPerSender (plCfg p1)
          then ((0, Some ErrSenderLimit), noteReject ErrSenderLimit p1)
          else if int (poolLen p1) \<ge> pcMaxGlobal (plCfg p1) then
            (case evictCheaperThan ord (pePrice e) p1 of
               (False, p2) \<Rightarrow> ((0, Some ErrPoolFull), noteReject ErrPoolFull p2)
             | (True, p2) \<Rightarrow> ((peHash e, None), insertEntry replaced e p2))
          else ((peHash e, None), insertEntry replaced e p1))"
  using assms unfolding poolAdd_def poolLen_def by (simp add: poolGet_def)

lemma insert_after_remove:
  assumes ok: "pool_ok p" and e: "entry_ok (plCfg p) e" and new: "poolGet p (peHash e) = None"
    and q: "plByHash q = plByHash (removeLocked h p)" "plBySender q = plBySender (removeLocked h p)"
      "plCfg q = plCfg (removeLocked h p)"
    and x: "poolGet p h = Some x" "peFrom x = peFrom e \<and> peNonce x = peNonce e \<or> slotAt p (peFrom e) (peNonce e) = None"
    and room: "int (senderCount (peFrom e) (removeLocked h p)) < pcMaxPerSender (plCfg p)"
  shows "pool_ok (insertEntry b e q)" "plCfg (insertEntry b e q) = plCfg p"
    "poolGet (insertEntry b e q) = ((poolGet p) |` (- {h}))(peHash e \<mapsto> e)"
proof -
  have shape: "pool_shape p" "pool_linked p" "int (poolLen p) \<le> pcMaxGlobal (plCfg p)"
    using ok by (simp_all add: pool_ok_def pool_limits_def)
  note eff = remove_effect [OF shape(1,2) x(1)] and cong = pool_views_cong [OF q]
  have "pool_ok q" unfolding cong(3) using ok by (rule remove_ok)
  then have qs: "pool_shape q" "pool_linked q" "config_ok (plCfg q)" "\<And>h x. poolGet q h = Some x \<Longrightarrow> entry_ok (plCfg q) x"
    "\<And>a. int (senderCount a q) \<le> pcMaxPerSender (plCfg q)"
    by (simp_all add: pool_ok_def pool_limits_def)
  have get: "poolGet q (peHash e) = None" "slotAt q (peFrom e) (peNonce e) = None"
    using new x(2) by (auto simp: cong(1,2) eff(1,2))
  have cfg: "plCfg q = plCfg p" using q(3) eff(6) by simp
  have "int (poolLen q) < pcMaxGlobal (plCfg q)" "int (senderCount (peFrom e) q) < pcMaxPerSender (plCfg q)"
    using shape(3) eff(4) room by (simp_all add: cong(4,5) cfg)
  then show "pool_ok (insertEntry b e q)"
    using qs get e by (intro insert_ok) (simp_all add: cfg)
  show "plCfg (insertEntry b e q) = plCfg p" using insert_effect(6) [OF qs(1) get] cfg by simp
  show "poolGet (insertEntry b e q) = ((poolGet p) |` (- {h}))(peHash e \<mapsto> e)"
    unfolding insert_effect(1) [OF qs(1) get] cong(1) eff(1) by (auto simp: fun_eq_iff restrict_map_def)
qed

lemma poolAdd_cases:
  assumes ok: "pool_ok p" and e: "entry_ok (plCfg p) e"
  obtains h err where "poolAdd ord e p = ((h, Some err), noteReject err p)"
  | gone p' where "poolAdd ord e p = ((peHash e, None), p')" "pool_ok p'" "plCfg p' = plCfg p" "poolGet p (peHash e) = None"
      "displaces p e gone" "poolGet p' = ((poolGet p) |` (- gone))(peHash e \<mapsto> e)"
proof (cases "poolGet p (peHash e)")
  case (Some x)
  then show thesis using that(1) by (simp add: poolAdd_def poolGet_def)
next
  case new: None
  have shape: "pool_shape p" "pool_linked p" "config_ok (plCfg p)" "\<And>h x. poolGet p h = Some x \<Longrightarrow> entry_ok (plCfg p) x"
    and lim: "int (poolLen p) \<le> pcMaxGlobal (plCfg p)" "\<And>a. int (senderCount a p) \<le> pcMaxPerSender (plCfg p)"
    using ok by (simp_all add: pool_ok_def pool_limits_def)
  note add = poolAdd_new [OF new] and after = insert_after_remove [OF ok e new]
  show thesis
    using shape(2)
  proof (cases rule: replaceSlot_cases [of p e])
    case (1 err)
    then show thesis using that(1) by (simp add: add)
  next
    case slot: 2
    show thesis
    proof (cases "int (senderCount (peFrom e) p) \<ge> pcMaxPerSender (plCfg p)")
      case True
      then show thesis using that(1) slot by (simp add: add)
    next
      case room: False
      show thesis
      proof (cases "int (poolLen p) \<ge> pcMaxGlobal (plCfg p)")
        case False
        have "pool_ok (insertEntry False e p)"
          using shape lim new slot(1) e room False by (intro insert_ok) simp_all
        moreover have "displaces p e {}" using slot(1) False by (simp add: displaces_def)
        moreover have "poolAdd ord e p = ((peHash e, None), insertEntry False e p)" using slot(2) room False by (simp add: add)
        moreover have "poolGet (insertEntry False e p) = ((poolGet p) |` (- {}))(peHash e \<mapsto> e)"
          unfolding insert_effect(1) [OF shape(1) new slot(1)] by (simp add: restrict_map_def)
        ultimately show thesis using new insert_effect(6) [OF shape(1) new slot(1)] by (intro that(2))
      next
        case full: True
        from shape(1,2) show thesis
        proof (cases rule: evict_effect [of p ord "pePrice e"])
          case 1
          then show thesis using that(1) slot room full by (simp add: add)
        next
          case (2 w)
          let ?q = "(removeLocked (peHash w) p)\<lparr>plEvictions := plEvictions (removeLocked (peHash w) p) + 1\<rparr>"
          have "int (senderCount (peFrom e) (removeLocked (peHash w) p)) < pcMaxPerSender (plCfg p)"
            using remove_effect(5) [OF shape(1,2) 2(1), of "peFrom e"] room by linarith
          then have "pool_ok (insertEntry False e ?q)" "plCfg (insertEntry False e ?q) = plCfg p"
            "poolGet (insertEntry False e ?q) = ((poolGet p) |` (- {peHash w}))(peHash e \<mapsto> e)"
            using slot(1) by (intro after [OF _ _ _ 2(1)]; simp)+
          moreover have "displaces p e {peHash w}" using slot(1) full 2 by (auto simp: displaces_def)
          moreover have "poolAdd ord e p = ((peHash e, None), insertEntry False e ?q)"
            using slot(2) room full 2(4) by (simp add: add)
          ultimately show thesis using new by (intro that(2))
        qed
      qed
    qed
  next
    case (3 old x)
    note eff = remove_effect [OF shape(1,2) 3(2)]
    have room: "int (senderCount (peFrom e) (removeLocked old p)) < pcMaxPerSender (plCfg p)"
      using eff(5) [of "peFrom e"] 3(3) lim(2) [of "peFrom e"] by simp
    have space: "int (poolLen (removeLocked old p)) < pcMaxGlobal (plCfg p)" using eff(4) lim(1) by linarith
    have "poolAdd ord e p = ((peHash e, None), insertEntry True e (removeLocked old p))"
      using 3(7) room space eff(6) by (simp add: add)
    moreover have "displaces p e {old}" using 3 by (auto simp: displaces_def)
    moreover have "pool_ok (insertEntry True e (removeLocked old p))" "plCfg (insertEntry True e (removeLocked old p)) = plCfg p"
      "poolGet (insertEntry True e (removeLocked old p)) = ((poolGet p) |` (- {old}))(peHash e \<mapsto> e)"
      using 3(3,4) room by (intro after [OF _ _ _ 3(2)]; simp)+
    ultimately show thesis using new by (intro that(2))
  qed
qed


section \<open>Admission theorems\<close>

text \<open>The operations of the pool and their sequences; \<^verbatim>\<open>None\<close> is a panic.\<close>

datatype poolOp =
    PoolEVM "hash \<Rightarrow> nat" "ethTx option" address "byte list" "int option" nat
  | PoolDew "hash \<Rightarrow> nat" "DewTx option" "byte list" "int option" nat
  | PoolRemove hash

fun poolStep :: "('key, 'z) cryptoLib_scheme \<Rightarrow> poolOp \<Rightarrow> Pool \<Rightarrow> Pool option" where
  "poolStep c (PoolEVM ord tx sender raw cid now) p = map_option snd (AddEVM ord tx sender raw cid now p)"
| "poolStep c (PoolDew ord tx raw cid now) p = map_option snd (AddDew c ord tx raw cid now p)"
| "poolStep c (PoolRemove h) p = Some (poolRemove h p)"

fun poolRun :: "('key, 'z) cryptoLib_scheme \<Rightarrow> poolOp list \<Rightarrow> Pool \<Rightarrow> Pool option" where
  "poolRun c [] p = Some p"
| "poolRun c (x # xs) p = (case poolStep c x p of None \<Rightarrow> None | Some p' \<Rightarrow> poolRun c xs p')"

lemma NewPool_ok: "pool_ok (NewPool cfg)"
  by (simp add: NewPool_def Let_def pool_ok_def pool_shape_def pool_linked_def pool_limits_def config_ok_def
      poolGet_def slotAt_def poolLen_def senderCount_def DefaultConfig_def MinDewTxFeeWei_def DefaultDewTxFeeWei_def)

lemma poolAdd_ok:
  assumes "pool_ok p" "entry_ok (plCfg p) e"
  shows "pool_ok (snd (poolAdd ord e p))"
  using assms by (rule poolAdd_cases [of p e ord]) (simp_all add: pool_ok_noteReject assms)

lemma evmPrice_floor:
  "evmPrice tx cfg = Some (Inr (price, tip)) \<Longrightarrow> copyBig (pcMinGasPriceWei cfg) \<le> price \<and>
     (case tip of None \<Rightarrow> True | Some t \<Rightarrow> copyBig (pcMinTipWei cfg) \<le> t)"
  by (auto simp: evmPrice_def copyBig_def split: option.splits if_splits)

text \<open>The entry that stands for a submitted transaction: its hash, sender and nonce, the submitted bytes
  (or the transaction's own encoding when none are given), and the price the pool compares.\<close>

definition describesEVM :: "ethTx \<Rightarrow> address \<Rightarrow> byte list \<Rightarrow> nat \<Rightarrow> Entry \<Rightarrow> bool" where
  "describesEVM tx sender raw now e \<longleftrightarrow> peHash e = etHash tx \<and> peFrom e = sender \<and> peNonce e = etNonce tx \<and>
     peKind e = KindEVM \<and> (if raw = [] then etMarshal tx else Some raw) = Some (peRaw e) \<and>
     peSize e = length (peRaw e) \<and> peAddedAt e = now \<and>
     (if etType tx = DynamicFeeTxType then etGasFeeCap tx = Some (pePrice e) \<and> etGasTipCap tx = peTip e \<and> peTip e \<noteq> None
      else etGasPrice tx = Some (pePrice e) \<and> peTip e = None)"

definition describesDew :: "('key, 'z) cryptoLib_scheme \<Rightarrow> u64 \<Rightarrow> DewTx \<Rightarrow> byte list \<Rightarrow> nat \<Rightarrow> Entry \<Rightarrow> bool" where
  "describesDew c minFee tx raw now e \<longleftrightarrow> map_option fst (DewTxHash c tx) = Some (peHash e) \<and> peFrom e = dxSender tx \<and>
     peNonce e = dxNonce tx \<and> peKind e = KindDew \<and> (if raw = [] then MarshalDewTx c tx else Inr raw) = Inr (peRaw e) \<and>
     peSize e = length (peRaw e) \<and> peAddedAt e = now \<and>
     pePrice e = uint (if dxFee tx = 0 then minFee else dxFee tx) \<and> peTip e = None"

text \<open>A submission is rejected at once, or reaches \<^verbatim>\<open>add\<close> with an entry that meets the floors and stands
  for the transaction.\<close>

definition submitted :: "(hash \<Rightarrow> nat) \<Rightarrow> (Entry \<Rightarrow> bool) \<Rightarrow> Pool \<Rightarrow> (hash \<times> poolErr option) \<times> Pool \<Rightarrow> bool" where
  "submitted ord D p r \<longleftrightarrow> (\<exists>err. r = ((0, Some err), noteReject err p)) \<or>
     (\<exists>e. r = poolAdd ord e p \<and> entry_ok (plCfg p) e \<and> D e)"

lemma submitted_reject: "submitted ord D p ((0, Some err), noteReject err p)"
  unfolding submitted_def by blast

lemma submitted_add: "entry_ok (plCfg p) e \<Longrightarrow> D e \<Longrightarrow> submitted ord D p (poolAdd ord e p)"
  unfolding submitted_def by blast

lemma evmPrice_source:
  "evmPrice tx cfg = Some (Inr (price, tip)) \<Longrightarrow>
     (if etType tx = DynamicFeeTxType then etGasFeeCap tx = Some price \<and> etGasTipCap tx = tip \<and> tip \<noteq> None
      else etGasPrice tx = Some price \<and> tip = None)"
  by (auto simp: evmPrice_def split: option.splits if_splits) metis+

lemma AddEVM_submitted:
  assumes "AddEVM ord txp sender raw0 cid now p = Some r"
  shows "submitted ord (\<lambda>e. \<exists>tx. txp = Some tx \<and> describesEVM tx sender raw0 now e) p r"
proof (cases txp)
  case None
  then show ?thesis using assms submitted_reject by (auto simp: AddEVM_def)
next
  case tx: (Some tx)
  show ?thesis
  proof (cases "if length raw0 = 0 then etMarshal tx else Some raw0")
    case None
    then show ?thesis using assms tx submitted_reject by (auto simp: AddEVM_def simp del: length_0_conv)
  next
    case raw: (Some raw)
    let ?e = "\<lambda>price tip. \<lparr>peHash = BytesToHash (hashBytes (etHash tx)), peFrom = sender, peNonce = etNonce tx,
       peKind = KindEVM, peRaw = raw, pePrice = price, peTip = tip, peSize = length raw, peAddedAt = now\<rparr>"
    have run: "Some r = (if int (length raw) > pcMaxTxBytes (plCfg p) then Some ((0, Some ErrTxTooLarge), noteReject ErrTxTooLarge p)
       else if etChainId tx \<noteq> None \<and> etChainId tx \<noteq> Some 0 \<and> cid \<noteq> None \<and> etChainId tx \<noteq> cid
       then Some ((0, Some ErrWrongChain), noteReject ErrWrongChain p)
       else case evmPrice tx (plCfg p) of None \<Rightarrow> None | Some (Inl err) \<Rightarrow> Some ((0, Some err), noteReject err p)
       | Some (Inr (price, tip)) \<Rightarrow> Some (poolAdd ord (?e price tip) p))"
      unfolding assms(1) [symmetric] AddEVM_def tx option.case raw ..
    have "describesEVM tx sender raw0 now (?e price tip)" if "evmPrice tx (plCfg p) = Some (Inr (price, tip))" for price tip
      using evmPrice_source [OF that] raw by (simp add: describesEVM_def)
    with run show ?thesis
      by (auto simp: entry_ok_def tx dest: evmPrice_floor intro!: submitted_reject submitted_add
          split: if_splits option.splits sum.splits)
  qed
qed

lemma AddDew_submitted:
  assumes "AddDew c ord txp raw0 cid now p = Some r"
  shows "submitted ord (\<lambda>e. \<exists>tx. txp = Some tx \<and> describesDew c (pcMinDewFeeWei (plCfg p)) tx raw0 now e) p r"
proof (cases txp)
  case None
  then show ?thesis using assms submitted_reject by (auto simp: AddDew_def)
next
  case tx: (Some tx)
  show ?thesis
  proof (cases "if length raw0 = 0 then MarshalDewTx c tx else Inr raw0")
    case (Inl err)
    then show ?thesis using assms tx submitted_reject by (auto simp: AddDew_def simp del: length_0_conv)
  next
    case raw: (Inr raw)
    then have sent: "(if raw0 = [] then MarshalDewTx c tx else Inr raw0) = Inr raw" by simp
    show ?thesis
      using assms unfolding AddDew_def tx option.case raw sum.case Let_def
      by (auto simp: entry_ok_def describesDew_def sent not_less word_le_def intro!: submitted_reject submitted_add
          split: if_splits option.splits)
  qed
qed

lemma poolStep_ok:
  assumes "pool_ok p" "poolStep c x p = Some p'"
  shows "pool_ok p'"
proof (cases "\<exists>h. x = PoolRemove h")
  case True
  then show ?thesis using assms by (auto simp: poolRemove_def remove_ok)
next
  case False
  then obtain ord D r where "submitted ord D p (r, p')"
    using assms(2) by (cases x) (auto dest!: AddEVM_submitted AddDew_submitted)
  then show ?thesis
    using poolAdd_ok [OF assms(1)] pool_ok_noteReject [OF assms(1)] unfolding submitted_def by (metis snd_conv)
qed

lemma poolRun_ok: "pool_ok p \<Longrightarrow> poolRun c xs p = Some p' \<Longrightarrow> pool_ok p'"
  by (induction xs arbitrary: p) (auto split: option.splits dest: poolStep_ok)

text \<open>C36: whatever transactions are submitted and removed, the pool stays well formed: the index by hash
  and the index by sender and nonce describe the same entries, with one entry per slot; the global and
  per-sender limits hold; and every entry meets the size limit and the fee floors of its kind.\<close>

theorem pool_stays_well_formed:
  "poolRun c xs (NewPool cfg) = Some p \<Longrightarrow> pool_ok p"
  using NewPool_ok by (rule poolRun_ok)

text \<open>The two possible effects of a submission that returned \<^verbatim>\<open>h\<close> and \<^verbatim>\<open>err\<close>, where \<^verbatim>\<open>D\<close> holds of the
  entries that stand for the transaction.\<close>

definition admission :: "(Entry \<Rightarrow> bool) \<Rightarrow> Pool \<Rightarrow> hash \<Rightarrow> poolErr option \<Rightarrow> Pool \<Rightarrow> bool" where
  "admission D p h err p' \<longleftrightarrow>
     (case err of
        Some x \<Rightarrow> plByHash p' = plByHash p \<and> plBySender p' = plBySender p
      | None \<Rightarrow> \<exists>e gone. D e \<and> peHash e = h \<and> poolGet p h = None \<and> displaces p e gone \<and>
          poolGet p' = ((poolGet p) |` (- gone))(h \<mapsto> e) \<and> slotAt p' (peFrom e) (peNonce e) = Some h)"

lemma submitted_admission:
  assumes "pool_ok p" "submitted ord D p ((h, err), p')"
  shows "admission D p h err p'"
proof -
  from assms(2) consider x where "p' = noteReject x p" "err = Some x"
    | e where "((h, err), p') = poolAdd ord e p" "entry_ok (plCfg p) e" "D e"
    unfolding submitted_def by auto
  then show ?thesis
  proof cases
    case 1
    then show ?thesis by (simp add: admission_def)
  next
    case (2 e)
    have slot: "slotAt q (peFrom e) (peNonce e) = Some (peHash e)" if "pool_ok q" "poolGet q (peHash e) = Some e" for q
      using that unfolding pool_ok_def pool_linked_def by blast
    from assms(1) 2(2) show ?thesis
    proof (cases rule: poolAdd_cases [of p e ord])
      case (1 h' x)
      then show ?thesis using 2(1) by (simp add: admission_def)
    next
      case add: (2 gone q)
      then have "slotAt q (peFrom e) (peNonce e) = Some (peHash e)" by (intro slot) simp_all
      then show ?thesis using 2(1,3) add unfolding admission_def by auto
    qed
  qed
qed

text \<open>C37: a submission to a well-formed pool has exactly one of two effects, whatever order the pool is
  ranged over.  If it is rejected, the contents do not change, even when a replacement was tried.  If it is
  admitted, the entry stored under the returned hash, and under the transaction's sender and nonce, is the
  submitted transaction: its hash, sender, nonce, kind, bytes, size and price are those of the transaction.
  The only entry displaced is the one of that sender and nonce, with the configured price bump, or, when
  the pool is full, one strictly cheaper entry of least price.\<close>

theorem pool_admission_exact:
  assumes "pool_ok p"
  shows "(AddEVM ord etx sender raw cid now p = Some ((h, err), p') \<longrightarrow>
      admission (\<lambda>e. \<exists>tx. etx = Some tx \<and> describesEVM tx sender raw now e) p h err p') \<and>
    (AddDew c ord dtx raw cid now p = Some ((h, err), p') \<longrightarrow>
      admission (\<lambda>e. \<exists>tx. dtx = Some tx \<and> describesDew c (pcMinDewFeeWei (plCfg p)) tx raw now e) p h err p')"
  using submitted_admission [OF assms AddEVM_submitted] submitted_admission [OF assms AddDew_submitted] by blast


section \<open>Telemetry\<close>

abbreviation descending :: "senderList \<Rightarrow> bool" where
  "descending l \<equiv> sorted_wrt (\<lambda>x y. snd y \<le> snd x) l"

text \<open>The state of the inner loop: \<^verbatim>\<open>x\<close> has moved down to index \<^verbatim>\<open>j\<close> past smaller entries of the sorted part.\<close>

definition sifted :: "senderList \<Rightarrow> address \<times> nat \<Rightarrow> senderList \<Rightarrow> senderList \<times> nat \<Rightarrow> bool" where
  "sifted A x B = (\<lambda>(l, j). j \<le> length A \<and> l = take j A @ x # drop j A @ B \<and> (\<forall>y\<in>set (drop j A). snd y < snd x))"

lemma sifted_step:
  assumes "sifted A x B (l, j)" "j > 0" "snd (l ! j) > snd (l ! (j - 1))"
  shows "sifted A x B (l[j := l ! (j - 1), j - 1 := l ! j], j - 1)"
proof -
  obtain k where k: "j = Suc k" "k < length A" using assms(1,2) by (cases j) (auto simp: sifted_def)
  have l: "l = take k A @ A ! k # x # drop j A @ B"
    using assms(1) k by (simp add: sifted_def take_Suc_conv_app_nth)
  have at: "l ! j = x" "l ! k = A ! k" using k(2) unfolding l k(1) by (simp_all add: nth_append)
  have "l[j := A ! k, k := x] = take k A @ x # A ! k # drop j A @ B"
    using k(2) unfolding l k(1) by (simp add: list_update_append)
  moreover have "A ! k # drop j A = drop k A" using k by (simp add: Cons_nth_drop_Suc)
  moreover have "\<forall>y\<in>set (A ! k # drop j A). snd y < snd x" using assms k at by (simp add: sifted_def)
  ultimately show ?thesis using k at by (simp add: sifted_def)
qed

lemma sifted_done:
  assumes "sifted A x B (l, j)" "descending A" "\<not> (j > 0 \<and> snd (l ! j) > snd (l ! (j - 1)))"
  shows "descending (take j A @ x # drop j A)"
proof -
  have j: "j \<le> length A" "l = take j A @ x # drop j A @ B" "\<forall>y\<in>set (drop j A). snd y < snd x"
    using assms(1) by (simp_all add: sifted_def)
  have "descending (take j A @ drop j A)" using assms(2) by simp
  then have A: "descending (take j A)" "descending (drop j A)" "\<forall>y\<in>set (take j A). \<forall>z\<in>set (drop j A). snd z \<le> snd y"
    unfolding sorted_wrt_append by blast+
  have "snd x \<le> snd (A ! k)" if "k < j" for k
  proof -
    have "l ! j = x" "l ! (j - 1) = A ! (j - 1)" using j that by (simp_all add: nth_append)
    then have "snd x \<le> snd (A ! (j - 1))" using assms(3) that by simp
    moreover have "snd (A ! (j - 1)) \<le> snd (A ! k)"
      using sorted_wrt_nth_less [OF assms(2), of k "j - 1"] that j(1) by (cases "k = j - 1") auto
    ultimately show ?thesis by linarith
  qed
  then have "\<forall>y\<in>set (take j A). snd x \<le> snd y" by (force simp: in_set_conv_nth)
  then show ?thesis using A j(3) by (auto simp: sorted_wrt_append)
qed

lemma siftDown_sorts:
  assumes "descending A"
  obtains A' j where "siftDown (A @ x # B) (length A) = Some (A' @ B, j)" "descending A'"
    "mset A' = mset (A @ [x])" "length A' = Suc (length A)"
proof -
  let ?b = "\<lambda>(l, j). j > 0 \<and> snd (l ! j) > snd (l ! (j - 1))"
  let ?c = "\<lambda>(l :: senderList, j). (l[j := l ! (j - 1), j - 1 := l ! j], j - 1)"
  have step: "sifted A x B (?c s) \<and> snd (?c s) < snd s" if "sifted A x B s" "?b s" for s
    using that sifted_step [of A x B "fst s" "snd s"] by (cases s) auto
  have start: "sifted A x B (A @ x # B, length A)" by (simp add: sifted_def)
  obtain l j where run: "siftDown (A @ x # B) (length A) = Some (l, j)"
    using measure_while_option_Some [of "sifted A x B" ?b ?c snd, OF step start] unfolding siftDown_def by auto
  have inv: "sifted A x B (l, j)"
    using while_option_rule [of "sifted A x B" ?b ?c, OF _ run [unfolded siftDown_def] start] step by blast
  have stop: "\<not> ?b (l, j)" using while_option_stop [OF run [unfolded siftDown_def]] .
  have "mset (take j A @ x # drop j A) = mset (A @ [x])"
    by simp (metis append_take_drop_id mset_append)
  then show thesis
    using that [of "take j A @ x # drop j A" j] run inv sifted_done [OF inv assms] stop by (auto simp: sifted_def)
qed

lemma sortFrom_sorts:
  assumes "descending A"
  shows "\<exists>l'. sortFrom [length A..<length (A @ B)] (A @ B) = Some l' \<and> descending l' \<and> mset l' = mset (A @ B)"
  using assms
proof (induction B arbitrary: A)
  case Nil
  then show ?case by simp
next
  case (Cons x B)
  obtain A' j where A': "siftDown (A @ x # B) (length A) = Some (A' @ B, j)" "descending A'"
    "mset A' = mset (A @ [x])" "length A' = Suc (length A)"
    using siftDown_sorts [OF Cons.prems] by blast
  obtain l' where "sortFrom [length A'..<length (A' @ B)] (A' @ B) = Some l'" "descending l'" "mset l' = mset (A' @ B)"
    using Cons.IH [OF A'(2)] by blast
  moreover have "[length A..<length (A @ x # B)] = length A # [length A'..<length (A' @ B)]"
    using A'(4) upt_conv_Cons [of "length A" "length (A @ x # B)"] by simp
  ultimately show ?case using A'(1,3) by (simp del: length_append upt_Suc)
qed

text \<open>C38: the telemetry snapshot always returns: the insertion sort terminates, and the reported senders are
  the first sixteen (or all) of a rearrangement of the pool's senders by descending count.\<close>

theorem telemetry_returns_top_senders:
  "\<exists>t rest. poolTelemetry p = Some t \<and> length (tmTopSenders t) = min 16 (length (plBySender p)) \<and>
     mset (tmTopSenders t @ rest) = mset (map (\<lambda>(a, m). (a, length m)) (plBySender p)) \<and>
     sorted_wrt (\<lambda>x y. snd y \<le> snd x) (tmTopSenders t @ rest)"
proof -
  let ?l0 = "map (\<lambda>(a, m). (a, length m)) (plBySender p)"
  have "\<exists>l. sortFrom [1..<length ?l0] ?l0 = Some l \<and> descending l \<and> mset l = mset ?l0"
  proof (cases ?l0)
    case (Cons x l)
    then show ?thesis using sortFrom_sorts [of "[x]" l] by simp
  qed simp
  then obtain l where l: "sortFrom [1..<length ?l0] ?l0 = Some l" "descending l" "mset l = mset ?l0" by blast
  have "length l = length (plBySender p)" using mset_eq_length [OF l(3)] by simp
  moreover have "mset (take 16 l @ drop 16 l) = mset ?l0" "descending (take 16 l @ drop 16 l)"
    using l(2,3) by simp_all
  moreover have "(if length l > topN then take topN l else l) = take 16 l" by (simp add: topN_def)
  ultimately show ?thesis
    using l(1) by (intro exI [of _ "the (poolTelemetry p)"] exI [of _ "drop 16 l"])
      (simp add: poolTelemetry_def min.commute)
qed


section \<open>A concrete pool\<close>

definition exOrder :: "hash \<Rightarrow> nat" where "exOrder h = (if h = 1 then 1 else 0)"

definition exEth :: "hash \<Rightarrow> u64 \<Rightarrow> int \<Rightarrow> ethTx" where
  "exEth h n price = \<lparr>etHash = h, etType = DynamicFeeTxType, etNonce = n, etChainId = Some 3, etGasFeeCap = Some price,
     etGasTipCap = Some 1, etGasPrice = None, etMarshal = Some [1, 2, 3]\<rparr>"

text \<open>A full pool of size one: the second transaction evicts the first, the third is rejected, the fourth
  replaces the second.\<close>

definition exPoolOps :: "poolOp list" where
  "exPoolOps = [PoolEVM exOrder (Some (exEth 1 0 1000000000)) 7 [] (Some 3) 0, PoolEVM exOrder (Some (exEth 2 0 2000000000)) 8 [] (Some 3) 1,
     PoolEVM exOrder (Some (exEth 3 1 1500000000)) 9 [] (Some 3) 2, PoolEVM exOrder (Some (exEth 4 0 2200000000)) 8 [] (Some 3) 3]"

definition exPool :: Pool where "exPool = NewPool (DefaultConfig\<lparr>pcMaxGlobal := 1\<rparr>)"

definition exEntry :: "hash \<Rightarrow> address \<Rightarrow> u64 \<Rightarrow> int \<Rightarrow> nat \<Rightarrow> Entry" where
  "exEntry h a n price now = \<lparr>peHash = h, peFrom = a, peNonce = n, peKind = KindEVM, peRaw = [1, 2, 3], pePrice = price,
     peTip = Some 1, peSize = 3, peAddedAt = now\<rparr>"

lemma exPool_submit:
  assumes "plCfg p = plCfg exPool" "price \<ge> 1000000000"
  shows "AddEVM ord (Some (exEth h n price)) a [] (Some 3) now p = Some (poolAdd ord (exEntry h a n price now) p)"
  using assms by (simp add: AddEVM_def exEth_def evmPrice_def exEntry_def exPool_def NewPool_def DefaultConfig_def
      Let_def numeral_3_eq_3)

lemma plCfg_removeLocked: "plCfg (removeLocked h p) = plCfg p"
  by (simp add: removeLocked_def Let_def split: option.split)

lemma plCfg_poolAdd: "plCfg (snd (poolAdd ord e p)) = plCfg p"
  by (auto simp: poolAdd_def replaceSlot_def evictCheaperThan_def insertEntry_def noteReject_def plCfg_removeLocked
      Let_def split: option.split sum.split)

definition exPoolEnd :: Pool where
  "exPoolEnd = fold (\<lambda>e p. snd (poolAdd exOrder e p)) [exEntry 1 7 0 1000000000 0, exEntry 2 8 0 2000000000 1,
     exEntry 3 9 1 1500000000 2, exEntry 4 8 0 2200000000 3] exPool"

lemma exPool_run: "poolRun exTxLib exPoolOps exPool = Some exPoolEnd"
  by (simp add: exPoolOps_def exPoolEnd_def exPool_submit plCfg_poolAdd)

lemma exPoolEnd_contents:
  "map fst (plByHash exPoolEnd) = [4] \<and> plEvictions exPoolEnd = 1 \<and> plReplaces exPoolEnd = 1 \<and>
   rcPoolFull (plRejects exPoolEnd) = 1"
  by code_simp

theorem pool_stays_well_formed_witness:
  "poolRun exTxLib exPoolOps exPool = Some exPoolEnd \<and> pool_ok exPoolEnd \<and> map fst (plByHash exPoolEnd) = [4]"
  using exPool_run exPoolEnd_contents pool_stays_well_formed [of exTxLib exPoolOps "DefaultConfig\<lparr>pcMaxGlobal := 1\<rparr>"]
  unfolding exPool_def [symmetric] by simp

text \<open>A native transaction with a cached hash.\<close>

definition exPoolDew :: DewTx where "exPoolDew = exDewTx\<lparr>dxHash := 5\<rparr>"

definition exDewEntry :: Entry where
  "exDewEntry = \<lparr>peHash = 5, peFrom = 7, peNonce = 0, peKind = KindDew, peRaw = [0xdf, 0], pePrice = uint DefaultDewTxFeeWei,
     peTip = None, peSize = Suc (Suc 0), peAddedAt = 0\<rparr>"

lemma exPool_submit_dew:
  "AddDew exTxLib ord (Some exPoolDew) [0xdf, 0] None 0 exPool = Some (poolAdd ord exDewEntry exPool)"
  by (simp add: AddDew_def exPoolDew_def exDewTx_def DewTxHash_def exDewEntry_def exPool_def NewPool_def DefaultConfig_def
      MinDewTxFeeWei_def DefaultDewTxFeeWei_def Let_def)

theorem pool_admission_exact_witness:
  "(\<exists>p'. AddEVM exOrder (Some (exEth 1 0 1000000000)) 7 [] (Some 3) 0 exPool = Some ((1, None), p') \<and>
      admission (describesEVM (exEth 1 0 1000000000) 7 [] 0) exPool 1 None p') \<and>
   (\<exists>p'. AddDew exTxLib exOrder (Some exPoolDew) [0xdf, 0] None 0 exPool = Some ((5, None), p') \<and>
      admission (describesDew exTxLib (pcMinDewFeeWei (plCfg exPool)) exPoolDew [0xdf, 0] 0) exPool 5 None p')"
proof
  have ok: "pool_ok exPool" by (simp add: exPool_def NewPool_ok)
  have "fst (poolAdd exOrder (exEntry 1 7 0 1000000000 0) exPool) = (1, None)" by code_simp
  then have "AddEVM exOrder (Some (exEth 1 0 1000000000)) 7 [] (Some 3) 0 exPool =
      Some ((1, None), snd (poolAdd exOrder (exEntry 1 7 0 1000000000 0) exPool))"
    by (simp add: exPool_submit prod_eq_iff)
  then show "\<exists>p'. AddEVM exOrder (Some (exEth 1 0 1000000000)) 7 [] (Some 3) 0 exPool = Some ((1, None), p') \<and>
      admission (describesEVM (exEth 1 0 1000000000) 7 [] 0) exPool 1 None p'"
    using pool_admission_exact [OF ok, THEN conjunct1, of exOrder "Some (exEth 1 0 1000000000)" 7 "[]" "Some 3" 0] by simp
  have "fst (poolAdd exOrder exDewEntry exPool) = (5, None)" by code_simp
  then have "AddDew exTxLib exOrder (Some exPoolDew) [0xdf, 0] None 0 exPool = Some ((5, None), snd (poolAdd exOrder exDewEntry exPool))"
    by (simp add: exPool_submit_dew prod_eq_iff)
  then show "\<exists>p'. AddDew exTxLib exOrder (Some exPoolDew) [0xdf, 0] None 0 exPool = Some ((5, None), p') \<and>
      admission (describesDew exTxLib (pcMinDewFeeWei (plCfg exPool)) exPoolDew [0xdf, 0] 0) exPool 5 None p'"
    using pool_admission_exact [OF ok, THEN conjunct2, of exTxLib exOrder "Some exPoolDew" "[0xdf, 0]" None 0] by simp
qed

end
