(* ===== verification/BlockSelection.thy ===== *)
theory BlockSelection
  imports MempoolProps StateFinal
begin

text \<open>
  Selection of pending transactions for a block (\<^verbatim>\<open>src/node/build.go\<close>): entries are grouped by sender
  and sorted by nonce, and the best-priced ready entry is taken until the block is full or nothing is
  ready.  The EVM and the native selection share one loop, which is defined for a decoder, a gas
  function and a conversion; the native path uses no gas and no conversion.

  The decoder of go-ethereum transactions, their gas and their conversion through the wire form are
  parameters.  Go ranges over the senders in a new order at each pick, which decides the ties between equal
  prices: the order of every pick is an argument of the loop and arbitrary in the theorems.  Go's \<^verbatim>\<open>sort.Slice\<close> is not stable; within one sender the nonces of pool entries differ.
\<close>

section \<open>Selection\<close>

definition DefaultMaxTxsPerBlock :: nat where "DefaultMaxTxsPerBlock = 64"

type_synonym buckets = "(address \<times> Entry list) list"

definition bucketAdd :: "Entry \<Rightarrow> buckets \<Rightarrow> buckets" where
  "bucketAdd e b = AList.update (peFrom e) ((case map_of b (peFrom e) of None \<Rightarrow> [] | Some l \<Rightarrow> l) @ [e]) b"

definition groupPendingBySender :: "Entry list \<Rightarrow> Kind \<Rightarrow> hash set \<Rightarrow> buckets" where
  "groupPendingBySender pending kind exclude =
     map (\<lambda>(a, l). (a, sort_key peNonce l))
       (fold bucketAdd (filter (\<lambda>e. peKind e = kind \<and> peHash e \<notin> exclude) pending) [])"

text \<open>The inner loop of \<^verbatim>\<open>pickBestReady\<close>: the entry with the wanted nonce, none across a gap.\<close>

fun readyEntry :: "u64 \<Rightarrow> Entry list \<Rightarrow> Entry option" where
  "readyEntry want [] = None"
| "readyEntry want (e # es) =
     (if peNonce e < want then readyEntry want es else if peNonce e > want then None else Some e)"

fun pickScan :: "buckets \<Rightarrow> (address \<Rightarrow> u64) \<Rightarrow> (Entry \<times> address) option \<Rightarrow> (Entry \<times> address) option" where
  "pickScan [] nextNonce best = best"
| "pickScan ((a, l) # b) nextNonce best =
     (case readyEntry (nextNonce a) l of
        None \<Rightarrow> pickScan b nextNonce best
      | Some e \<Rightarrow>
          (case best of
             None \<Rightarrow> pickScan b nextNonce (Some (e, a))
           | Some (e', a') \<Rightarrow> if pePrice e > pePrice e' then pickScan b nextNonce (Some (e, a)) else pickScan b nextNonce best))"

definition pickBestReady :: "(address \<Rightarrow> nat) \<Rightarrow> buckets \<Rightarrow> (address \<Rightarrow> u64) \<Rightarrow> (Entry \<times> address) option" where
  "pickBestReady ord b nextNonce = pickScan (ranged ord b) nextNonce None"

definition filterEntry :: "Entry list \<Rightarrow> hash \<Rightarrow> Entry list" where
  "filterEntry l h = filter (\<lambda>e. peHash e \<noteq> h) l"

definition dropEntry :: "address \<Rightarrow> hash \<Rightarrow> buckets \<Rightarrow> buckets" where
  "dropEntry a h b = map (\<lambda>(a', l). (a', if a' = a then filterEntry l h else l)) b"

definition entryCount :: "buckets \<Rightarrow> nat" where
  "entryCount b = sum_list (map (\<lambda>(a, l). length l) b)"

lemma readyEntry_SomeD: "readyEntry want l = Some e \<Longrightarrow> e \<in> set l \<and> peNonce e = want"
  by (induction l) (auto split: if_splits)

lemma readyEntry_NoneD: "sorted (map peNonce l) \<Longrightarrow> readyEntry want l = None \<Longrightarrow> e \<in> set l \<Longrightarrow> peNonce e \<noteq> want"
  by (induction l) (auto split: if_splits)

lemma pickScan_Cons:
  "pickScan ((a, l) # b) nn best = pickScan b nn best \<or>
   (\<exists>e. readyEntry (nn a) l = Some e \<and> pickScan ((a, l) # b) nn best = pickScan b nn (Some (e, a)))"
  by (auto split: option.split)

lemma pickScan_SomeD:
  "pickScan b nn best = Some (e, a) \<Longrightarrow>
     best = Some (e, a) \<or> (\<exists>l. (a, l) \<in> set b \<and> readyEntry (nn a) l = Some e)"
proof (induction b arbitrary: best)
  case (Cons x b)
  obtain a' l where x: "x = (a', l)" by (cases x)
  from pickScan_Cons [of a' l b nn best] show ?case
    using Cons.IH [of best] Cons.IH [of "Some (_, a')"] Cons.prems unfolding x by fastforce
qed simp

lemma pickScan_best: "pickScan b nn (Some p) \<noteq> None"
  by (induction b arbitrary: p) (auto split: option.splits)

lemma pickScan_NoneD:
  "pickScan b nn best = None \<Longrightarrow> \<forall>(a, l)\<in>set b. readyEntry (nn a) l = None"
proof (induction b)
  case (Cons x b)
  obtain a l where x: "x = (a, l)" by (cases x)
  have "best = None" using Cons.prems pickScan_best by (cases best) auto
  then have "readyEntry (nn a) l = None" "pickScan b nn best = None"
    using Cons.prems unfolding x by (auto simp: pickScan_best simp del: not_None_eq split: option.splits)
  then show ?case using Cons.IH unfolding x by simp
qed simp

lemma pick_member:
  assumes "pickBestReady ord b nn = Some (e, a)"
  obtains l where "(a, l) \<in> set b" "e \<in> set l" "peNonce e = nn a"
  using assms pickScan_SomeD [of "ranged ord b" nn None e a] readyEntry_SomeD by (auto simp: pickBestReady_def)

lemma entryCount_member: "(a, l) \<in> set b \<Longrightarrow> length l \<le> entryCount b"
  unfolding entryCount_def by (intro member_le_sum_list) force+

lemma dropEntry_less:
  assumes "(a, l) \<in> set b" "e \<in> set l"
  shows "entryCount (dropEntry a (peHash e) b) < entryCount b"
proof -
  have le: "entryCount (dropEntry a h b) \<le> entryCount b" for h and b :: buckets
    by (induction b) (auto simp: entryCount_def dropEntry_def filterEntry_def add_mono)
  have "length (filterEntry l (peHash e)) < length l"
    using assms(2) by (simp add: filterEntry_def length_filter_less)
  then show ?thesis using assms(1)
  proof (induction b)
    case (Cons x b)
    show ?case
    proof (cases "x = (a, l)")
      case True
      then show ?thesis using Cons.prems(1) le [of "peHash e" b]
        by (simp add: entryCount_def dropEntry_def add_less_le_mono)
    next
      case False
      then have "entryCount (dropEntry a (peHash e) b) < entryCount b" using Cons by simp
      moreover have "entryCount (dropEntry a (peHash e) [x]) \<le> entryCount [x]" by (rule le)
      ultimately show ?thesis by (simp add: entryCount_def dropEntry_def add_le_less_mono split: prod.splits)
    qed
  qed simp
qed

lemma delete_less:
  assumes "(a, l) \<in> set b" "e \<in> set l"
  shows "entryCount (AList.delete a b) < entryCount b"
proof -
  have le: "entryCount (AList.delete a b) \<le> entryCount b" for b :: buckets
    by (induction b) (auto simp: entryCount_def AList.delete_eq)
  have "length l > 0" using assms(2) by auto
  then show ?thesis using assms(1)
  proof (induction b)
    case (Cons x b)
    show ?case
    proof (cases "x = (a, l)")
      case True
      then have "entryCount (AList.delete a (x # b)) = entryCount (AList.delete a b)" "entryCount (x # b) = length l + entryCount b"
        by (simp_all add: entryCount_def)
      then show ?thesis using Cons.prems(1) le [of b] by linarith
    next
      case False
      then have "entryCount (AList.delete a b) < entryCount b" using Cons by simp
      then show ?thesis by (cases x) (simp add: entryCount_def)
    qed
  qed simp
qed

text \<open>The selection loop.  An entry that does not decode or convert is dropped; a sender whose next entry
  exceeds the gas limit is dropped for this block.  The gas total is a 64-bit counter.  The iteration order of a pick is
  given by the number of transactions selected and the number of entries left, which no two picks share.
  The model keeps the entry and its decoded form beside each selected transaction.\<close>

type_synonym pickOrder = "nat \<Rightarrow> nat \<Rightarrow> address \<Rightarrow> nat"

function (sequential) selectLoop ::
    "pickOrder \<Rightarrow> (byte list \<Rightarrow> 'e option) \<Rightarrow> ('e \<Rightarrow> u64) \<Rightarrow> ('e \<Rightarrow> 'tx option) \<Rightarrow> u64 \<Rightarrow> nat \<Rightarrow> buckets \<Rightarrow> (address \<Rightarrow> u64) \<Rightarrow> u64 \<Rightarrow>
     (Entry \<times> 'e \<times> 'tx) list \<Rightarrow> (Entry \<times> 'e \<times> 'tx) list" where
  "selectLoop ord dec gas conv gasLimit maxTxs b nextNonce totalGas out =
     (if length out < maxTxs then
        (case pickBestReady (ord (length out) (entryCount b)) b nextNonce of
           None \<Rightarrow> out
         | Some (best, a) \<Rightarrow>
             (case dec (peRaw best) of
                None \<Rightarrow> selectLoop ord dec gas conv gasLimit maxTxs (dropEntry a (peHash best) b) nextNonce totalGas out
              | Some x \<Rightarrow>
                  if gasLimit > 0 \<and> totalGas + gas x > gasLimit
                  then selectLoop ord dec gas conv gasLimit maxTxs (AList.delete a b) nextNonce totalGas out
                  else (case conv x of
                     None \<Rightarrow> selectLoop ord dec gas conv gasLimit maxTxs (dropEntry a (peHash best) b) nextNonce totalGas out
                   | Some t \<Rightarrow> selectLoop ord dec gas conv gasLimit maxTxs b (nextNonce(a := nextNonce a + 1))
                       (totalGas + gas x) (out @ [(best, x, t)]))))
      else out)"
  by pat_completeness auto

termination
  by (relation "measures [\<lambda>(ord, dec, gas, conv, gl, m, b, n, t, out). m - length out,
      \<lambda>(ord, dec, gas, conv, gl, m, b, n, t, out). entryCount b]")
    (auto elim!: pick_member intro: dropEntry_less delete_less)

declare selectLoop.simps [simp del]

definition noGas :: "'e \<Rightarrow> u64" where "noGas x = 0"

definition decodeDew :: "('key, 'z) txLib_scheme \<Rightarrow> byte list \<Rightarrow> DewTx option" where
  "decodeDew c b = (case UnmarshalDewTx c b of Inl e \<Rightarrow> None | Inr t \<Rightarrow> Some t)"

text \<open>The two entry points, with the start nonces read from the state database.\<close>

definition selectDewEntries :: "pickOrder \<Rightarrow> ('key, 'z) txLib_scheme \<Rightarrow> ('k, 'y) stateLib_scheme \<Rightarrow> StateDB \<Rightarrow> Pool \<Rightarrow> nat \<Rightarrow>
    (Entry \<times> DewTx \<times> DewTx) list" where
  "selectDewEntries ord c d s p maxTxs = selectLoop ord (decodeDew c) noGas Some 0 maxTxs
     (groupPendingBySender (Pending p) KindDew {}) (\<lambda>a. fst (GetNonce d s a)) 0 []"

definition selectPendingDewTxs :: "pickOrder \<Rightarrow> ('key, 'z) txLib_scheme \<Rightarrow> ('k, 'y) stateLib_scheme \<Rightarrow> StateDB \<Rightarrow> Pool \<Rightarrow> int \<Rightarrow> DewTx list" where
  "selectPendingDewTxs ord c d s p maxTxs = (if maxTxs \<le> 0 then []
     else map (\<lambda>(e, x, t). t) (selectDewEntries ord c d s p (nat maxTxs)))"

text \<open>The decoder, gas and conversion of go-ethereum transactions are parameters.\<close>

record ('e, 'tx) ethLib =
  ethDecode :: "byte list \<Rightarrow> 'e option"
  ethGas :: "'e \<Rightarrow> u64"
  ethToDew :: "'e \<Rightarrow> 'tx option"

definition selectEVMEntries :: "pickOrder \<Rightarrow> ('e, 'tx) ethLib \<Rightarrow> ('k, 'y) stateLib_scheme \<Rightarrow> StateDB \<Rightarrow> Pool \<Rightarrow> nat \<Rightarrow> u64 \<Rightarrow> hash set \<Rightarrow>
    (Entry \<times> 'e \<times> 'tx) list" where
  "selectEVMEntries ord c d s p maxTxs gasLimit exclude = selectLoop ord (ethDecode c) (ethGas c) (ethToDew c) gasLimit maxTxs
     (groupPendingBySender (Pending p) KindEVM exclude) (\<lambda>a. fst (GetNonce d s a)) 0 []"

definition selectPendingTxs :: "pickOrder \<Rightarrow> ('e, 'tx) ethLib \<Rightarrow> ('k, 'y) stateLib_scheme \<Rightarrow> StateDB \<Rightarrow> Pool \<Rightarrow> int \<Rightarrow> u64 \<Rightarrow> hash set \<Rightarrow> 'tx list" where
  "selectPendingTxs ord c d s p maxTxs gasLimit exclude = (if maxTxs \<le> 0 then []
     else map (\<lambda>(e, x, t). t) (selectEVMEntries ord c d s p (nat maxTxs) gasLimit exclude))"


section \<open>Grouping\<close>

text \<open>The buckets hold the entries of a set, each under its sender and sorted by nonce.\<close>

definition buckets_of :: "Entry set \<Rightarrow> buckets \<Rightarrow> bool" where
  "buckets_of E b \<longleftrightarrow> (\<forall>(a, l)\<in>set b. sorted (map peNonce l) \<and> (\<forall>e\<in>set l. e \<in> E \<and> peFrom e = a))"

definition inBuckets :: "Entry \<Rightarrow> buckets \<Rightarrow> bool" where
  "inBuckets e b \<longleftrightarrow> (\<exists>l. (peFrom e, l) \<in> set b \<and> e \<in> set l)"

definition candidates :: "Entry list \<Rightarrow> Kind \<Rightarrow> hash set \<Rightarrow> Entry set" where
  "candidates pending kind exclude = {e \<in> set pending. peKind e = kind \<and> peHash e \<notin> exclude}"

lemma alist_update_subset: "set (AList.update k v al) \<subseteq> insert (k, v) (set al)"
  by (induction al) auto

definition held :: "buckets \<Rightarrow> Entry \<Rightarrow> bool" where
  "held b e \<longleftrightarrow> (\<exists>l. map_of b (peFrom e) = Some l \<and> e \<in> set l)"

lemma held_add: "held (bucketAdd e b) e" "held b x \<Longrightarrow> held (bucketAdd e b) x"
  by (auto simp: held_def bucketAdd_def update_conv')

lemma held_fold: "held b x \<or> x \<in> set es \<Longrightarrow> held (fold bucketAdd es b) x"
  by (induction es arbitrary: b) (auto simp: held_add)

definition sound_buckets :: "Entry set \<Rightarrow> buckets \<Rightarrow> bool" where
  "sound_buckets E b \<longleftrightarrow> (\<forall>(a, l)\<in>set b. \<forall>e\<in>set l. e \<in> E \<and> peFrom e = a)"

lemma sound_add:
  assumes "sound_buckets E b" "e \<in> E"
  shows "sound_buckets E (bucketAdd e b)"
  unfolding sound_buckets_def
proof clarify
  fix a l x assume al: "(a, l) \<in> set (bucketAdd e b)" and x: "x \<in> set l"
  then have "(a, l) \<in> set b \<or> a = peFrom e \<and> (x = e \<or> (\<exists>l'. map_of b a = Some l' \<and> x \<in> set l'))"
    using alist_update_subset [of "peFrom e" _ b] by (fastforce simp: bucketAdd_def split: option.splits)
  then show "x \<in> E \<and> peFrom x = a"
    using assms x by (auto simp: sound_buckets_def dest!: map_of_SomeD)
qed

lemma sound_fold: "sound_buckets E b \<Longrightarrow> set es \<subseteq> E \<Longrightarrow> sound_buckets E (fold bucketAdd es b)"
  by (induction es arbitrary: b) (simp_all add: sound_add)

lemma group_ok:
  "buckets_of (candidates pending kind exclude) (groupPendingBySender pending kind exclude)"
  "e \<in> candidates pending kind exclude \<Longrightarrow> inBuckets e (groupPendingBySender pending kind exclude)"
proof -
  let ?E = "candidates pending kind exclude" and ?b = "fold bucketAdd (filter (\<lambda>e. peKind e = kind \<and> peHash e \<notin> exclude) pending) []"
  have "sound_buckets ?E ?b" by (rule sound_fold) (auto simp: sound_buckets_def candidates_def)
  then show "buckets_of ?E (groupPendingBySender pending kind exclude)"
    by (auto simp: buckets_of_def sound_buckets_def groupPendingBySender_def)
  assume "e \<in> ?E"
  then have "held ?b e" by (intro held_fold) (auto simp: candidates_def)
  then obtain l where "(peFrom e, l) \<in> set ?b" "e \<in> set l" by (auto simp: held_def dest: map_of_SomeD)
  then show "inBuckets e (groupPendingBySender pending kind exclude)"
    unfolding inBuckets_def groupPendingBySender_def by (intro exI [of _ "sort_key peNonce l"]) force
qed


section \<open>The selection\<close>

text \<open>The nonces of the selected entries of one sender, in block order.\<close>

definition chosenNonces :: "(Entry \<times> 'e \<times> 'tx) list \<Rightarrow> address \<Rightarrow> u64 list" where
  "chosenNonces out a = map peNonce (filter (\<lambda>e. peFrom e = a) (map fst out))"

definition nonceRun :: "u64 \<Rightarrow> nat \<Rightarrow> u64 list" where
  "nonceRun n k = map (\<lambda>i. n + of_nat i) [0..<k]"

text \<open>What holds of the selected entries at every iteration: they are candidates that decode and convert,
  and each sender's nonces run without a gap from its account nonce to the next wanted one.\<close>

definition chosen_ok :: "(byte list \<Rightarrow> 'e option) \<Rightarrow> ('e \<Rightarrow> 'tx option) \<Rightarrow> Entry set \<Rightarrow> (address \<Rightarrow> u64) \<Rightarrow> (address \<Rightarrow> u64) \<Rightarrow>
    (Entry \<times> 'e \<times> 'tx) list \<Rightarrow> bool" where
  "chosen_ok dec conv E n0 nn out \<longleftrightarrow>
     (\<forall>(e, x, t)\<in>set out. e \<in> E \<and> dec (peRaw e) = Some x \<and> conv x = Some t) \<and>
     (\<forall>a. chosenNonces out a = nonceRun (n0 a) (length (chosenNonces out a)) \<and>
          nn a = n0 a + of_nat (length (chosenNonces out a)))"

lemma chosen_snoc:
  assumes "chosen_ok dec conv E n0 nn out" "e \<in> E" "dec (peRaw e) = Some x" "conv x = Some t" "peNonce e = nn (peFrom e)"
  shows "chosen_ok dec conv E n0 (nn(peFrom e := nn (peFrom e) + 1)) (out @ [(e, x, t)])"
proof -
  have "chosenNonces (out @ [(e, x, t)]) a =
      (if a = peFrom e then chosenNonces out a @ [nn a] else chosenNonces out a)" for a
    using assms(5) by (simp add: chosenNonces_def)
  then show ?thesis using assms by (auto simp: chosen_ok_def nonceRun_def)
qed

lemma buckets_of_drop:
  assumes "buckets_of E b"
  shows "buckets_of E (dropEntry a h b)"
proof -
  have "sorted (map peNonce l) \<and> (\<forall>e\<in>set l. e \<in> E \<and> peFrom e = a')" if mem: "(a', l) \<in> set (dropEntry a h b)" for a' l
  proof -
    obtain l0 where l0: "(a', l0) \<in> set b" "l = (if a' = a then filterEntry l0 h else l0)"
      using mem by (auto simp: dropEntry_def)
    then show ?thesis using assms by (auto simp: buckets_of_def filterEntry_def sorted_filter)
  qed
  then show ?thesis by (auto simp: buckets_of_def)
qed

lemma buckets_of_delete: "buckets_of E b \<Longrightarrow> buckets_of E (AList.delete a b)"
  by (auto simp: buckets_of_def AList.delete_eq)

text \<open>Computation induction on the loop, relating its arguments to its result.\<close>

lemma selectLoop_rule [consumes 0, case_names stop drop skip take]:
  assumes stop: "\<And>k b nn tot out. \<not> length out < m \<or> pickBestReady k b nn = None \<Longrightarrow> P b nn tot out out"
    and drop: "\<And>k b nn tot out e a r. length out < m \<Longrightarrow> pickBestReady k b nn = Some (e, a) \<Longrightarrow>
      dec (peRaw e) = None \<or> (\<exists>x. dec (peRaw e) = Some x \<and> conv x = None) \<Longrightarrow>
      P (dropEntry a (peHash e) b) nn tot out r \<Longrightarrow> P b nn tot out r"
    and skip: "\<And>k b nn tot out e a x r. length out < m \<Longrightarrow> pickBestReady k b nn = Some (e, a) \<Longrightarrow>
      dec (peRaw e) = Some x \<Longrightarrow> gl > 0 \<Longrightarrow> tot + gas x > gl \<Longrightarrow>
      P (AList.delete a b) nn tot out r \<Longrightarrow> P b nn tot out r"
    and take: "\<And>k b nn tot out e a x t r. length out < m \<Longrightarrow> pickBestReady k b nn = Some (e, a) \<Longrightarrow>
      dec (peRaw e) = Some x \<Longrightarrow> conv x = Some t \<Longrightarrow> \<not> (gl > 0 \<and> tot + gas x > gl) \<Longrightarrow>
      P b (nn(a := nn a + 1)) (tot + gas x) (out @ [(e, x, t)]) r \<Longrightarrow> P b nn tot out r"
  shows "P b nn tot out (selectLoop ord dec gas conv gl m b nn tot out)"
proof (induction "m - length out + entryCount b" arbitrary: b nn tot out rule: less_induct)
  case less
  let ?loop = "selectLoop ord dec gas conv gl m" and ?pick = "\<lambda>b nn out. pickBestReady (ord (length out) (entryCount b)) b nn"
  consider "\<not> length out < m \<or> ?pick b nn out = None"
    | e a where "length out < m" "?pick b nn out = Some (e, a)" by fastforce
  then show ?case
  proof cases
    case 1
    then have "?loop b nn tot out = out" by (subst selectLoop.simps) auto
    then show ?thesis using stop [OF 1] by metis
  next
    case (2 e a)
    obtain l where l: "(a, l) \<in> set b" "e \<in> set l" using 2(2) by (rule pick_member)
    have drops: "P (dropEntry a (peHash e) b) nn tot out (?loop (dropEntry a (peHash e) b) nn tot out)"
      "P (AList.delete a b) nn tot out (?loop (AList.delete a b) nn tot out)"
      using dropEntry_less [OF l] delete_less [OF l] by (intro less; simp)+
    have takes: "P b nn' tot' (out @ [r]) (?loop b nn' tot' (out @ [r]))" for nn' tot' r
      using 2(1) by (intro less) simp
    consider "dec (peRaw e) = None" | x where "dec (peRaw e) = Some x" "gl > 0" "tot + gas x > gl"
      | x where "dec (peRaw e) = Some x" "\<not> (gl > 0 \<and> tot + gas x > gl)" "conv x = None"
      | x t where "dec (peRaw e) = Some x" "\<not> (gl > 0 \<and> tot + gas x > gl)" "conv x = Some t"
      by (metis option.exhaust)
    then show ?thesis
    proof cases
      case 1
      then have "?loop b nn tot out = ?loop (dropEntry a (peHash e) b) nn tot out"
        using 2 by (subst selectLoop.simps) simp
      then show ?thesis using drop [OF 2 _ drops(1)] 1 by simp
    next
      case (2 x)
      then have "?loop b nn tot out = ?loop (AList.delete a b) nn tot out"
        using \<open>length out < m\<close> \<open>?pick b nn out = Some (e, a)\<close> by (subst selectLoop.simps) simp
      then show ?thesis
        using skip [OF \<open>length out < m\<close> \<open>?pick b nn out = Some (e, a)\<close> 2 drops(2)] by simp
    next
      case (3 x)
      then have "?loop b nn tot out = ?loop (dropEntry a (peHash e) b) nn tot out"
        using 2 by (subst selectLoop.simps) auto
      then show ?thesis using drop [OF 2 _ drops(1)] 3 by simp
    next
      case (4 x t)
      then have "?loop b nn tot out = ?loop b (nn(a := nn a + 1)) (tot + gas x) (out @ [(e, x, t)])"
        using 2 by (subst selectLoop.simps) auto
      then show ?thesis using take [OF 2 4(1,3,2) takes] by simp
    qed
  qed
qed

lemma selectLoop_sound:
  assumes "buckets_of E b" "chosen_ok dec conv E n0 nn out" "length out \<le> m"
  shows "\<exists>nn'. chosen_ok dec conv E n0 nn' (selectLoop ord dec gas conv gl m b nn tot out) \<and>
    length (selectLoop ord dec gas conv gl m b nn tot out) \<le> m"
proof -
  define P where "P b nn out r \<longleftrightarrow> (buckets_of E b \<longrightarrow> chosen_ok dec conv E n0 nn out \<longrightarrow> length out \<le> m \<longrightarrow>
      (\<exists>nn'. chosen_ok dec conv E n0 nn' r \<and> length r \<le> m))" for b nn out r
  have "P b nn out (selectLoop ord dec gas conv gl m b nn tot out)"
  proof (rule selectLoop_rule [where P = "\<lambda>b nn tot out r. P b nn out r"], goal_cases stop drop skip take)
    case (drop k b nn tot out e a r)
    then show ?case using buckets_of_drop unfolding P_def by blast
  next
    case (skip k b nn tot out e a x r)
    then show ?case using buckets_of_delete unfolding P_def by blast
  next
    case (take k b nn tot out e a x t r)
    obtain l where l: "(a, l) \<in> set b" "e \<in> set l" "peNonce e = nn a" using take(2) by (rule pick_member)
    show ?case unfolding P_def
    proof (intro impI)
      assume pre: "buckets_of E b" "chosen_ok dec conv E n0 nn out" "length out \<le> m"
      then have "e \<in> E" "peFrom e = a" using l by (auto simp: buckets_of_def)
      then have "chosen_ok dec conv E n0 (nn(a := nn a + 1)) (out @ [(e, x, t)])"
        using chosen_snoc [OF pre(2) _ take(3,4)] l(3) by simp
      then show "\<exists>nn'. chosen_ok dec conv E n0 nn' r \<and> length r \<le> m"
        using take(1,6) pre unfolding P_def by simp
    qed
  qed (auto simp: P_def)
  then show ?thesis using assms by (simp add: P_def)
qed

text \<open>With no gas limit nothing is skipped: an entry that decodes and converts stays in its bucket, so when the
  loop ends before the block is full no such entry has its sender's next nonce.\<close>

definition usable :: "(byte list \<Rightarrow> 'e option) \<Rightarrow> ('e \<Rightarrow> 'tx option) \<Rightarrow> Entry \<Rightarrow> bool" where
  "usable dec conv e \<longleftrightarrow> (\<exists>x t. dec (peRaw e) = Some x \<and> conv x = Some t)"

lemma inBuckets_drop:
  assumes "buckets_of E b" "inj_on peHash E" "e \<in> E" "inBuckets f b" "f \<noteq> e"
  shows "inBuckets f (dropEntry a (peHash e) b)"
proof -
  obtain l where l: "(peFrom f, l) \<in> set b" "f \<in> set l" using assms(4) by (auto simp: inBuckets_def)
  then have "f \<in> E" using assms(1) by (auto simp: buckets_of_def)
  then have "peHash f \<noteq> peHash e" using assms(2,3,5) by (auto dest: inj_onD)
  then show ?thesis
    using l unfolding inBuckets_def dropEntry_def
    by (intro exI [of _ "if peFrom f = a then filterEntry l (peHash e) else l"]) (force simp: filterEntry_def)
qed

lemma selectLoop_maximal:
  fixes dec :: "byte list \<Rightarrow> 'a option" and conv :: "'a \<Rightarrow> 'b option"
  assumes "buckets_of E b" "inj_on peHash E" "chosen_ok dec conv E n0 nn out" "usable dec conv f" "inBuckets f b"
    "length (selectLoop ord dec gas conv 0 m b nn tot out) < m"
  shows "peNonce f \<noteq> n0 (peFrom f) + of_nat (length (chosenNonces (selectLoop ord dec gas conv 0 m b nn tot out) (peFrom f)))"
proof -
  define P where "P b nn out r \<longleftrightarrow> (buckets_of E b \<longrightarrow> chosen_ok dec conv E n0 nn out \<longrightarrow> inBuckets f b \<longrightarrow> length r < m \<longrightarrow>
      peNonce f \<noteq> n0 (peFrom f) + of_nat (length (chosenNonces r (peFrom f))))" for b nn and out r :: "(Entry \<times> 'a \<times> 'b) list"
  have "P b nn out (selectLoop ord dec gas conv 0 m b nn tot out)"
  proof (rule selectLoop_rule [where P = "\<lambda>b nn tot out r. P b nn out r"], goal_cases stop drop skip take)
    case (stop k b nn tot out)
    show ?case unfolding P_def
    proof (intro impI)
      assume pre: "buckets_of E b" "chosen_ok dec conv E n0 nn out" "inBuckets f b" "length out < m"
      have "pickScan (ranged k b) nn None = None" using stop pre(4) by (simp add: pickBestReady_def)
      then have none: "\<forall>(a, l)\<in>set b. readyEntry (nn a) l = None" using pickScan_NoneD [of "ranged k b"] by simp
      obtain l where l: "(peFrom f, l) \<in> set b" "f \<in> set l" using pre(3) by (auto simp: inBuckets_def)
      have "sorted (map peNonce l)" "readyEntry (nn (peFrom f)) l = None"
        using pre(1) none l(1) unfolding buckets_of_def by blast+
      then have "peNonce f \<noteq> nn (peFrom f)" using l(2) by (rule readyEntry_NoneD)
      then show "peNonce f \<noteq> n0 (peFrom f) + of_nat (length (chosenNonces out (peFrom f)))"
        using pre(2) by (simp add: chosen_ok_def)
    qed
  next
    case (drop k b nn tot out e a r)
    obtain l where l: "(a, l) \<in> set b" "e \<in> set l" using drop(2) by (rule pick_member)
    have "f \<noteq> e" using assms(4) drop(3) by (auto simp: usable_def)
    show ?case unfolding P_def
    proof (intro impI)
      assume pre: "buckets_of E b" "chosen_ok dec conv E n0 nn out" "inBuckets f b" "length r < m"
      then have "e \<in> E" using l unfolding buckets_of_def by blast
      then have "inBuckets f (dropEntry a (peHash e) b)"
        using pre(1,3) \<open>f \<noteq> e\<close> by (intro inBuckets_drop [OF _ assms(2)])
      then show "peNonce f \<noteq> n0 (peFrom f) + of_nat (length (chosenNonces r (peFrom f)))"
        using drop(4) buckets_of_drop [OF pre(1)] pre(2,4) unfolding P_def by blast
    qed
  next
    case (take k b nn tot out e a x t r)
    obtain l where l: "(a, l) \<in> set b" "e \<in> set l" "peNonce e = nn a" using take(2) by (rule pick_member)
    show ?case unfolding P_def
    proof (intro impI)
      assume pre: "buckets_of E b" "chosen_ok dec conv E n0 nn out" "inBuckets f b" "length r < m"
      then have "e \<in> E" "peFrom e = a" using l by (auto simp: buckets_of_def)
      then have "chosen_ok dec conv E n0 (nn(a := nn a + 1)) (out @ [(e, x, t)])"
        using chosen_snoc [OF pre(2) _ take(3,4)] l(3) by simp
      then show "peNonce f \<noteq> n0 (peFrom f) + of_nat (length (chosenNonces r (peFrom f)))"
        using take(6) pre unfolding P_def by simp
    qed
  qed simp
  then show ?thesis using assms by (simp add: P_def)
qed

text \<open>The gas counter stays within the limit.  It is the sum of the gas modulo \<^verbatim>\<open>2 ^ 64\<close>, and the sum itself
  when no candidate can make it wrap.\<close>

lemma selectLoop_gas_counter:
  fixes dec :: "byte list \<Rightarrow> 'a option" and conv :: "'a \<Rightarrow> 'b option"
  assumes "gl > 0" "tot = (\<Sum>(e, x, t)\<leftarrow>out. gas x)" "tot \<le> gl"
  shows "(\<Sum>(e, x, t)\<leftarrow>selectLoop ord dec gas conv gl m b nn tot out. gas x) \<le> gl"
proof -
  define P where "P tot out r \<longleftrightarrow> (tot = (\<Sum>(e, x, t)\<leftarrow>out. gas x) \<longrightarrow> tot \<le> gl \<longrightarrow> (\<Sum>(e, x, t)\<leftarrow>r. gas x) \<le> gl)"
    for tot and out r :: "(Entry \<times> 'a \<times> 'b) list"
  have "P tot out (selectLoop ord dec gas conv gl m b nn tot out)"
    by (rule selectLoop_rule [where P = "\<lambda>b nn tot out r. P tot out r"]) (use assms(1) in \<open>auto simp: P_def\<close>)
  then show ?thesis using assms(2,3) by (simp add: P_def)
qed

lemma selectLoop_gas:
  fixes dec :: "byte list \<Rightarrow> 'a option" and conv :: "'a \<Rightarrow> 'b option"
  assumes "gl > 0" "\<And>e x. e \<in> E \<Longrightarrow> dec (peRaw e) = Some x \<Longrightarrow> unat (gas x) + unat gl < 2 ^ 64"
    "buckets_of E b" "unat tot = (\<Sum>(e, x, t)\<leftarrow>out. unat (gas x))" "tot \<le> gl"
  shows "(\<Sum>(e, x, t)\<leftarrow>selectLoop ord dec gas conv gl m b nn tot out. unat (gas x)) \<le> unat gl"
proof -
  define P where "P b tot out r \<longleftrightarrow> (buckets_of E b \<longrightarrow> unat tot = (\<Sum>(e, x, t)\<leftarrow>out. unat (gas x)) \<longrightarrow> tot \<le> gl \<longrightarrow>
      (\<Sum>(e, x, t)\<leftarrow>r. unat (gas x)) \<le> unat gl)" for b tot and out r :: "(Entry \<times> 'a \<times> 'b) list"
  have "P b tot out (selectLoop ord dec gas conv gl m b nn tot out)"
  proof (rule selectLoop_rule [where P = "\<lambda>b nn tot out r. P b tot out r"], goal_cases stop drop skip take)
    case (take k b nn tot out e a x t r)
    show ?case unfolding P_def
    proof (intro impI)
      assume pre: "buckets_of E b" "unat tot = (\<Sum>(e, x, t)\<leftarrow>out. unat (gas x))" "tot \<le> gl"
      obtain l where "(a, l) \<in> set b" "e \<in> set l" using take(2) by (rule pick_member)
      then have "e \<in> E" using pre(1) unfolding buckets_of_def by blast
      then have "unat tot + unat (gas x) < 2 ^ 64"
        using pre(3) assms(2) [of e x] take(3) unfolding word_le_nat_alt by linarith
      then have "unat (tot + gas x) = unat tot + unat (gas x)" by (intro unat_plus_exact) simp
      moreover have "tot + gas x \<le> gl" using take(5) assms(1) by simp
      ultimately show "(\<Sum>(e, x, t)\<leftarrow>r. unat (gas x)) \<le> unat gl"
        using take(6) pre(1,2) unfolding P_def by simp
    qed
  qed (use buckets_of_drop buckets_of_delete in \<open>auto simp: P_def word_le_nat_alt\<close>)
  then show ?thesis using assms(3-5) by (simp add: P_def)
qed


section \<open>Pending entries of a pool\<close>

text \<open>What the selection relies on: the pending entries of a well-formed pool have different hashes.\<close>

locale pending_source =
  fixes ok :: "'p \<Rightarrow> bool" and pend :: "'p \<Rightarrow> Entry list"
  assumes hash_unique: "ok p \<Longrightarrow> inj_on peHash (set (pend p))"
begin

lemma selection_maximal:
  assumes "ok p" "e \<in> candidates (pend p) kind exclude" "usable dec conv e"
    "length (selectLoop ord dec gas conv 0 m (groupPendingBySender (pend p) kind exclude) n0 0 []) < m"
  shows "peNonce e \<noteq> n0 (peFrom e) + of_nat (length (chosenNonces
    (selectLoop ord dec gas conv 0 m (groupPendingBySender (pend p) kind exclude) n0 0 []) (peFrom e)))"
proof (rule selectLoop_maximal [OF group_ok(1) _ _ assms(3) group_ok(2) [OF assms(2)] assms(4)])
  show "inj_on peHash (candidates (pend p) kind exclude)"
    using hash_unique [OF assms(1)] by (rule inj_on_subset) (auto simp: candidates_def)
  show "chosen_ok dec conv (candidates (pend p) kind exclude) n0 n0 []"
    by (simp add: chosen_ok_def chosenNonces_def nonceRun_def)
qed

end

interpretation pool_source: pending_source pool_ok Pending
proof
  fix p assume "pool_ok p"
  then have ok: "pool_shape p" "pool_linked p" by (simp_all add: pool_ok_def)
  show "inj_on peHash (set (Pending p))"
  proof (rule inj_onI)
    fix x y assume "x \<in> set (Pending p)" "y \<in> set (Pending p)" "peHash x = peHash y"
    then have "poolGet p (peHash x) = Some x" "poolGet p (peHash x) = Some y"
      using entries_get [OF ok] by (simp_all add: Pending_def)
    then show "x = y" by simp
  qed
qed

lemma decodeDew_Some: "decodeDew c b = Some t \<longleftrightarrow> UnmarshalDewTx c b = Inr t"
  by (simp add: decodeDew_def split: sum.split)

text \<open>C39: the native selection of a well-formed pool returns a block body: at most the requested number of
  pending native entries that decode, each sender's nonces continuous from its account nonce.  It is
  maximal: if the block is not full, no pending native entry that decodes has its sender's next nonce.\<close>

theorem dew_selection_continuous_and_maximal:
  fixes c :: "('key, 'z) txLib_scheme" and d :: "('k, 'y) stateLib_scheme"
  assumes "pool_ok p" "m > 0"
  shows "selectPendingDewTxs ord c d s p (int m) = map (\<lambda>(e, x, t). t) (selectDewEntries ord c d s p m) \<and>
    length (selectDewEntries ord c d s p m) \<le> m \<and>
    (\<forall>(e, x, t)\<in>set (selectDewEntries ord c d s p m).
       e \<in> set (Pending p) \<and> peKind e = KindDew \<and> UnmarshalDewTx c (peRaw e) = Inr t) \<and>
    (\<forall>a. chosenNonces (selectDewEntries ord c d s p m) a =
       nonceRun (fst (GetNonce d s a)) (length (chosenNonces (selectDewEntries ord c d s p m) a))) \<and>
    (length (selectDewEntries ord c d s p m) < m \<longrightarrow> (\<forall>e t. e \<in> set (Pending p) \<longrightarrow> peKind e = KindDew \<longrightarrow>
       UnmarshalDewTx c (peRaw e) = Inr t \<longrightarrow>
       peNonce e \<noteq> fst (GetNonce d s (peFrom e)) + of_nat (length (chosenNonces (selectDewEntries ord c d s p m) (peFrom e)))))"
proof -
  let ?E = "candidates (Pending p) KindDew {}" and ?n = "\<lambda>a. fst (GetNonce d s a)" and ?sel = "selectDewEntries ord c d s p m"
  have "chosen_ok (decodeDew c) (Some :: DewTx \<Rightarrow> DewTx option) ?E ?n ?n []"
    by (simp add: chosen_ok_def chosenNonces_def nonceRun_def)
  then obtain nn where sel: "chosen_ok (decodeDew c) Some ?E ?n nn ?sel" "length ?sel \<le> m"
    using selectLoop_sound [OF group_ok(1), of "decodeDew c" Some "Pending p" KindDew "{}" ?n ?n "[]" m ord noGas 0 0]
    unfolding selectDewEntries_def by auto
  have max: "peNonce e \<noteq> ?n (peFrom e) + of_nat (length (chosenNonces ?sel (peFrom e)))"
    if "length ?sel < m" "e \<in> set (Pending p)" "peKind e = KindDew" "UnmarshalDewTx c (peRaw e) = Inr t" for e t
    using that pool_source.selection_maximal [OF assms(1), of e KindDew "{}" "decodeDew c" Some ord noGas m ?n]
    unfolding selectDewEntries_def by (simp add: candidates_def usable_def decodeDew_Some)
  show ?thesis
    using sel max assms(2) unfolding chosen_ok_def
    by (auto simp: selectPendingDewTxs_def candidates_def decodeDew_Some)
qed

text \<open>C40: with a positive gas limit, the gas of the selected EVM transactions, summed modulo \<^verbatim>\<open>2 ^ 64\<close> as the
  64-bit counter of the loop does, is at most the limit.  The sum itself is at most the limit when the
  gas of each pending EVM entry that decodes, added to the limit, fits 64 bits.\<close>

theorem evm_selection_within_gas_limit:
  assumes "gasLimit > 0"
  shows "(\<Sum>(e, x, t)\<leftarrow>selectEVMEntries ord c d s p m gasLimit exclude. ethGas c x) \<le> gasLimit \<and>
    ((\<forall>e x. e \<in> set (Pending p) \<and> peKind e = KindEVM \<and> ethDecode c (peRaw e) = Some x \<longrightarrow>
        unat (ethGas c x) + unat gasLimit < 2 ^ 64) \<longrightarrow>
     (\<Sum>(e, x, t)\<leftarrow>selectEVMEntries ord c d s p m gasLimit exclude. unat (ethGas c x)) \<le> unat gasLimit)"
proof (intro conjI impI)
  show "(\<Sum>(e, x, t)\<leftarrow>selectEVMEntries ord c d s p m gasLimit exclude. ethGas c x) \<le> gasLimit"
    unfolding selectEVMEntries_def using assms by (intro selectLoop_gas_counter) simp_all
next
  assume fit: "\<forall>e x. e \<in> set (Pending p) \<and> peKind e = KindEVM \<and> ethDecode c (peRaw e) = Some x \<longrightarrow>
      unat (ethGas c x) + unat gasLimit < 2 ^ 64"
  show "(\<Sum>(e, x, t)\<leftarrow>selectEVMEntries ord c d s p m gasLimit exclude. unat (ethGas c x)) \<le> unat gasLimit"
    unfolding selectEVMEntries_def using assms fit
    by (intro selectLoop_gas [OF _ _ group_ok(1)]) (auto simp: candidates_def)
qed


section \<open>Concrete selections\<close>

definition exRawEntry :: "hash \<Rightarrow> address \<Rightarrow> Kind \<Rightarrow> byte list \<Rightarrow> int \<Rightarrow> Entry" where
  "exRawEntry h a k raw price = \<lparr>peHash = h, peFrom = a, peNonce = 0, peKind = k, peRaw = raw, pePrice = price,
     peTip = None, peSize = length raw, peAddedAt = 0\<rparr>"

text \<open>A native pool of one entry, with a decoder that knows its transaction.\<close>

definition exDewLib :: "address txLib" where
  "exDewLib = exTxLib\<lparr>rlpDecodeDewTx := (\<lambda>b. Some (signedRLP exDewTx))\<rparr>"

definition exDewPool :: Pool where
  "exDewPool = (NewPool DefaultConfig)\<lparr>plByHash := [(1, exRawEntry 1 7 KindDew [0xdf, 0] 2100000000000)],
     plBySender := [(7, [(0, 1)])]\<rparr>"

lemma exDewPool_ok: "pool_ok exDewPool"
proof -
  have get: "poolGet exDewPool h = (if h = 1 then Some (exRawEntry 1 7 KindDew [0xdf, 0] 2100000000000) else None)" for h
    by (simp add: poolGet_def exDewPool_def)
  have slot: "slotAt exDewPool a n = (if a = 7 \<and> n = 0 then Some 1 else None)" for a n
    by (simp add: slotAt_def exDewPool_def)
  have cfg: "plCfg exDewPool = DefaultConfig"
    by (simp add: exDewPool_def NewPool_def DefaultConfig_def Let_def MinDewTxFeeWei_def DefaultDewTxFeeWei_def)
  show ?thesis
    unfolding pool_ok_def pool_linked_def pool_limits_def get slot cfg
    by (auto simp: pool_shape_def exDewPool_def senderCount_def poolLen_def config_ok_def entry_ok_def exRawEntry_def
        DefaultConfig_def MinDewTxFeeWei_def DefaultDewTxFeeWei_def split: if_splits)
qed

lemma exDew_decodes: "UnmarshalDewTx exDewLib [0xdf, 0] = Inr exDewTx"
  by (simp add: UnmarshalDewTx_def exDewLib_def DewTxType_def signedRLP_def unsignedRLP_def exDewTx_def Let_def copyBig_def)

lemma exDew_selected:
  "selectDewEntries (\<lambda>_ _ a. unat a) exDewLib exLib (New []) exDewPool 4 =
     [(exRawEntry 1 7 KindDew [0xdf, 0] 2100000000000, exDewTx, exDewTx)]"
proof -
  have "groupPendingBySender (Pending exDewPool) KindDew {} = [(7, [exRawEntry 1 7 KindDew [0xdf, 0] 2100000000000])]"
    by (simp add: groupPendingBySender_def Pending_def exDewPool_def exRawEntry_def bucketAdd_def)
  moreover have "fst (GetNonce exLib (New []) a) = 0" for a
    by (simp add: accessor_views accountOf_def rawOf_def New_def fromDb_def NewAccount_def)
  ultimately show ?thesis
    by (simp add: selectDewEntries_def selectLoop.simps pickBestReady_def ranged_def exRawEntry_def decodeDew_def exDew_decodes noGas_def)
qed

theorem dew_selection_continuous_and_maximal_witness:
  "selectPendingDewTxs (\<lambda>_ _ a. unat a) exDewLib exLib (New []) exDewPool 4 = [exDewTx] \<and>
   chosenNonces (selectDewEntries (\<lambda>_ _ a. unat a) exDewLib exLib (New []) exDewPool 4) 7 = nonceRun (fst (GetNonce exLib (New []) 7)) 1"
proof -
  let ?sel = "selectDewEntries (\<lambda>_ _ a. unat a) exDewLib exLib (New []) exDewPool 4"
  have "selectPendingDewTxs (\<lambda>_ _ a. unat a) exDewLib exLib (New []) exDewPool (int 4) = map (\<lambda>(e, x, t). t) ?sel"
    "chosenNonces ?sel 7 = nonceRun (fst (GetNonce exLib (New []) 7)) (length (chosenNonces ?sel 7))"
    using dew_selection_continuous_and_maximal [OF exDewPool_ok, of 4 "\<lambda>_ _ a. unat a" exDewLib exLib "New []"] by simp_all
  moreover have "length (chosenNonces ?sel 7) = 1" by (simp add: exDew_selected chosenNonces_def exRawEntry_def)
  ultimately show ?thesis by (simp add: exDew_selected)
qed

text \<open>Two EVM entries of different senders; the first byte of the raw form gives the gas.\<close>

definition exEthLib :: "(byte \<Rightarrow> u64) \<Rightarrow> (byte, byte) ethLib" where
  "exEthLib g = \<lparr>ethDecode = (\<lambda>raw. case raw of [] \<Rightarrow> None | x # xs \<Rightarrow> Some x), ethGas = g, ethToDew = Some\<rparr>"

definition exGasPool :: Pool where
  "exGasPool = (NewPool DefaultConfig)\<lparr>plByHash := [(1, exRawEntry 1 7 KindEVM [1] 3000000000), (2, exRawEntry 2 8 KindEVM [2] 2000000000)],
     plBySender := [(7, [(0, 1)]), (8, [(0, 2)])]\<rparr>"

theorem evm_selection_within_gas_limit_witness:
  "(\<Sum>(e, x, t)\<leftarrow>selectEVMEntries (\<lambda>_ _ a. unat a) (exEthLib ucast) exLib (New []) exGasPool 4 300 {}. unat (ucast x :: u64))
     \<le> unat (300 :: u64)"
proof -
  have "unat (ethGas (exEthLib ucast) x) + unat (300 :: u64) < 2 ^ 64" for x
    using le_less_trans [OF take_bit_nat_less_eq_self unat_byte_bound, of 64 x]
    by (simp add: exEthLib_def unsigned_ucast_eq)
  then show ?thesis
    using evm_selection_within_gas_limit [of 300 "exEthLib ucast" "\<lambda>_ _ a. unat a" exLib "New []" exGasPool 4 "{}"]
    by (simp add: exEthLib_def)
qed

text \<open>The gas total wraps: with a limit of 120 million, a transaction of \<^verbatim>\<open>2^64 - 1\<close> gas is selected after one
  of 21000 gas.\<close>

lemma evm_selection_gas_wraps:
  "map (\<lambda>(e, x, t). t) (selectEVMEntries (\<lambda>_ _ a. unat a) (exEthLib (\<lambda>x. if x = 1 then 21000 else - 1)) exLib (New []) exGasPool 4 120000000 {}) = [1, 2]"
proof -
  have "groupPendingBySender (Pending exGasPool) KindEVM {} =
      [(7, [exRawEntry 1 7 KindEVM [1] 3000000000]), (8, [exRawEntry 2 8 KindEVM [2] 2000000000])]"
    by (simp add: groupPendingBySender_def Pending_def exGasPool_def exRawEntry_def bucketAdd_def)
  moreover have "fst (GetNonce exLib (New []) a) = 0" for a
    by (simp add: accessor_views accountOf_def rawOf_def New_def fromDb_def NewAccount_def)
  ultimately show ?thesis
    by (simp add: selectEVMEntries_def selectLoop.simps pickBestReady_def ranged_def exRawEntry_def exEthLib_def)
qed

end
