(* ===== verification/Spec2Isabelle.thy ===== *)
theory Spec2Isabelle
  imports EngineRun StateRoot StakingRun OrderbookRun NativeTx MempoolProps BlockSelection
begin

text \<open>
  Verification library of the Dew node (\<^verbatim>\<open>src/\<close>), a Go blockchain node with a BFT consensus
  engine, a journaled state database with a sparse Merkle root, native staking and order-book modules,
  native transactions beside EVM transactions, and a mempool.

  \<^bold>\<open>How the parts interact.\<close>  The mempool admits transactions (\<^verbatim>\<open>src/mempool\<close>); the node selects ready
  ones for a block (\<^verbatim>\<open>src/node/build.go\<close>); executors apply them to the state database
  (\<^verbatim>\<open>src/core/state\<close>), native ones through \<^verbatim>\<open>src/core/native/executor.go\<close>, which pays fees through the
  staking module; the block carries the state root; the consensus engine (\<^verbatim>\<open>src/consensus\<close>) agrees on
  blocks among the validators the staking module elects.

  \<^bold>\<open>Conventions.\<close>  64-bit, 160-bit and 256-bit Go values are words of that width, so additions wrap as in
  the code; unbounded numbers (\<^verbatim>\<open>big.Int\<close>) are integers.  A Go map that is ranged over is an
  association list; where the iteration order decides a tie and the map is ranged over again and again
  (eviction from the pool, picking a sender for a block), the order of each range is an argument, given by
  arbitrary ranks of the keys (\<^verbatim>\<open>ranged\<close> in Mempool).  A map that is only looked up is a function or a map.  Errors are values of a sum or option type; a result \<^verbatim>\<open>None\<close> of an operation is a panic.
  Methods that mutate the state database are programs of the state monad.  Code outside the repository
  (Keccak, secp256k1, RLP, the accessors of go-ethereum transactions) is a field of a library record that
  the definitions take as an argument; theorems name what they need of it (\<^verbatim>\<open>signatures_recover\<close>,
  \<^verbatim>\<open>account_codec\<close>, \<^verbatim>\<open>slots_ok\<close>, \<^verbatim>\<open>dew_rlp_codec\<close>, no collision on the hashed strings), and the witnesses
  instantiate it with concrete functions.

  \<^bold>\<open>Foundations.\<close>  Prelude: type synonyms, exact word arithmetic, counting lemmas.  Bytes: big-endian
  digits, the codec locale with its instances for 64-bit words, addresses and hashes, byte-wise order.

  \<^bold>\<open>Consensus.\<close>
  \<^item> ValidatorSet (\<^verbatim>\<open>validator.go\<close>): construction, quorum test, proposer rotation.  The constructor accepts
    exactly the acceptable lists; two quorums overlap in more than a third of the power when the tripled
    total fits 64 bits, and the test degenerates when the doubled total wraps to 0; over a period each
    validator proposes exactly as often as its power.
  \<^item> Messages, Evidence (\<^verbatim>\<open>messages.go\<close>, \<^verbatim>\<open>evidence.go\<close>, \<^verbatim>\<open>core/types\<close>): votes, proposals, signing,
    double-sign evidence and the wire formats with their round trips.
  \<^item> VoteSet (\<^verbatim>\<open>state.go\<close>): vote accumulation; under the same bound the majority search does not depend on the
    map order.
  \<^item> Engine (\<^verbatim>\<open>engine.go\<close>): one definition per method; \<^verbatim>\<open>estep\<close> interleaves them, with the two halves of
    a method around the unlocked section as separate steps.  EngineSafety: an engine never equivocates.
    EngineCommit: in runs that never replace the validator set, commits are certified and unique per
    height; conflicting certificates expose more than a third of the power, and a timeout drops the lock.  EngineRun: concrete runs.

  \<^bold>\<open>State.\<close>
  \<^item> StateDB (\<^verbatim>\<open>statedb.go\<close>, \<^verbatim>\<open>evm_api.go\<close>, \<^verbatim>\<open>journal.go\<close>, \<^verbatim>\<open>access_list.go\<close>, \<^verbatim>\<open>access_track.go\<close>,
    \<^verbatim>\<open>copy.go\<close>, \<^verbatim>\<open>keys.go\<close>): every operation.  StateLaws gives the views \<^verbatim>\<open>accountOf\<close> and \<^verbatim>\<open>slotOf\<close> the
    accessors read and the refinement of the access list to sets.
  \<^item> StateUndo: reverting a frame that writes no self-destructed account and creates accounts only where
    none exists restores balances, nonces, code hashes, marks, slots, access list, refund and logs.  StateFinal: the exact effect of
    \<^verbatim>\<open>Finalise\<close> and its consequences.  StateFlush: flush and reopen shows the same state.
  \<^item> MerkleTree, StateRoot (\<^verbatim>\<open>smt.go\<close>): the level-by-level root equals the full tree of height 256, binds
    the leaves and does not depend on map order.

  \<^bold>\<open>Native modules.\<close>
  \<^item> Staking (\<^verbatim>\<open>staking.go\<close>, \<^verbatim>\<open>activeset.go\<close>): StakingLaws (slots are distinct), StakingOps (self-stake is
    conserved), StakingProps (delegation shares, slashing, unbonding), StakingSet (income split, active
    set with multiplicities, conversion to validators), StakingRun (a candidate that bonds again is listed
    twice; concrete states).
  \<^item> Orderbook (\<^verbatim>\<open>orderbook.go\<close>): OrderbookLaws (slots, order records, open index), OrderbookSpec (an
    abstract book and the refinement of every operation), OrderbookInv and OrderbookProps (escrows and
    counters are exact, open orders can be cancelled and filled, best quotes, all while the summed
    amounts stay below 2^256), OrderbookRun (rounding).
  \<^item> DewTx (\<^verbatim>\<open>dewtx.go\<close>): the native transaction, its envelope and signatures.  NativeTx
    (\<^verbatim>\<open>executor.go\<close>): execution conserves balances while the debit fits 256 bits, and mints when it wraps.

  \<^bold>\<open>Mempool and block building.\<close>
  \<^item> Mempool, MempoolProps (\<^verbatim>\<open>pool.go\<close>, \<^verbatim>\<open>config.go\<close>): the pool stays well formed, an admitted
    entry is the submitted transaction and displaces exactly what it may, telemetry returns.
  \<^item> BlockSelection (\<^verbatim>\<open>build.go\<close>): the selection loop ends, packs continuous nonce chains and keeps
    its 64-bit gas counter within the limit.

  \<^bold>\<open>Bounds and fuel.\<close>  No definition uses fuel.  Loops over slots or lists are recursions on the list of
  indexes the code ranges over; the telemetry sort is a \<^verbatim>\<open>while_option\<close> loop proved to return; the
  selection loop has a termination proof.  The theorems on summed powers, escrows and balances
  name the sums that must fit the word; the tree theorems fix the height at 256 as the code does.

  \<^bold>\<open>Locales.\<close>  Interfaces between components are locales, interpreted on the model's definitions in the
  theory of the component that provides them: the fixed-width codec (Bytes), weighted quorums
  (ValidatorSet), slot stores (StateLaws) and the source of pending entries (BlockSelection).

  \<^bold>\<open>Not modelled.\<close>  The EVM bridge, executor and precompiles call the go-ethereum interpreter, whose code is
  not in the repository; the parallel executor wraps it.  The RLP wire forms of Ethereum transactions,
  headers and blocks are encodings by that library.  The consensus drivers are timers and goroutines around the
  engine methods, whose every order of calls the engine theorems cover.  Node wiring and persistence, the
  peer-to-peer network, the JSON-RPC server, the faucet, the indexer, local networks and the commands are
  I/O around the modelled parts.  Locks appear as the atomicity of steps; wall-clock times are arguments.
\<close>

end
